(* ===== verification/Prelude.thy ===== *)
theory Prelude
  imports Main "HOL-Library.Word" "HOL-Library.Monad_Syntax"
begin

text \<open>
  What the components of the development share: the machine types of the C sources, the
  model of byte memory, and the lemmas on lists and words that carry the component proofs.

  A C operation with a defined result is a HOL function. Where C leaves the behaviour
  undefined (an access outside an object) or stops the program (a failed assertion), the
  model returns \<open>None\<close>; a theorem that concludes with \<open>Some\<close> therefore also states the
  absence of such faults.
\<close>

unbundle bit_operations_syntax

named_theorems mem_simps \<open>reads and writes of byte memory\<close>
named_theorems word_nat \<open>words read as natural numbers\<close>
named_theorems rawr_defs \<open>definitions of constants and thin wrappers, unfolded freely\<close>

type_synonym u8 = "8 word"
type_synonym u16 = "16 word"
type_synonym u32 = "32 word"
type_synonym u64 = "64 word"
type_synonym size_t = "64 word"
type_synonym bytes = "u8 list"

section \<open>Return codes\<close>

definition rawr_Success :: int where
  "rawr_Success = 0"

definition rawr_Error :: int where
  "rawr_Error = -1"

lemmas rawr_codes [rawr_defs] = rawr_Success_def rawr_Error_def

lemma rawr_Success_neq_Error [simp]: "rawr_Success \<noteq> rawr_Error" "rawr_Error \<noteq> rawr_Success"
  by (simp_all add: rawr_codes)

definition guard :: "bool \<Rightarrow> unit option" where
  "guard b = (if b then Some () else None)"

lemma bind_guard [simp]:
  "(guard b \<bind> f) = (if b then f () else None)"
  by (simp add: guard_def)

lemma guard_eq_Some [simp]: "guard b = Some u \<longleftrightarrow> b"
  by (simp add: guard_def)

section \<open>Byte memory\<close>

text \<open>
  An object in memory is the list of its bytes. \<open>mem_read\<close> and \<open>mem_write\<close> are the two
  sides of \<^verbatim>\<open>memcpy\<close>: they fail outside the object.
\<close>

definition mem_read :: "bytes \<Rightarrow> nat \<Rightarrow> nat \<Rightarrow> bytes option" where
  "mem_read m off n = (if off + n \<le> length m then Some (take n (drop off m)) else None)"

definition patch :: "'a list \<Rightarrow> nat \<Rightarrow> 'a list \<Rightarrow> 'a list" where
  "patch m off bs = take off m @ bs @ drop (off + length bs) m"

definition mem_write :: "bytes \<Rightarrow> nat \<Rightarrow> bytes \<Rightarrow> bytes option" where
  "mem_write m off bs = (if off + length bs \<le> length m then Some (patch m off bs) else None)"

lemma length_patch [simp]:
  "off + length bs \<le> length m \<Longrightarrow> length (patch m off bs) = length m"
  by (simp add: patch_def)

lemma patch_Nil [simp]: "patch m off [] = m"
  by (simp add: patch_def)

lemma nth_patch:
  assumes "off + length bs \<le> length m" and "i < length m"
  shows "patch m off bs ! i = (if off \<le> i \<and> i < off + length bs then bs ! (i - off) else m ! i)"
  using assms by (auto simp: patch_def nth_append min_def add.commute)

lemma length_take_drop: "a + n \<le> length xs \<Longrightarrow> length (take n (drop a xs)) = n"
  by simp

lemma mem_read_eq_Some [mem_simps]:
  "mem_read m off n = Some bs \<longleftrightarrow> off + n \<le> length m \<and> bs = take n (drop off m)"
  by (auto simp: mem_read_def)

lemma mem_write_eq_Some [mem_simps]:
  "mem_write m off bs = Some m' \<longleftrightarrow> off + length bs \<le> length m \<and> m' = patch m off bs"
  by (auto simp: mem_write_def)

lemma mem_read_ok [mem_simps]:
  "off + n \<le> length m \<Longrightarrow> mem_read m off n = Some (take n (drop off m))"
  by (simp add: mem_read_def)

lemma mem_write_ok [mem_simps]:
  "off + length bs \<le> length m \<Longrightarrow> mem_write m off bs = Some (patch m off bs)"
  by (simp add: mem_write_def)

lemma length_mem_read: "mem_read m off n = Some bs \<Longrightarrow> length bs = n"
  by (auto simp: mem_simps)

lemma length_mem_write: "mem_write m off bs = Some m' \<Longrightarrow> length m' = length m"
  by (auto simp: mem_simps)

lemma patch_read_same [mem_simps]:
  assumes "off + length bs \<le> length m"
  shows "take (length bs) (drop off (patch m off bs)) = bs"
  using assms by (simp add: patch_def)

lemma patch_read_disjoint:
  assumes "off + length bs \<le> length m" and "off' + n \<le> off \<or> off + length bs \<le> off'"
  shows "take n (drop off' (patch m off bs)) = take n (drop off' m)"
proof (rule nth_equalityI)
  show "length (take n (drop off' (patch m off bs))) = length (take n (drop off' m))"
    using assms(1) by simp
next
  fix i assume "i < length (take n (drop off' (patch m off bs)))"
  then have i: "i < n" "off' + i < length m"
    using assms(1) by auto
  then show "take n (drop off' (patch m off bs)) ! i = take n (drop off' m) ! i"
    using assms by (auto simp: nth_patch)
qed

lemma mem_write_then_read:
  "mem_write m off bs = Some m' \<Longrightarrow> mem_read m' off (length bs) = Some bs"
  by (auto simp: mem_simps)

lemma upt_split: "m \<le> n \<Longrightarrow> [0..<n] = [0..<m] @ map ((+) m) [0..<n - m]"
  using upt_add_eq_append [of 0 m "n - m"] map_add_upt [of m "n - m"]
  by (simp add: add.commute [of _ m])

section \<open>Words as natural numbers\<close>

lemma unat_and_mask_minus_1 [word_nat]:
  fixes x :: "'a::len word"
  shows "unat (x AND (2 ^ k - 1)) = unat x mod 2 ^ k"
proof -
  have "x AND (2 ^ k - 1) = take_bit k x"
    by (simp only: take_bit_eq_mask mask_eq_exp_minus_1)
  then have "unat (x AND (2 ^ k - 1)) = take_bit k (unat x)"
    by (simp only: unsigned_take_bit_eq)
  then show ?thesis
    by (simp only: take_bit_eq_mod)
qed

lemma unat_pow2 [word_nat]:
  "k < LENGTH('a) \<Longrightarrow> unat ((2::'a::len word) ^ k) = 2 ^ k"
  using unat_of_nat [of "2 ^ k", where 'a = 'a] by simp

lemma unat_add_lt [word_nat]:
  fixes x y :: "'a::len word"
  shows "unat x + unat y < 2 ^ LENGTH('a) \<Longrightarrow> unat (x + y) = unat x + unat y"
  by (simp add: unat_word_ariths)

lemma unat_mult_lt [word_nat]:
  fixes x y :: "'a::len word"
  shows "unat x * unat y < 2 ^ LENGTH('a) \<Longrightarrow> unat (x * y) = unat x * unat y"
  by (simp add: unat_word_ariths)

lemma unat_sub_le [word_nat]:
  fixes x y :: "'a::len word"
  shows "y \<le> x \<Longrightarrow> unat (x - y) = unat x - unat y"
  by (rule unat_sub)

lemma unat_lt64 [simp]: "unat (x :: 64 word) < 18446744073709551616"
  using unsigned_less [of x] by simp

lemma ucast_up_inject:
  fixes x y :: "'a::len word"
  assumes "LENGTH('a) \<le> LENGTH('b::len)"
  shows "(ucast x :: 'b word) = ucast y \<longleftrightarrow> x = y"
proof -
  have "ucast (ucast z :: 'b word) = z" for z :: "'a word"
    using assms by (simp add: ucast_up_ucast_id is_up)
  then show ?thesis by metis
qed

lemma unat_word_of_int [word_nat]:
  "0 \<le> i \<Longrightarrow> i < 2 ^ LENGTH('a) \<Longrightarrow> unat (word_of_int i :: 'a::len word) = nat i"
  by (simp add: unat_eq_nat_uint uint_word_of_int)

section \<open>Powers of two\<close>

text \<open>The test \<^verbatim>\<open>((n - 1) & n) != 0\<close> accepts zero and the powers of two, and nothing else.\<close>

lemma and_pred_nat:
  fixes n :: nat
  assumes "(n - 1) AND n = 0" and "0 < n"
  shows "\<exists>k. n = 2 ^ k"
  using assms
proof (induction n rule: less_induct)
  case (less n)
  define m where "m = n div 2"
  have rec: "(n - 1) AND n = of_bool (odd (n - 1) \<and> odd n) + 2 * ((n - 1) div 2 AND m)"
    unfolding m_def by (rule and_rec)
  show ?case
  proof (cases "even n")
    case True
    then have n: "n = 2 * m" and m: "0 < m" "m < n"
      using less.prems(2) by (auto simp: m_def)
    then have "(n - 1) div 2 = m - 1" by (cases m) auto
    with rec less.prems True m have "(m - 1) AND m = 0" by simp
    with less.IH m obtain k where "m = 2 ^ k" by blast
    with n show ?thesis by (intro exI [of _ "Suc k"]) simp
  next
    case False
    then have "(n - 1) div 2 = m" and n: "n = 2 * m + 1"
      by (auto simp: m_def elim!: oddE)
    with rec less.prems False have "m = 0" by simp
    with n show ?thesis by (intro exI [of _ 0]) simp
  qed
qed

lemma and_pred_word:
  fixes n :: "'a::len word"
  assumes "(n - 1) AND n = 0" and "n \<noteq> 0"
  shows "\<exists>k<LENGTH('a). n = 2 ^ k"
proof -
  have pos: "0 < unat n" using assms(2) by (simp add: unat_gt_0)
  then have "unat (n - 1) = unat n - 1"
    by (simp add: unat_minus_one assms(2))
  then have "(unat n - 1) AND unat n = 0"
    using assms(1) by (metis unsigned_0 unsigned_and_eq)
  with pos obtain k where k: "unat n = 2 ^ k"
    using and_pred_nat by blast
  have "unat n < 2 ^ LENGTH('a)" by (rule unsigned_less)
  with k have "k < LENGTH('a)" by simp
  moreover from this have "n = 2 ^ k"
    using k unat_pow2 [of k, where 'a = 'a] by (simp add: word_unat_eq_iff)
  ultimately show ?thesis by blast
qed

lemma and_pred_pow2: "((2::'a::len word) ^ k - 1) AND 2 ^ k = 0"
  by (rule bit_eqI) (simp add: bit_and_iff bit_exp_iff bit_mask_iff flip: mask_eq_exp_minus_1)

end
