(* ===== verification/Fifo.thy ===== *)
theory Fifo
  imports Prelude
begin

text \<open>
  The contract of a bounded first-in first-out queue, as the audio path relies on it: a
  push takes as many elements as fit and appends them, a pop removes the oldest elements.
  What a client may conclude about any sequence of pushes and pops is proved once, from
  the contract; \<open>RingBuffer\<close> and \<open>QueueSpsc\<close> interpret the contract on the code's operations.
\<close>

datatype 'a fifo_op = Push "'a list" | Pop size_t

text \<open>A run yields the final state, the elements accepted by the pushes and those the pops
  delivered, both in the order of the calls.\<close>

fun fifo_run ::
  "('s \<Rightarrow> 'a list \<Rightarrow> ('s \<times> nat) option) \<Rightarrow> ('s \<Rightarrow> size_t \<Rightarrow> ('s \<times> 'a list) option) \<Rightarrow>
   's \<Rightarrow> 'a fifo_op list \<Rightarrow> ('s \<times> 'a list \<times> 'a list) option" where
  "fifo_run push pop s [] = Some (s, [], [])"
| "fifo_run push pop s (Push xs # ops) =
     (case push s xs of None \<Rightarrow> None
      | Some (s1, n) \<Rightarrow>
          (case fifo_run push pop s1 ops of None \<Rightarrow> None
           | Some (s2, acc, del) \<Rightarrow> Some (s2, take n xs @ acc, del)))"
| "fifo_run push pop s (Pop n # ops) =
     (case pop s n of None \<Rightarrow> None
      | Some (s1, ys) \<Rightarrow>
          (case fifo_run push pop s1 ops of None \<Rightarrow> None
           | Some (s2, acc, del) \<Rightarrow> Some (s2, acc, ys @ del)))"

fun fifo_op_ok :: "('a list \<Rightarrow> bool) \<Rightarrow> (size_t \<Rightarrow> bool) \<Rightarrow> 'a fifo_op \<Rightarrow> bool" where
  "fifo_op_ok P Q (Push xs) = P xs"
| "fifo_op_ok P Q (Pop n) = Q n"

locale bounded_fifo =
  fixes inv :: "'s \<Rightarrow> bool"
    and cap :: "'s \<Rightarrow> nat"
    and contents :: "'s \<Rightarrow> 'a list"
    and push_pre :: "'s \<Rightarrow> 'a list \<Rightarrow> bool"
    and pop_pre :: "size_t \<Rightarrow> bool"
    and push :: "'s \<Rightarrow> 'a list \<Rightarrow> ('s \<times> nat) option"
    and pop :: "'s \<Rightarrow> size_t \<Rightarrow> ('s \<times> 'a list) option"
  assumes bounded: "inv s \<Longrightarrow> length (contents s) \<le> cap s"
    and push_law: "inv s \<Longrightarrow> push_pre s xs \<Longrightarrow>
      \<exists>s'. push s xs = Some (s', min (length xs) (cap s - length (contents s))) \<and> inv s' \<and> cap s' = cap s
        \<and> push_pre s' = push_pre s
        \<and> contents s' = contents s @ take (min (length xs) (cap s - length (contents s))) xs"
    and pop_law: "inv s \<Longrightarrow> pop_pre n \<Longrightarrow>
      \<exists>s'. pop s n = Some (s', take (unat n) (contents s)) \<and> inv s' \<and> cap s' = cap s
        \<and> push_pre s' = push_pre s \<and> contents s' = drop (unat n) (contents s)"
begin

text \<open>Nothing is lost, duplicated or reordered, whatever the clients do.\<close>

lemma run_fifo:
  assumes "inv s" and "list_all (fifo_op_ok (push_pre s) pop_pre) ops"
  shows "\<exists>s' acc del. fifo_run push pop s ops = Some (s', acc, del) \<and> inv s' \<and> cap s' = cap s
           \<and> contents s @ acc = del @ contents s'"
  using assms
proof (induction ops arbitrary: s)
  case Nil
  then show ?case by simp
next
  case (Cons op ops)
  show ?case
  proof (cases op)
    case (Push xs)
    let ?n = "min (length xs) (cap s - length (contents s))"
    obtain s1 where s1: "push s xs = Some (s1, ?n)" "inv s1" "cap s1 = cap s"
      "push_pre s1 = push_pre s" "contents s1 = contents s @ take ?n xs"
      using push_law [of s xs] Cons.prems Push by auto
    with Cons.IH [of s1] Cons.prems obtain s2 acc del where
      "fifo_run push pop s1 ops = Some (s2, acc, del)" "inv s2" "cap s2 = cap s1"
      "contents s1 @ acc = del @ contents s2"
      by auto
    with s1 Push show ?thesis by simp
  next
    case (Pop n)
    obtain s1 where s1: "pop s n = Some (s1, take (unat n) (contents s))" "inv s1" "cap s1 = cap s"
      "push_pre s1 = push_pre s" "contents s1 = drop (unat n) (contents s)"
      using pop_law [of s n] Cons.prems Pop by auto
    with Cons.IH [of s1] Cons.prems obtain s2 acc del where
      run: "fifo_run push pop s1 ops = Some (s2, acc, del)" "inv s2" "cap s2 = cap s1"
      and eq: "contents s1 @ acc = del @ contents s2"
      by auto
    have "contents s @ acc = take (unat n) (contents s) @ drop (unat n) (contents s) @ acc"
      by (simp flip: append_assoc)
    with run eq s1 Pop show ?thesis by simp
  qed
qed

lemma delivered_prefix:
  assumes "inv s" and "contents s = []" and "list_all (fifo_op_ok (push_pre s) pop_pre) ops"
    and "fifo_run push pop s ops = Some (s', acc, del)"
  shows "del = take (length del) acc \<and> length acc \<le> length del + cap s"
proof -
  from run_fifo [OF assms(1,3)] assms(2,4) have eq: "acc = del @ contents s'" and "inv s'" "cap s' = cap s"
    by auto
  then show ?thesis
    using bounded [of s'] by simp
qed

end

end
