(* ===== verification/RingBuffer.thy ===== *)
theory RingBuffer
  imports Fifo
begin

text \<open>
  The single-reader single-writer ring buffer of \<^verbatim>\<open>src/RingBuffer.c\<close>: its structure and
  operations on machine words and byte memory, the invariant that initialisation
  establishes and every operation keeps, and the queue of elements it implements.
\<close>

section \<open>Data and operations\<close>

record rawr_RingBuffer =
  bufferSize :: size_t
  writeIndex :: size_t
  readIndex :: size_t
  bigMask :: size_t
  smallMask :: size_t
  elementSizeBytes :: size_t
  buffer :: bytes

text \<open>The out-parameters of the region functions; a pointer is its byte offset in \<open>buffer\<close>.\<close>

record regions =
  dataPtr1 :: size_t
  sizePtr1 :: size_t
  dataPtr2 :: "size_t option"
  sizePtr2 :: size_t

definition rawr_RingBuffer_Flush :: "rawr_RingBuffer \<Rightarrow> rawr_RingBuffer" where
  "rawr_RingBuffer_Flush rbuf = rbuf\<lparr>writeIndex := 0, readIndex := 0\<rparr>"

definition rawr_RingBuffer_Initialize ::
  "rawr_RingBuffer \<Rightarrow> size_t \<Rightarrow> size_t \<Rightarrow> bytes \<Rightarrow> rawr_RingBuffer \<times> size_t" where
  "rawr_RingBuffer_Initialize rbuf elementSize elementCount dataPtr =
     (if (elementCount - 1) AND elementCount \<noteq> 0 then (rbuf, -1)
      else (let rbuf = rbuf\<lparr>bufferSize := elementCount\<rparr>;
                rbuf = rbuf\<lparr>buffer := dataPtr\<rparr>;
                rbuf = rawr_RingBuffer_Flush rbuf;
                rbuf = rbuf\<lparr>bigMask := elementCount * 2 - 1\<rparr>;
                rbuf = rbuf\<lparr>smallMask := elementCount - 1\<rparr>;
                rbuf = rbuf\<lparr>elementSizeBytes := elementSize\<rparr>
            in (rbuf, 0)))"

definition rawr_RingBuffer_GetReadAvailable :: "rawr_RingBuffer \<Rightarrow> size_t" where
  "rawr_RingBuffer_GetReadAvailable rbuf = (writeIndex rbuf - readIndex rbuf) AND bigMask rbuf"

definition rawr_RingBuffer_GetWriteAvailable :: "rawr_RingBuffer \<Rightarrow> size_t" where
  "rawr_RingBuffer_GetWriteAvailable rbuf =
     bufferSize rbuf - rawr_RingBuffer_GetReadAvailable rbuf"

text \<open>The part the two region functions have in common: one region, or two that wrap.\<close>

definition split_regions :: "rawr_RingBuffer \<Rightarrow> size_t \<Rightarrow> size_t \<Rightarrow> regions" where
  "split_regions rbuf index elementCount =
     (if index + elementCount > bufferSize rbuf
      then (let firstHalf = bufferSize rbuf - index
            in \<lparr>dataPtr1 = index * elementSizeBytes rbuf, sizePtr1 = firstHalf,
                dataPtr2 = Some 0, sizePtr2 = elementCount - firstHalf\<rparr>)
      else \<lparr>dataPtr1 = index * elementSizeBytes rbuf, sizePtr1 = elementCount,
            dataPtr2 = None, sizePtr2 = 0\<rparr>)"

definition rawr_RingBuffer_GetWriteRegions ::
  "rawr_RingBuffer \<Rightarrow> size_t \<Rightarrow> regions \<times> size_t" where
  "rawr_RingBuffer_GetWriteRegions rbuf elementCount =
     (let available = rawr_RingBuffer_GetWriteAvailable rbuf;
          elementCount = (if elementCount > available then available else elementCount);
          index = writeIndex rbuf AND smallMask rbuf
      in (split_regions rbuf index elementCount, elementCount))"

definition rawr_RingBuffer_AdvanceWriteIndex ::
  "rawr_RingBuffer \<Rightarrow> size_t \<Rightarrow> rawr_RingBuffer \<times> size_t" where
  "rawr_RingBuffer_AdvanceWriteIndex rbuf elementCount =
     (let w = (writeIndex rbuf + elementCount) AND bigMask rbuf
      in (rbuf\<lparr>writeIndex := w\<rparr>, w))"

definition rawr_RingBuffer_GetReadRegions ::
  "rawr_RingBuffer \<Rightarrow> size_t \<Rightarrow> regions \<times> size_t" where
  "rawr_RingBuffer_GetReadRegions rbuf elementCount =
     (let available = rawr_RingBuffer_GetReadAvailable rbuf;
          elementCount = (if elementCount > available then available else elementCount);
          index = readIndex rbuf AND smallMask rbuf
      in (split_regions rbuf index elementCount, elementCount))"

definition rawr_RingBuffer_AdvanceReadIndex ::
  "rawr_RingBuffer \<Rightarrow> size_t \<Rightarrow> rawr_RingBuffer \<times> size_t" where
  "rawr_RingBuffer_AdvanceReadIndex rbuf elementCount =
     (let r = (readIndex rbuf + elementCount) AND bigMask rbuf
      in (rbuf\<lparr>readIndex := r\<rparr>, r))"

text \<open>The copies of \<^verbatim>\<open>rawr_RingBuffer_Write\<close> and \<^verbatim>\<open>rawr_RingBuffer_Read\<close> between the client's
  object and the regions.\<close>

definition copy_in :: "bytes \<Rightarrow> regions \<Rightarrow> size_t \<Rightarrow> bytes \<Rightarrow> bytes option" where
  "copy_in buf rg esz data =
     (if sizePtr2 rg > 0 then do {
        c1 \<leftarrow> mem_read data 0 (unat (sizePtr1 rg * esz));
        buf \<leftarrow> mem_write buf (unat (dataPtr1 rg)) c1;
        c2 \<leftarrow> mem_read data (unat (sizePtr1 rg * esz)) (unat (sizePtr2 rg * esz));
        p2 \<leftarrow> dataPtr2 rg;
        mem_write buf (unat p2) c2
      } else do {
        c1 \<leftarrow> mem_read data 0 (unat (sizePtr1 rg * esz));
        mem_write buf (unat (dataPtr1 rg)) c1
      })"

definition copy_out :: "bytes \<Rightarrow> regions \<Rightarrow> size_t \<Rightarrow> bytes \<Rightarrow> bytes option" where
  "copy_out buf rg esz data =
     (if sizePtr2 rg > 0 then do {
        c1 \<leftarrow> mem_read buf (unat (dataPtr1 rg)) (unat (sizePtr1 rg * esz));
        data \<leftarrow> mem_write data 0 c1;
        p2 \<leftarrow> dataPtr2 rg;
        c2 \<leftarrow> mem_read buf (unat p2) (unat (sizePtr2 rg * esz));
        mem_write data (unat (sizePtr1 rg * esz)) c2
      } else do {
        c1 \<leftarrow> mem_read buf (unat (dataPtr1 rg)) (unat (sizePtr1 rg * esz));
        mem_write data 0 c1
      })"

definition rawr_RingBuffer_Write ::
  "rawr_RingBuffer \<Rightarrow> bytes \<Rightarrow> size_t \<Rightarrow> (rawr_RingBuffer \<times> size_t) option" where
  "rawr_RingBuffer_Write rbuf data elementCount =
     (case rawr_RingBuffer_GetWriteRegions rbuf elementCount of (rg, numWritten) \<Rightarrow> do {
        buf \<leftarrow> copy_in (buffer rbuf) rg (elementSizeBytes rbuf) data;
        Some (fst (rawr_RingBuffer_AdvanceWriteIndex (rbuf\<lparr>buffer := buf\<rparr>) numWritten),
              numWritten)
      })"

definition rawr_RingBuffer_Read ::
  "rawr_RingBuffer \<Rightarrow> bytes \<Rightarrow> size_t \<Rightarrow> (rawr_RingBuffer \<times> bytes \<times> size_t) option" where
  "rawr_RingBuffer_Read rbuf data elementCount =
     (case rawr_RingBuffer_GetReadRegions rbuf elementCount of (rg, numRead) \<Rightarrow> do {
        data \<leftarrow> copy_out (buffer rbuf) rg (elementSizeBytes rbuf) data;
        Some (fst (rawr_RingBuffer_AdvanceReadIndex rbuf numRead), data, numRead)
      })"

section \<open>Invariant and abstraction\<close>

text \<open>\<open>rb_shape k\<close>: the buffer holds \<open>2 ^ k\<close> elements. The indices carry one extra bit, which
  tells a full buffer from an empty one.\<close>

definition rb_shape :: "nat \<Rightarrow> rawr_RingBuffer \<Rightarrow> bool" where
  "rb_shape k rb \<longleftrightarrow> k < 63 \<and> bufferSize rb = 2 ^ k \<and> bigMask rb = 2 ^ Suc k - 1
     \<and> smallMask rb = 2 ^ k - 1
     \<and> unat (writeIndex rb) < 2 ^ Suc k \<and> unat (readIndex rb) < 2 ^ Suc k
     \<and> length (buffer rb) = 2 ^ k * unat (elementSizeBytes rb)
     \<and> 2 ^ k * unat (elementSizeBytes rb) < 2 ^ 64"

definition rb_used :: "rawr_RingBuffer \<Rightarrow> nat" where
  "rb_used rb = unat (rawr_RingBuffer_GetReadAvailable rb)"

definition rb_cap :: "rawr_RingBuffer \<Rightarrow> nat" where
  "rb_cap rb = unat (bufferSize rb)"

definition rb_inv :: "rawr_RingBuffer \<Rightarrow> bool" where
  "rb_inv rb \<longleftrightarrow> (\<exists>k<63. rb_shape k rb) \<and> rb_used rb \<le> rb_cap rb"

definition slot :: "nat \<Rightarrow> bytes \<Rightarrow> nat \<Rightarrow> bytes" where
  "slot e bs i = take e (drop (i * e) bs)"

text \<open>The elements waiting to be read, oldest first.\<close>

definition rb_contents :: "rawr_RingBuffer \<Rightarrow> bytes list" where
  "rb_contents rb =
     map (\<lambda>i. slot (unat (elementSizeBytes rb)) (buffer rb) ((unat (readIndex rb) + i) mod rb_cap rb))
       [0..<rb_used rb]"

text \<open>The first \<open>n\<close> elements of a client's object.\<close>

definition elems :: "nat \<Rightarrow> bytes \<Rightarrow> nat \<Rightarrow> bytes list" where
  "elems e bs n = map (slot e bs) [0..<n]"

section \<open>Index arithmetic\<close>

lemma mod_add_distinct:
  fixes r a b N :: nat
  assumes "a < b" and "b < a + N"
  shows "(r + a) mod N \<noteq> (r + b) mod N"
proof
  assume "(r + a) mod N = (r + b) mod N"
  then have "N dvd (r + b) - (r + a)"
    using assms(1) mod_eq_dvd_iff_nat [of "r + a" "r + b" N] by simp
  with assms show False
    by (auto dest: dvd_imp_le)
qed

text \<open>How far slot \<open>r + j\<close> lies ahead of slot \<open>r + u\<close> on a ring of \<open>N\<close> slots.\<close>

lemma ring_distance:
  fixes r j u N :: nat
  assumes "u \<le> N" and "j < N"
  shows "((r + j) mod N + N - (r + u) mod N) mod N = (if j < u then N + j - u else j - u)" (is "?d = ?x")
proof -
  have "(r + u) mod N \<le> N" using assms(2) by (simp add: less_imp_le)
  then have "int ?d = (int ((r + j) mod N) + int N - int ((r + u) mod N)) mod int N"
    by (simp add: of_nat_mod)
  also have "\<dots> = (int (r + j) mod int N - int (r + u) mod int N + int N) mod int N"
    by (simp add: of_nat_mod algebra_simps)
  also have "\<dots> = (int j - int u) mod int N"
    by (simp add: mod_diff_eq)
  also have "\<dots> = (if j < u then int N + (int j - int u) else int j - int u) mod int N"
    by simp
  also have "\<dots> = int ?x"
    using assms by (auto simp: of_nat_diff)
  finally show ?thesis by simp
qed

lemma unat_minus_and_mask:
  fixes w r :: size_t
  assumes "unat w < M" and "unat r < M" and M: "M = 2 ^ j" and "j \<le> 64"
  shows "unat ((w - r) AND (2 ^ j - 1)) = (unat w + M - unat r) mod M"
proof -
  have dvd: "int M dvd 2 ^ 64"
    using le_imp_power_dvd [OF assms(4), of "2 :: int"] M by simp
  have "int (unat (w - r)) mod int M = (uint w - uint r) mod 2 ^ 64 mod int M"
    by (simp add: uint_word_ariths)
  also have "\<dots> = (uint w - uint r) mod int M"
    using dvd by (rule mod_mod_cancel)
  also have "\<dots> = (uint w - uint r + int M) mod int M"
    by simp
  also have "uint w - uint r + int M = int (unat w + M - unat r)"
    using assms(2) by simp
  finally have "int (unat (w - r) mod M) = int ((unat w + M - unat r) mod M)"
    by (simp only: of_nat_mod)
  then have "unat (w - r) mod M = (unat w + M - unat r) mod M"
    by (simp only: of_nat_eq_iff)
  then show ?thesis
    by (simp only: unat_and_mask_minus_1 M)
qed

lemma rb_shapeD:
  assumes "rb_shape k rb"
  shows "k < 63" "bufferSize rb = 2 ^ k" "bigMask rb = 2 ^ Suc k - 1" "smallMask rb = 2 ^ k - 1"
    "unat (writeIndex rb) < 2 ^ Suc k" "unat (readIndex rb) < 2 ^ Suc k"
    "length (buffer rb) = 2 ^ k * unat (elementSizeBytes rb)"
    "2 ^ k * unat (elementSizeBytes rb) < 2 ^ 64"
  using assms by (simp_all add: rb_shape_def)

lemma rb_cap_shape: "rb_shape k rb \<Longrightarrow> rb_cap rb = 2 ^ k"
  by (simp add: rb_cap_def rb_shape_def unat_pow2)

lemma rb_used_shape:
  assumes "rb_shape k rb"
  shows "rb_used rb = (unat (writeIndex rb) + 2 ^ Suc k - unat (readIndex rb)) mod 2 ^ Suc k"
  unfolding rb_used_def rawr_RingBuffer_GetReadAvailable_def rb_shapeD(3) [OF assms]
  by (rule unat_minus_and_mask) (use rb_shapeD [OF assms] in auto)

text \<open>The write index is the read index moved on by the number of waiting elements.\<close>

lemma write_from_read:
  assumes "rb_shape k rb"
  shows "unat (writeIndex rb) = (unat (readIndex rb) + rb_used rb) mod 2 ^ Suc k"
proof -
  let ?M = "2 ^ Suc k :: nat" and ?w = "unat (writeIndex rb)" and ?r = "unat (readIndex rb)"
  have lt: "?w < ?M" "?r < ?M"
    using rb_shapeD [OF assms] by auto
  have "(?r + rb_used rb) mod ?M = (?r + (?w + ?M - ?r)) mod ?M"
    unfolding rb_used_shape [OF assms] by (simp only: mod_add_right_eq)
  also have "\<dots> = ?w"
    using lt by simp
  finally show ?thesis by simp
qed

lemma write_slot:
  assumes "rb_shape k rb"
  shows "unat (writeIndex rb) mod 2 ^ k = (unat (readIndex rb) + rb_used rb) mod 2 ^ k"
proof -
  have "(2::nat) ^ k dvd 2 ^ Suc k" by simp
  then show ?thesis
    unfolding write_from_read [OF assms] by (rule mod_mod_cancel)
qed

lemma used_cases:
  assumes "rb_shape k rb" and "rb_used rb \<le> rb_cap rb"
  shows "unat (rawr_RingBuffer_GetWriteAvailable rb) = rb_cap rb - rb_used rb"
  using assms unfolding rawr_RingBuffer_GetWriteAvailable_def rb_cap_def rb_used_def
  by (simp add: unat_sub_le word_le_nat_alt)

lemma unat_index:
  assumes "rb_shape k rb"
  shows "unat (x AND smallMask rb) = unat x mod 2 ^ k"
  by (simp only: rb_shapeD(4) [OF assms] unat_and_mask_minus_1)

section \<open>Slots\<close>

lemma length_slot: "(i + 1) * e \<le> length bs \<Longrightarrow> length (slot e bs i) = e"
  by (simp add: slot_def algebra_simps)

lemma slot_bound: "i < n \<Longrightarrow> (i + 1) * e \<le> n * (e::nat)"
  by (rule mult_le_mono1) simp

lemma slot_patch:
  assumes len: "length bs = m * e" and fits: "(a + m) * e \<le> length buf" and i: "(i + 1) * e \<le> length buf"
  shows "slot e (patch buf (a * e) bs) i = (if a \<le> i \<and> i < a + m then slot e bs (i - a) else slot e buf i)"
proof (cases "a \<le> i \<and> i < a + m")
  case True
  then have "i - a < m" by auto
  then have le: "(i - a + 1) * e \<le> m * e"
    by (rule slot_bound)
  have eq: "i * e = a * e + (i - a) * e"
    using True by (simp flip: add_mult_distrib)
  have "drop (i * e) (patch buf (a * e) bs) = drop ((i - a) * e) (bs @ drop (a * e + m * e) buf)"
    using fits unfolding eq patch_def len by (simp add: algebra_simps)
  then show ?thesis
    using True le len by (simp add: slot_def algebra_simps)
next
  case False
  then have "(i + 1) * e \<le> a * e \<or> (a + m) * e \<le> i * e"
    by (metis Suc_eq_plus1 Suc_leI linorder_not_le mult_le_mono1)
  then have "i * e + e \<le> a * e \<or> a * e + length bs \<le> i * e"
    by (simp add: len algebra_simps)
  then show ?thesis
    using False fits by (simp add: slot_def patch_read_disjoint len algebra_simps if_not_P)
qed

lemma slot_take: "i < n \<Longrightarrow> slot e (take (n * e) bs) i = slot e bs i"
  using slot_bound [of i n e] by (simp add: slot_def take_drop min_def algebra_simps)

lemma slot_drop: "slot e (drop (j * e) bs) i = slot e bs (j + i)"
  by (simp add: slot_def algebra_simps)

lemma concat_elems: "n * e \<le> length bs \<Longrightarrow> concat (elems e bs n) = take (n * e) bs"
proof (induction n)
  case (Suc n)
  then have "concat (elems e bs n) = take (n * e) bs"
    by simp
  moreover have "take (Suc n * e) bs = take (n * e) bs @ slot e bs n"
    by (simp add: slot_def take_add add.commute [of e])
  ultimately show ?case
    by (simp add: elems_def)
qed (simp add: elems_def)

lemma elems_patch_slots:
  assumes "\<And>i. i < n \<Longrightarrow> slot e bs i = f i"
  shows "elems e bs n = map f [0..<n]"
  using assms by (simp add: elems_def)

section \<open>Regions\<close>

text \<open>What \<open>split_regions\<close> computes, in natural numbers.\<close>

lemma split_regions_nat:
  assumes sh: "rb_shape k rb" and i: "unat index < 2 ^ k" and n: "unat n \<le> 2 ^ k"
  defines "rg \<equiv> split_regions rb index n"
  shows "unat (dataPtr1 rg) = unat index * unat (elementSizeBytes rb)"
    and "unat (sizePtr1 rg) = min (unat n) (2 ^ k - unat index)"
    and "unat (sizePtr2 rg) = unat n - (2 ^ k - unat index)"
    and "sizePtr2 rg > 0 \<Longrightarrow> dataPtr2 rg = Some 0"
proof -
  let ?N = "2 ^ k :: nat" and ?e = "unat (elementSizeBytes rb)"
  note shD = rb_shapeD [OF sh]
  have N: "unat (bufferSize rb) = ?N"
    using rb_cap_shape [OF sh] by (simp add: rb_cap_def)
  have "(2::nat) ^ k \<le> 2 ^ 62"
    using shD(1) by (intro power_increasing) auto
  then have sum: "unat (index + n) = unat index + unat n"
    using i n by (intro unat_add_lt) simp
  have "unat index * ?e \<le> ?N * ?e"
    using i by (intro mult_le_mono1) simp
  then have "unat index * ?e < 2 ^ 64"
    using shD(8) by (rule le_less_trans)
  then have mul: "unat (index * elementSizeBytes rb) = unat index * ?e"
    by (intro unat_mult_lt) simp
  have sub: "unat (bufferSize rb - index) = ?N - unat index"
    using i N by (simp add: unat_sub_le word_le_nat_alt)
  have gt: "bufferSize rb < index + n \<longleftrightarrow> ?N < unat index + unat n"
    by (simp add: word_less_nat_alt sum N)
  show "unat (dataPtr1 rg) = unat index * ?e"
    by (simp add: rg_def split_regions_def Let_def mul)
  show "unat (sizePtr1 rg) = min (unat n) (?N - unat index)"
    using i by (auto simp: rg_def split_regions_def Let_def gt sub)
  have "unat (n - (bufferSize rb - index)) = unat n - (?N - unat index)" if "?N < unat index + unat n"
    using that i by (simp add: unat_sub_le word_le_nat_alt sub)
  then show "unat (sizePtr2 rg) = unat n - (?N - unat index)"
    using i by (auto simp: rg_def split_regions_def Let_def gt)
  show "dataPtr2 rg = Some 0" if "sizePtr2 rg > 0"
    using that by (auto simp: rg_def split_regions_def Let_def split: if_splits)
qed

text \<open>Region sizes in bytes do not wrap.\<close>

lemma region_bytes:
  assumes sh: "rb_shape k rb" and x: "unat x \<le> 2 ^ k"
  shows "unat (x * elementSizeBytes rb) = unat x * unat (elementSizeBytes rb)"
proof -
  have "unat x * unat (elementSizeBytes rb) \<le> 2 ^ k * unat (elementSizeBytes rb)"
    using x by (rule mult_le_mono1)
  also have "\<dots> < 2 ^ 64"
    by (rule rb_shapeD(8) [OF sh])
  finally show ?thesis
    by (intro unat_mult_lt) simp
qed

text \<open>
  \<open>n\<close> elements of \<open>d\<close> laid into a ring of \<open>N\<close> slots from slot \<open>i\<close> on: at most two patches, of
  which the second is empty when the elements do not wrap.
\<close>

definition ring_patch :: "nat \<Rightarrow> nat \<Rightarrow> bytes \<Rightarrow> nat \<Rightarrow> bytes \<Rightarrow> nat \<Rightarrow> bytes" where
  "ring_patch N e b i d n =
     patch (patch b (i * e) (take (min n (N - i) * e) d)) 0
       (take ((n - (N - i)) * e) (drop (min n (N - i) * e) d))"

lemma min_bytes:
  assumes "n * e \<le> (len::nat)"
  shows "min n m * e \<le> len" and "min n m * e + (n - m) * e \<le> len"
proof -
  have "min n m * e + (n - m) * e = n * e"
    by (simp flip: add_mult_distrib) (simp add: min_def)
  with assms show "min n m * e \<le> len" and "min n m * e + (n - m) * e \<le> len"
    by linarith+
qed

lemma ring_bytes:
  assumes "i < N" and "n \<le> N"
  shows "(i + min n (N - i)) * e \<le> N * (e::nat)" and "(0 + (n - (N - i))) * e \<le> N * e"
  using assms by (auto intro!: mult_le_mono1 simp del: mult_le_cancel2)

lemma ring_patch_slot:
  assumes b: "length b = N * e" and i: "i < N" and n: "n \<le> N" and d: "n * e \<le> length d" and s: "s < N"
  shows "slot e (ring_patch N e b i d n) s =
           (if (s + N - i) mod N < n then slot e d ((s + N - i) mod N) else slot e b s)"
proof -
  let ?s1 = "min n (N - i)" and ?s2 = "n - (N - i)"
  let ?c1 = "take (?s1 * e) d" and ?c2 = "take (?s2 * e) (drop (?s1 * e) d)"
  let ?b1 = "patch b (i * e) ?c1"
  have len: "length ?c1 = ?s1 * e" "length ?c2 = ?s2 * e"
    using min_bytes [OF d, of "N - i"] by simp_all
  have f1: "(i + ?s1) * e \<le> length b"
    using ring_bytes(1) [OF i n, of e] b by simp
  then have b1: "length ?b1 = N * e"
    using len(1) b by (simp add: algebra_simps)
  have se: "(s + 1) * e \<le> N * e"
    using s by (rule slot_bound)
  have "slot e (ring_patch N e b i d n) s = (if s < ?s2 then slot e ?c2 s else slot e ?b1 s)"
    using slot_patch [OF len(2), of 0 ?b1 s] ring_bytes(2) [OF i n, of e] b1 se
    by (simp add: ring_patch_def)
  also have "slot e ?b1 s = (if i \<le> s \<and> s < i + ?s1 then slot e ?c1 (s - i) else slot e b s)"
    using slot_patch [OF len(1) f1, of s] b se by simp
  finally show ?thesis
    using i n s by (auto simp: slot_take slot_drop mod_if min_def add.commute)
qed

lemma length_ring_patch:
  assumes b: "length b = N * e" and "i < N" and "n \<le> N" and d: "n * e \<le> length d"
  shows "length (ring_patch N e b i d n) = N * e"
proof -
  let ?c1 = "take (min n (N - i) * e) d"
  let ?c2 = "take ((n - (N - i)) * e) (drop (min n (N - i) * e) d)"
  have len: "length ?c1 = min n (N - i) * e" "length ?c2 = (n - (N - i)) * e"
    using min_bytes(1) [OF d] length_take_drop [OF min_bytes(2) [OF d]] by simp_all
  have "length (patch b (i * e) ?c1) = length b"
    using ring_bytes(1) [OF assms(2,3), of e] b len(1) by (simp add: add_mult_distrib)
  moreover from this have "length (patch (patch b (i * e) ?c1) 0 ?c2) = length (patch b (i * e) ?c1)"
    using ring_bytes(2) [OF assms(2,3), of e] b len(2) by simp
  ultimately show ?thesis
    unfolding ring_patch_def using b by simp
qed

lemma copy_in_patches:
  assumes "unat (sizePtr1 rg * esz) = n1" and "unat (sizePtr2 rg * esz) = n2"
    and "sizePtr2 rg > 0 \<Longrightarrow> dataPtr2 rg = Some 0" and "n1 + n2 \<le> length data"
    and "unat (dataPtr1 rg) + n1 \<le> length buf" and "n2 \<le> length buf"
  shows "copy_in buf rg esz data =
           Some (patch (patch buf (unat (dataPtr1 rg)) (take n1 data)) 0 (take n2 (drop n1 data)))"
proof (cases "sizePtr2 rg > 0")
  case True
  then show ?thesis
    using assms by (simp add: copy_in_def mem_simps)
next
  case False
  then have "sizePtr2 rg = 0"
    by (simp add: word_greater_zero_iff)
  then have "n2 = 0"
    using assms(2) by simp
  then show ?thesis
    using assms False by (simp add: copy_in_def mem_simps)
qed

lemma copy_in_ring_patch:
  assumes sh: "rb_shape k rb" and i: "unat index < 2 ^ k" and n: "unat n \<le> 2 ^ k"
    and e: "e = unat (elementSizeBytes rb)" and d: "unat n * e \<le> length data"
  shows "copy_in (buffer rb) (split_regions rb index n) (elementSizeBytes rb) data =
           Some (ring_patch (2 ^ k) e (buffer rb) (unat index) data (unat n))"
proof -
  let ?N = "2 ^ k :: nat" and ?i = "unat index" and ?n = "unat n" and ?rg = "split_regions rb index n"
  note rg = split_regions_nat [OF sh i n]
  have b: "length (buffer rb) = ?N * e"
    using rb_shapeD(7) [OF sh] e by simp
  have sz: "unat (sizePtr1 ?rg * elementSizeBytes rb) = min ?n (?N - ?i) * e"
    "unat (sizePtr2 ?rg * elementSizeBytes rb) = (?n - (?N - ?i)) * e"
    using region_bytes [OF sh] rg(2,3) n e by simp_all
  show ?thesis
    unfolding ring_patch_def rg(1) [folded e, symmetric]
    by (rule copy_in_patches [OF sz rg(4)])
       (use min_bytes [OF d, of "?N - ?i"] ring_bytes [OF i n, of e] b rg(1) e in
         \<open>simp_all add: add_mult_distrib\<close>)
qed

lemma ring_read_concat:
  assumes b: "length b = N * e" and i: "i < N" and n: "n \<le> N"
  shows "take (min n (N - i) * e) (drop (i * e) b) @ take ((n - (N - i)) * e) b =
           concat (map (\<lambda>j. slot e b ((i + j) mod N)) [0..<n])"
proof -
  let ?s1 = "min n (N - i)" and ?s2 = "n - (N - i)"
  have fits: "?s1 * e \<le> length (drop (i * e) b)" "?s2 * e \<le> length b"
    using ring_bytes [OF i n, of e] b by (simp_all add: add_mult_distrib)
  have "[0..<n] = [0..<?s1] @ map ((+) ?s1) [0..<?s2]"
    using upt_split [of ?s1 n] by (simp add: min_def)
  then have "concat (map (\<lambda>j. slot e b ((i + j) mod N)) [0..<n]) =
      concat (map (\<lambda>j. slot e b ((i + j) mod N)) [0..<?s1]) @
      concat (map (\<lambda>j. slot e b ((i + (?s1 + j)) mod N)) [0..<?s2])"
    by (simp add: comp_def)
  also have "map (\<lambda>j. slot e b ((i + j) mod N)) [0..<?s1] = elems e (drop (i * e) b) ?s1"
    using i by (auto simp: elems_def slot_drop)
  also have "map (\<lambda>j. slot e b ((i + (?s1 + j)) mod N)) [0..<?s2] = elems e b ?s2"
    using i n by (auto simp: elems_def min_def mod_if)
  finally show ?thesis
    using fits by (simp add: concat_elems)
qed

lemma copy_out_appends:
  assumes "unat (sizePtr1 rg * esz) = n1" and "unat (sizePtr2 rg * esz) = n2"
    and "sizePtr2 rg > 0 \<Longrightarrow> dataPtr2 rg = Some 0"
    and "unat (dataPtr1 rg) + n1 \<le> length buf" and "n2 \<le> length buf"
  shows "copy_out buf rg esz data =
           (if n1 + n2 \<le> length data
            then Some ((take n1 (drop (unat (dataPtr1 rg)) buf) @ take n2 buf) @ drop (n1 + n2) data)
            else None)"
proof (cases "sizePtr2 rg > 0")
  case True
  then show ?thesis
    using assms by (simp add: copy_out_def mem_read_def mem_write_def patch_def add.commute)
next
  case False
  then have "sizePtr2 rg = 0"
    by (simp add: word_greater_zero_iff)
  then have "n2 = 0"
    using assms(2) by simp
  then show ?thesis
    using assms False by (simp add: copy_out_def mem_read_def mem_write_def patch_def)
qed

lemma copy_out_ring:
  assumes sh: "rb_shape k rb" and i: "unat index < 2 ^ k" and n: "unat n \<le> 2 ^ k"
    and e: "e = unat (elementSizeBytes rb)"
  shows "copy_out (buffer rb) (split_regions rb index n) (elementSizeBytes rb) data =
           (if unat n * e \<le> length data
            then Some (concat (map (\<lambda>j. slot e (buffer rb) ((unat index + j) mod 2 ^ k)) [0..<unat n])
                       @ drop (unat n * e) data)
            else None)"
proof -
  let ?N = "2 ^ k :: nat" and ?i = "unat index" and ?n = "unat n" and ?rg = "split_regions rb index n"
  note rg = split_regions_nat [OF sh i n]
  have b: "length (buffer rb) = ?N * e"
    using rb_shapeD(7) [OF sh] e by simp
  have sz: "unat (sizePtr1 ?rg * elementSizeBytes rb) = min ?n (?N - ?i) * e"
    "unat (sizePtr2 ?rg * elementSizeBytes rb) = (?n - (?N - ?i)) * e"
    using region_bytes [OF sh] rg(2,3) n e by simp_all
  have sum: "min ?n (?N - ?i) * e + (?n - (?N - ?i)) * e = ?n * e"
    by (simp flip: add_mult_distrib) (simp add: min_def)
  have "unat (dataPtr1 ?rg) + min ?n (?N - ?i) * e \<le> length (buffer rb)"
    "(?n - (?N - ?i)) * e \<le> length (buffer rb)"
    using ring_bytes [OF i n, of e] b rg(1) e by (simp_all add: add_mult_distrib)
  from copy_out_appends [OF sz rg(4) this] show ?thesis
    using ring_read_concat [OF b i n] by (simp add: sum rg(1) flip: e)
qed

section \<open>Advancing the indices\<close>

lemma unat_advance:
  assumes sh: "rb_shape k rb" and x: "unat x < 2 ^ Suc k" and n: "unat n \<le> 2 ^ k"
  shows "unat ((x + n) AND bigMask rb) = (unat x + unat n) mod 2 ^ Suc k"
proof -
  have "(2::nat) ^ k \<le> 2 ^ 62"
    using rb_shapeD(1) [OF sh] by (intro power_increasing) auto
  then have "unat (x + n) = unat x + unat n"
    using x n by (intro unat_add_lt) simp
  then show ?thesis
    by (simp only: rb_shapeD(3) [OF sh] unat_and_mask_minus_1)
qed

lemma used_unique:
  assumes sh: "rb_shape k rb" and u: "u < 2 ^ Suc k"
    and w: "unat (writeIndex rb) = (unat (readIndex rb) + u) mod 2 ^ Suc k"
  shows "rb_used rb = u"
proof -
  let ?M = "2 ^ Suc k :: nat" and ?r = "unat (readIndex rb)"
  have "?r < ?M" by (rule rb_shapeD(6) [OF sh])
  then have "((?r + u) mod ?M + ?M - ?r) mod ?M = u"
    using u by (cases "?r + u < ?M") (simp_all add: mod_if)
  then show ?thesis
    by (simp only: rb_used_shape [OF sh] w)
qed

lemma rb_invE:
  assumes "rb_inv rb"
  obtains k where "rb_shape k rb" and "rb_used rb \<le> 2 ^ k" and "rb_cap rb = 2 ^ k"
  using assms by (auto simp: rb_inv_def rb_cap_shape)

lemma rb_invI: "rb_shape k rb \<Longrightarrow> rb_used rb \<le> 2 ^ k \<Longrightarrow> rb_inv rb"
  by (auto simp: rb_inv_def rb_cap_shape dest: rb_shapeD(1))

lemma shape_advance_write:
  assumes sh: "rb_shape k rb" and n: "rb_used rb + unat n \<le> 2 ^ k"
    and b: "length buf = length (buffer rb)"
  defines "rb' \<equiv> fst (rawr_RingBuffer_AdvanceWriteIndex (rb\<lparr>buffer := buf\<rparr>) n)"
  shows "rb_shape k rb'" and "rb_used rb' = rb_used rb + unat n"
    and "readIndex rb' = readIndex rb" and "buffer rb' = buf"
    and "elementSizeBytes rb' = elementSizeBytes rb"
proof -
  note shD = rb_shapeD [OF sh]
  have w: "unat (writeIndex rb') = (unat (readIndex rb) + (rb_used rb + unat n)) mod 2 ^ Suc k"
    using unat_advance [OF sh shD(5), of n] n write_from_read [OF sh]
    by (simp add: rb'_def rawr_RingBuffer_AdvanceWriteIndex_def Let_def mod_add_left_eq add.assoc)
  then show sh': "rb_shape k rb'"
    using sh b by (simp add: rb_shape_def rb'_def rawr_RingBuffer_AdvanceWriteIndex_def Let_def)
  from n have "rb_used rb + unat n < 2 ^ Suc k"
    by (rule le_less_trans) simp
  then show "rb_used rb' = rb_used rb + unat n"
    using w by (intro used_unique [OF sh'])
      (simp_all add: rb'_def rawr_RingBuffer_AdvanceWriteIndex_def Let_def)
qed (simp_all add: rb'_def rawr_RingBuffer_AdvanceWriteIndex_def Let_def)

lemma shape_advance_read:
  assumes sh: "rb_shape k rb" and n: "unat n \<le> rb_used rb" and u: "rb_used rb \<le> 2 ^ k"
  defines "rb' \<equiv> fst (rawr_RingBuffer_AdvanceReadIndex rb n)"
  shows "rb_shape k rb'" and "rb_used rb' = rb_used rb - unat n"
    and "unat (readIndex rb') mod 2 ^ k = (unat (readIndex rb) + unat n) mod 2 ^ k"
    and "buffer rb' = buffer rb" and "elementSizeBytes rb' = elementSizeBytes rb"
proof -
  note shD = rb_shapeD [OF sh]
  let ?M = "2 ^ Suc k :: nat"
  have r: "unat (readIndex rb') = (unat (readIndex rb) + unat n) mod ?M"
    using unat_advance [OF sh shD(6), of n] n u
    by (simp add: rb'_def rawr_RingBuffer_AdvanceReadIndex_def Let_def)
  then show sh': "rb_shape k rb'"
    using sh by (simp add: rb_shape_def rb'_def rawr_RingBuffer_AdvanceReadIndex_def Let_def)
  have "unat (writeIndex rb') = unat (writeIndex rb)"
    by (simp add: rb'_def rawr_RingBuffer_AdvanceReadIndex_def Let_def)
  also have "\<dots> = (unat (readIndex rb) + unat n + (rb_used rb - unat n)) mod ?M"
    using write_from_read [OF sh] n by simp
  also have "\<dots> = (unat (readIndex rb') + (rb_used rb - unat n)) mod ?M"
    unfolding r by (simp only: mod_add_left_eq)
  finally have "unat (writeIndex rb') = (unat (readIndex rb') + (rb_used rb - unat n)) mod ?M" .
  moreover have "rb_used rb - unat n < ?M"
    using u by (rule le_less_trans [OF order_trans [OF diff_le_self]]) simp
  ultimately show "rb_used rb' = rb_used rb - unat n"
    by (intro used_unique [OF sh'])
  have "(2::nat) ^ k dvd ?M" by simp
  then show "unat (readIndex rb') mod 2 ^ k = (unat (readIndex rb) + unat n) mod 2 ^ k"
    unfolding r by (rule mod_mod_cancel)
qed (simp_all add: rb'_def rawr_RingBuffer_AdvanceReadIndex_def Let_def)

section \<open>Correctness of the operations\<close>

lemma unat_min: "unat (if a > b then b else a) = min (unat a) (unat (b::size_t))"
  by (simp add: word_less_nat_alt min_def)

lemma rb_used_buffer [simp]: "rb_used (rb\<lparr>buffer := buf\<rparr>) = rb_used rb"
  by (simp add: rb_used_def rawr_RingBuffer_GetReadAvailable_def)

lemma rb_cap_buffer [simp]: "rb_cap (rb\<lparr>buffer := buf\<rparr>) = rb_cap rb"
  by (simp add: rb_cap_def)

lemma rb_contents_shape:
  assumes "rb_shape k rb"
  shows "rb_contents rb = map (\<lambda>i. slot (unat (elementSizeBytes rb)) (buffer rb)
           ((unat (readIndex rb) + i) mod 2 ^ k)) [0..<rb_used rb]"
  by (simp add: rb_contents_def rb_cap_shape [OF assms])

lemma length_rb_contents [simp]: "length (rb_contents rb) = rb_used rb"
  by (simp add: rb_contents_def)

lemma contents_advance_write:
  assumes sh: "rb_shape k rb" and fits: "rb_used rb + unat n \<le> 2 ^ k" and e: "e = unat (elementSizeBytes rb)"
    and slots: "\<And>j. j < unat n \<Longrightarrow>
      slot e (buffer rb) ((unat (readIndex rb) + (rb_used rb + j)) mod 2 ^ k) = slot e data j"
  shows "rb_contents (fst (rawr_RingBuffer_AdvanceWriteIndex rb n)) = rb_contents rb @ elems e data (unat n)"
proof -
  let ?rb = "fst (rawr_RingBuffer_AdvanceWriteIndex rb n)" and ?u = "rb_used rb"
  have adv: "rb_shape k ?rb" "rb_used ?rb = ?u + unat n" "readIndex ?rb = readIndex rb"
    "buffer ?rb = buffer rb" "elementSizeBytes ?rb = elementSizeBytes rb"
    using shape_advance_write [OF sh fits, of "buffer rb"] by simp_all
  have "[0..<?u + unat n] = [0..<?u] @ map ((+) ?u) [0..<unat n]"
    using upt_split [of ?u "?u + unat n"] by simp
  then show ?thesis
    unfolding rb_contents_shape [OF adv(1)] rb_contents_shape [OF sh] elems_def adv(2-5) e [symmetric]
    by (simp add: slots)
qed

lemma contents_advance_read:
  assumes sh: "rb_shape k rb" and n: "unat n \<le> rb_used rb" and u: "rb_used rb \<le> 2 ^ k"
  shows "rb_contents (fst (rawr_RingBuffer_AdvanceReadIndex rb n)) = drop (unat n) (rb_contents rb)"
proof -
  let ?rb = "fst (rawr_RingBuffer_AdvanceReadIndex rb n)" and ?N = "2 ^ k :: nat"
  note adv = shape_advance_read [OF sh n u]
  have "(unat (readIndex ?rb) + j) mod ?N = (unat (readIndex rb) + (unat n + j)) mod ?N" for j
    using adv(3) by (metis add.assoc mod_add_left_eq)
  moreover have "[0..<rb_used rb] = [0..<unat n] @ map ((+) (unat n)) [0..<rb_used rb - unat n]"
    using n by (rule upt_split)
  ultimately show ?thesis
    unfolding rb_contents_shape [OF adv(1)] rb_contents_shape [OF sh] adv(2,4,5) by simp
qed

text \<open>The slots from the read index on, after \<open>m\<close> elements were laid in behind the waiting ones.\<close>

lemma written_slot:
  assumes b: "length b = N * e" and d: "m * e \<le> length data" and fits: "u + m \<le> N" and j: "j < u + m"
  shows "slot e (ring_patch N e b ((r + u) mod N) data m) ((r + j) mod N) =
           (if j < u then slot e b ((r + j) mod N) else slot e data (j - u))"
proof -
  have "((r + j) mod N + N - (r + u) mod N) mod N = (if j < u then N + j - u else j - u)"
    using fits j by (intro ring_distance) auto
  moreover have "(r + u) mod N < N" "(r + j) mod N < N" "m \<le> N"
    using fits j by auto
  ultimately show ?thesis
    using ring_patch_slot [OF b _ _ d, of "(r + u) mod N" "(r + j) mod N"] fits j by auto
qed

lemma rb_Write_correct:
  assumes inv: "rb_inv rb" and m: "m = min (unat n) (rb_cap rb - rb_used rb)"
    and e: "e = unat (elementSizeBytes rb)" and d: "m * e \<le> length data"
  obtains rb' where "rawr_RingBuffer_Write rb data n = Some (rb', of_nat m)"
    and "rb_inv rb'" and "rb_cap rb' = rb_cap rb" and "elementSizeBytes rb' = elementSizeBytes rb"
    and "rb_contents rb' = rb_contents rb @ elems e data m"
proof -
  obtain k where sh: "rb_shape k rb" and u: "rb_used rb \<le> 2 ^ k" and cap: "rb_cap rb = 2 ^ k"
    using inv by (rule rb_invE)
  let ?N = "2 ^ k :: nat" and ?u = "rb_used rb" and ?i = "writeIndex rb AND smallMask rb"
  let ?avail = "rawr_RingBuffer_GetWriteAvailable rb"
  define c where "c = (if n > ?avail then ?avail else n)"
  have cm: "unat c = m"
    using used_cases [OF sh] u cap by (simp add: c_def unat_min m)
  then have c: "c = of_nat m"
    unfolding cm [symmetric] by simp
  have i: "unat ?i = (unat (readIndex rb) + ?u) mod ?N" and iN: "unat ?i < ?N"
    using unat_index [OF sh] write_slot [OF sh] by simp_all
  have fits: "?u + m \<le> ?N" "m \<le> ?N" using u m cap by auto
  have b: "length (buffer rb) = ?N * e" using rb_shapeD(7) [OF sh] e by simp
  define buf where "buf = ring_patch ?N e (buffer rb) (unat ?i) data m"
  have copy: "copy_in (buffer rb) (split_regions rb ?i c) (elementSizeBytes rb) data = Some buf"
    unfolding buf_def using copy_in_ring_patch [OF sh iN, of c] fits cm e d by simp
  have bl: "length buf = length (buffer rb)"
    unfolding buf_def b using length_ring_patch [OF b iN fits(2) d] .
  define rb' where "rb' = fst (rawr_RingBuffer_AdvanceWriteIndex (rb\<lparr>buffer := buf\<rparr>) c)"
  note adv = shape_advance_write [OF sh _ bl, of c, folded rb'_def, unfolded cm, OF fits(1)]
  show ?thesis
  proof (rule that)
    show "rawr_RingBuffer_Write rb data n = Some (rb', of_nat m)"
      using copy by (simp add: rawr_RingBuffer_Write_def rawr_RingBuffer_GetWriteRegions_def Let_def
          rb'_def c flip: c_def)
    show "rb_inv rb'" using adv(1,2) fits by (intro rb_invI) simp_all
    show "rb_cap rb' = rb_cap rb" using cap rb_cap_shape [OF adv(1)] by simp
    show "elementSizeBytes rb' = elementSizeBytes rb" by (rule adv(5))
    let ?b = "rb\<lparr>buffer := buf\<rparr>"
    have "rb_contents rb' = rb_contents ?b @ elems e data (unat c)"
      unfolding rb'_def
    proof (rule contents_advance_write [where k = k])
      show "rb_shape k ?b" using sh bl by (simp add: rb_shape_def)
    next
      fix j assume "j < unat c"
      then show "slot e (buffer ?b) ((unat (readIndex ?b) + (rb_used ?b + j)) mod 2 ^ k) = slot e data j"
        using written_slot [OF b d fits(1), of "?u + j" "unat (readIndex rb)"] i cm by (simp add: buf_def)
    qed (simp_all add: fits cm e)
    moreover have "rb_contents ?b = rb_contents rb"
      by (simp add: rb_contents_def buf_def i cap written_slot [OF b d fits(1)] flip: e)
    ultimately show "rb_contents rb' = rb_contents rb @ elems e data m"
      by (simp add: cm)
  qed
qed

text \<open>A read delivers the oldest elements, or faults when the client's object cannot hold them.\<close>

lemma rb_Read_cases:
  assumes inv: "rb_inv rb" and m: "m = min (unat n) (rb_used rb)" and e: "e = unat (elementSizeBytes rb)"
  obtains rb' where
    "rawr_RingBuffer_Read rb data n =
       (if m * e \<le> length data
        then Some (rb', concat (take m (rb_contents rb)) @ drop (m * e) data, of_nat m) else None)"
    and "rb_inv rb'" and "rb_cap rb' = rb_cap rb" and "elementSizeBytes rb' = elementSizeBytes rb"
    and "rb_contents rb' = drop m (rb_contents rb)"
proof -
  obtain k where sh: "rb_shape k rb" and u: "rb_used rb \<le> 2 ^ k" and cap: "rb_cap rb = 2 ^ k"
    using inv by (rule rb_invE)
  let ?N = "2 ^ k :: nat" and ?u = "rb_used rb" and ?i = "readIndex rb AND smallMask rb"
  let ?avail = "rawr_RingBuffer_GetReadAvailable rb"
  define c where "c = (if n > ?avail then ?avail else n)"
  have cm: "unat c = m"
    by (simp add: c_def unat_min m rb_used_def)
  then have c: "c = of_nat m"
    unfolding cm [symmetric] by simp
  have i: "unat ?i = unat (readIndex rb) mod ?N" and iN: "unat ?i < ?N"
    using unat_index [OF sh] by simp_all
  define rb' where "rb' = fst (rawr_RingBuffer_AdvanceReadIndex rb c)"
  have mu: "unat c \<le> ?u" using cm m by simp
  note adv = shape_advance_read [OF sh mu u, folded rb'_def, unfolded cm]
  have out: "concat (map (\<lambda>j. slot e (buffer rb) ((unat ?i + j) mod ?N)) [0..<m]) =
      concat (take m (rb_contents rb))"
    using m e by (simp add: rb_contents_shape [OF sh] take_map i mod_add_left_eq min_def)
  show ?thesis
  proof (rule that)
    show "rawr_RingBuffer_Read rb data n =
       (if m * e \<le> length data
        then Some (rb', concat (take m (rb_contents rb)) @ drop (m * e) data, of_nat m) else None)"
      using copy_out_ring [OF sh iN _ e, of c data] cm mu u out
      by (simp add: rawr_RingBuffer_Read_def rawr_RingBuffer_GetReadRegions_def Let_def rb'_def c
          flip: c_def)
    show "rb_inv rb'"
      by (rule rb_invI [OF adv(1)]) (unfold adv(2), rule order_trans [OF diff_le_self u])
    show "rb_cap rb' = rb_cap rb" using cap rb_cap_shape [OF adv(1)] by simp
    show "elementSizeBytes rb' = elementSizeBytes rb" by (rule adv(5))
    show "rb_contents rb' = drop m (rb_contents rb)"
      using contents_advance_read [OF sh mu u] by (simp add: rb'_def cm)
  qed
qed

section \<open>Initialisation\<close>

lemma rb_Initialize_ok:
  assumes "k < 63" and "length mem = 2 ^ k * unat esz" and "2 ^ k * unat esz < 2 ^ 64"
  shows "rb_inv (fst (rawr_RingBuffer_Initialize rb esz (2 ^ k) mem))"
    and "rb_contents (fst (rawr_RingBuffer_Initialize rb esz (2 ^ k) mem)) = []"
    and "rb_cap (fst (rawr_RingBuffer_Initialize rb esz (2 ^ k) mem)) = 2 ^ k"
    and "snd (rawr_RingBuffer_Initialize rb esz (2 ^ k) mem) = 0"
    and "elementSizeBytes (fst (rawr_RingBuffer_Initialize rb esz (2 ^ k) mem)) = esz"
proof -
  let ?rb = "fst (rawr_RingBuffer_Initialize rb esz (2 ^ k) mem)"
  note def = rawr_RingBuffer_Initialize_def and_pred_pow2 rawr_RingBuffer_Flush_def Let_def
  have sh: "rb_shape k ?rb"
    using assms by (simp add: def rb_shape_def mult.commute)
  have used: "rb_used ?rb = 0"
    by (rule used_unique [OF sh]) (simp_all add: def)
  show "rb_inv ?rb" using sh used by (intro rb_invI) simp_all
  show "rb_contents ?rb = []" using used by (simp add: rb_contents_def)
  show "rb_cap ?rb = 2 ^ k" by (rule rb_cap_shape [OF sh])
  show "snd (rawr_RingBuffer_Initialize rb esz (2 ^ k) mem) = 0" "elementSizeBytes ?rb = esz"
    by (simp_all add: def)
qed

section \<open>The buffer as a queue of elements\<close>

text \<open>The calls of a client that moves whole elements: it writes a list of them, or reads up to
  \<open>n\<close> of them into an object with room for \<open>n\<close>.\<close>

definition rb_push :: "rawr_RingBuffer \<Rightarrow> bytes list \<Rightarrow> (rawr_RingBuffer \<times> nat) option" where
  "rb_push rb xs =
     map_option (\<lambda>(rb', n). (rb', unat n)) (rawr_RingBuffer_Write rb (concat xs) (of_nat (length xs)))"

definition rb_pop :: "rawr_RingBuffer \<Rightarrow> size_t \<Rightarrow> (rawr_RingBuffer \<times> bytes list) option" where
  "rb_pop rb n =
     map_option (\<lambda>(rb', out, m). (rb', elems (unat (elementSizeBytes rb)) out (unat m)))
       (rawr_RingBuffer_Read rb (replicate (unat n * unat (elementSizeBytes rb)) 0) n)"

definition rb_push_pre :: "rawr_RingBuffer \<Rightarrow> bytes list \<Rightarrow> bool" where
  "rb_push_pre rb xs \<longleftrightarrow>
     list_all (\<lambda>x. length x = unat (elementSizeBytes rb)) xs \<and> length xs < 2 ^ 64"

lemma elems_concat:
  assumes "list_all (\<lambda>x. length x = e) xs"
  shows "elems e (concat xs @ ys) (length xs) = xs"
  using assms
proof (induction xs)
  case (Cons x xs)
  have "[0..<length (x # xs)] = [0..<1] @ map ((+) 1) [0..<length xs]"
    using upt_split [of 1 "length (x # xs)"] by simp
  moreover have "slot e ((x @ concat xs) @ ys) (1 + i) = slot e (concat xs @ ys) i" for i
    using Cons.prems slot_drop [of e 1 "(x @ concat xs) @ ys" i] by simp
  ultimately show ?case
    using Cons by (simp add: elems_def comp_def) (simp add: slot_def)
qed (simp add: elems_def)

lemma length_concat_const: "list_all (\<lambda>x. length x = e) xs \<Longrightarrow> length (concat xs) = length xs * e"
  by (induction xs) auto

lemma take_elems: "take m (elems e bs n) = elems e bs (min m n)"
  by (cases "m \<le> n") (simp_all add: elems_def take_map)

lemma rb_contents_len:
  assumes "rb_inv rb"
  shows "list_all (\<lambda>x. length x = unat (elementSizeBytes rb)) (rb_contents rb)"
proof -
  obtain k where sh: "rb_shape k rb" using assms by (rule rb_invE)
  have "length (slot (unat (elementSizeBytes rb)) (buffer rb) (j mod 2 ^ k)) = unat (elementSizeBytes rb)" for j
    using rb_shapeD(7) [OF sh] slot_bound [of "j mod 2 ^ k" "2 ^ k"] by (intro length_slot) simp
  then show ?thesis
    by (simp add: rb_contents_shape [OF sh] list_all_length)
qed

interpretation ring: bounded_fifo rb_inv rb_cap rb_contents rb_push_pre "\<lambda>_. True" rb_push rb_pop
proof unfold_locales
  fix rb assume "rb_inv rb"
  then show "length (rb_contents rb) \<le> rb_cap rb" by (simp add: rb_inv_def)
next
  fix rb xs assume inv: "rb_inv rb" and pre: "rb_push_pre rb xs"
  let ?e = "unat (elementSizeBytes rb)" and ?m = "min (length xs) (rb_cap rb - rb_used rb)"
  have len: "list_all (\<lambda>x. length x = ?e) xs" and n: "unat (of_nat (length xs) :: size_t) = length xs"
    using pre by (simp_all add: rb_push_pre_def unat_of_nat)
  have "?m * ?e \<le> length (concat xs)"
    using length_concat_const [OF len] by (simp add: mult_le_mono1)
  from rb_Write_correct [OF inv _ refl this, of "of_nat (length xs)"] n
  obtain rb' where w: "rawr_RingBuffer_Write rb (concat xs) (of_nat (length xs)) = Some (rb', of_nat ?m)"
    "rb_inv rb'" "rb_cap rb' = rb_cap rb" "elementSizeBytes rb' = elementSizeBytes rb"
    "rb_contents rb' = rb_contents rb @ elems ?e (concat xs) ?m"
    by metis
  moreover have "?m < 2 ^ 64" using pre by (auto simp: rb_push_pre_def min_less_iff_disj)
  moreover have "elems ?e (concat xs) ?m = take ?m xs"
    using elems_concat [OF len, of "[]"] take_elems [of ?m ?e "concat xs" "length xs"] by simp
  ultimately show "\<exists>rb'. rb_push rb xs = Some (rb', min (length xs) (rb_cap rb - length (rb_contents rb))) \<and>
      rb_inv rb' \<and> rb_cap rb' = rb_cap rb \<and> rb_push_pre rb' = rb_push_pre rb \<and>
      rb_contents rb' = rb_contents rb @ take (min (length xs) (rb_cap rb - length (rb_contents rb))) xs"
    by (auto simp: rb_push_def rb_push_pre_def unat_of_nat fun_eq_iff)
next
  fix rb and n :: size_t assume inv: "rb_inv rb"
  let ?e = "unat (elementSizeBytes rb)" and ?m = "min (unat n) (rb_used rb)"
  have fits: "?m * ?e \<le> unat n * ?e" by (rule mult_le_mono1) simp
  obtain rb' where r: "rawr_RingBuffer_Read rb (replicate (unat n * ?e) 0) n =
      Some (rb', concat (take ?m (rb_contents rb)) @ drop (?m * ?e) (replicate (unat n * ?e) 0), of_nat ?m)"
    "rb_inv rb'" "rb_cap rb' = rb_cap rb" "elementSizeBytes rb' = elementSizeBytes rb"
    "rb_contents rb' = drop ?m (rb_contents rb)"
    using rb_Read_cases [OF inv refl refl, of "replicate (unat n * ?e) 0" n] fits by (metis length_replicate)
  have "list_all (\<lambda>x. length x = ?e) (take ?m (rb_contents rb))"
    using rb_contents_len [OF inv] by (simp add: list_all_iff) (metis in_set_takeD)
  moreover have "unat (of_nat ?m :: size_t) = ?m" "length (take ?m (rb_contents rb)) = ?m"
    by (simp_all add: unat_of_nat min_less_iff_disj)
  ultimately have "rb_pop rb n = Some (rb', take ?m (rb_contents rb))"
    using elems_concat [of ?e "take ?m (rb_contents rb)"] by (simp add: rb_pop_def r(1))
  moreover have "take ?m (rb_contents rb) = take (unat n) (rb_contents rb)"
    "drop ?m (rb_contents rb) = drop (unat n) (rb_contents rb)"
    by (simp_all add: min_def)
  ultimately show "\<exists>rb'. rb_pop rb n = Some (rb', take (unat n) (rb_contents rb)) \<and> rb_inv rb' \<and>
      rb_cap rb' = rb_cap rb \<and> rb_push_pre rb' = rb_push_pre rb \<and> rb_contents rb' = drop (unat n) (rb_contents rb)"
    using r by (auto simp: rb_push_pre_def fun_eq_iff)
qed

section \<open>Properties\<close>

text \<open>A concrete buffer of four 2-byte elements.\<close>

definition demo_ring :: rawr_RingBuffer where
  "demo_ring = fst (rawr_RingBuffer_Initialize
     \<lparr>bufferSize = 0, writeIndex = 0, readIndex = 0, bigMask = 0, smallMask = 0,
      elementSizeBytes = 0, buffer = []\<rparr> 2 4 (replicate 8 0))"

lemma demo_ring_ok: "rb_inv demo_ring" "rb_contents demo_ring = []" "rb_cap demo_ring = 4"
  "elementSizeBytes demo_ring = 2"
  using rb_Initialize_ok [of 2 "replicate 8 0" 2] by (simp_all add: demo_ring_def)

lemma demo_ring_used: "rb_used demo_ring = 0"
  using demo_ring_ok(2) by (simp flip: length_rb_contents)

text \<open>
  (C27) Initialisation accepts exactly zero and the powers of two as element counts: it then returns 0 with an
  empty buffer that has room for that many elements. On every other count it returns -1 and leaves the
  structure as it was.
\<close>

theorem rb_Initialize_accepts:
  "case rawr_RingBuffer_Initialize rb esz n mem of (rb', r) \<Rightarrow>
     if n = 0 \<or> (\<exists>k<64. n = 2 ^ k)
     then r = 0 \<and> bufferSize rb' = n \<and> elementSizeBytes rb' = esz \<and> buffer rb' = mem
        \<and> rawr_RingBuffer_GetReadAvailable rb' = 0 \<and> rawr_RingBuffer_GetWriteAvailable rb' = n
     else r = -1 \<and> rb' = rb"
proof -
  have "(n - 1) AND n = 0 \<longleftrightarrow> n = 0 \<or> (\<exists>k<64. n = 2 ^ k)"
    using and_pred_word [of n] and_pred_pow2 by auto
  then show ?thesis
    by (auto simp: rawr_RingBuffer_Initialize_def rawr_RingBuffer_Flush_def rawr_RingBuffer_GetReadAvailable_def
        rawr_RingBuffer_GetWriteAvailable_def Let_def)
qed

text \<open>
  A buffer initialised with a power of two of elements and memory of that size satisfies the
  invariant, is empty, and has room for all its elements.
\<close>

lemma rb_Initialize_establishes:
  assumes "k < 63" and "length mem = 2 ^ k * unat esz" and "2 ^ k * unat esz < 2 ^ 64"
    and "rawr_RingBuffer_Initialize rb0 esz (2 ^ k) mem = (rb, r)"
  shows "r = 0 \<and> rb_inv rb \<and> rb_contents rb = [] \<and> rawr_RingBuffer_GetReadAvailable rb = 0
     \<and> rawr_RingBuffer_GetWriteAvailable rb = 2 ^ k"
proof -
  note ok = rb_Initialize_ok [OF assms(1-3), of rb0, unfolded assms(4) fst_conv snd_conv]
  have "rb_used rb = 0" using ok(2) by (simp flip: length_rb_contents)
  then have "rawr_RingBuffer_GetReadAvailable rb = 0"
    by (simp add: rb_used_def unat_eq_0)
  moreover have "bufferSize rb = 2 ^ k"
    using assms(4) by (auto simp: rawr_RingBuffer_Initialize_def and_pred_pow2 Let_def rawr_RingBuffer_Flush_def)
  ultimately show ?thesis
    using ok by (simp add: rawr_RingBuffer_GetWriteAvailable_def)
qed

text \<open>
  A write takes as many elements as fit, returns that number, and appends exactly those
  elements behind the waiting ones; the client's object must hold the elements that are taken.
\<close>

lemma rb_Write_appends:
  assumes "rb_inv rb" and "m = min (unat n) (rb_cap rb - length (rb_contents rb))"
    and "m * unat (elementSizeBytes rb) \<le> length data"
  shows "\<exists>rb'. rawr_RingBuffer_Write rb data n = Some (rb', of_nat m) \<and> rb_inv rb' \<and> rb_cap rb' = rb_cap rb
     \<and> rb_contents rb' = rb_contents rb @ elems (unat (elementSizeBytes rb)) data m"
  using rb_Write_correct [OF assms(1) _ refl assms(3), of n] assms(2) by (metis length_rb_contents)

text \<open>
  A read delivers and removes the oldest elements, as many as were asked for or are waiting,
  and leaves the rest of the client's object alone; it overruns that object exactly when the
  delivered elements do not fit.
\<close>

lemma rb_Read_delivers:
  assumes "rb_inv rb" and "m = min (unat n) (length (rb_contents rb))"
  shows "(if m * unat (elementSizeBytes rb) \<le> length data
          then \<exists>rb'. rawr_RingBuffer_Read rb data n =
                 Some (rb', concat (take m (rb_contents rb)) @ drop (m * unat (elementSizeBytes rb)) data, of_nat m)
               \<and> rb_inv rb' \<and> rb_cap rb' = rb_cap rb \<and> rb_contents rb' = drop m (rb_contents rb)
          else rawr_RingBuffer_Read rb data n = None)"
proof -
  have "m = min (unat n) (rb_used rb)" using assms(2) by (simp add: length_rb_contents)
  from rb_Read_cases [OF assms(1) this refl, of data] show ?thesis
    by (metis (lifting))
qed

text \<open>
  (C9) Whatever sequence of writes and reads a client makes, no call faults and nothing is lost,
  duplicated or reordered: what was waiting at first followed by what the writes accepted is what
  the reads delivered followed by what is waiting at the end.
\<close>

theorem rb_run_fifo:
  assumes "rb_inv rb" and "list_all (fifo_op_ok (rb_push_pre rb) (\<lambda>_. True)) ops"
  shows "\<exists>rb' acc del. fifo_run rb_push rb_pop rb ops = Some (rb', acc, del) \<and> rb_inv rb'
     \<and> rb_cap rb' = rb_cap rb \<and> rb_contents rb @ acc = del @ rb_contents rb'"
  by (rule ring.run_fifo [OF assms])

theorem rb_run_fifo_witness:
  "\<exists>rb' acc del. fifo_run rb_push rb_pop demo_ring [Push [[1, 2], [3, 4]], Pop 1, Push [[5, 6]], Pop 9] =
     Some (rb', acc, del) \<and> acc = del @ rb_contents rb'"
  using rb_run_fifo [OF demo_ring_ok(1), of "[Push [[1, 2], [3, 4]], Pop 1, Push [[5, 6]], Pop 9]"]
  by (auto simp: rb_push_pre_def demo_ring_ok)

end
