(* ===== verification/RingBufferSpsc.thy ===== *)
theory RingBufferSpsc
  imports RingBuffer
begin

text \<open>
  One writer and one reader on the same ring buffer, each running
  \<^verbatim>\<open>rawr_RingBuffer_Write\<close> or \<^verbatim>\<open>rawr_RingBuffer_Read\<close> as its three parts: fetch the regions,
  copy, advance the own index. The parts of the two threads interleave in any order. While
  the writer copies, its regions may hold anything (the copy is not atomic); outside them
  memory is untouched. The memory barriers of the code give the order of the parts, which
  the model takes as sequentially consistent.
\<close>

section \<open>The two threads\<close>

datatype writer =
    W_Idle
  | W_Regions regions size_t bytes
  | W_Copied size_t bytes

datatype reader =
    R_Idle
  | R_Regions regions size_t bytes
  | R_Copied size_t bytes

text \<open>\<open>sent\<close> and \<open>received\<close> record what completed writes and reads have moved.\<close>

record spsc =
  ring :: rawr_RingBuffer
  wpc :: writer
  rpc :: reader
  sent :: "bytes list"
  received :: "bytes list"

definition spsc_start :: "rawr_RingBuffer \<Rightarrow> spsc" where
  "spsc_start rb = \<lparr>ring = rb, wpc = W_Idle, rpc = R_Idle, sent = [], received = []\<rparr>"

abbreviation esize :: "rawr_RingBuffer \<Rightarrow> nat" where
  "esize rb \<equiv> unat (elementSizeBytes rb)"

text \<open>Memory that differs from \<open>buf\<close> at most in the \<open>m\<close> slots from the write index on.\<close>

definition same_outside :: "rawr_RingBuffer \<Rightarrow> nat \<Rightarrow> bytes \<Rightarrow> bool" where
  "same_outside rb m buf \<longleftrightarrow> length buf = length (buffer rb) \<and>
     (\<forall>s<rb_cap rb. (\<forall>j<m. s \<noteq> (unat (writeIndex rb) + j) mod rb_cap rb) \<longrightarrow>
        slot (esize rb) buf s = slot (esize rb) (buffer rb) s)"

inductive spsc_step :: "spsc \<Rightarrow> spsc \<Rightarrow> bool" where
  w_regions: "wpc s = W_Idle \<Longrightarrow> rawr_RingBuffer_GetWriteRegions (ring s) n = (rg, m) \<Longrightarrow>
     unat m * esize (ring s) \<le> length data \<Longrightarrow>
     spsc_step s (s\<lparr>wpc := W_Regions rg m data\<rparr>)"
| w_partial: "wpc s = W_Regions rg m data \<Longrightarrow> same_outside (ring s) (unat m) buf \<Longrightarrow>
     spsc_step s (s\<lparr>ring := (ring s)\<lparr>buffer := buf\<rparr>\<rparr>)"
| w_copy: "wpc s = W_Regions rg m data \<Longrightarrow>
     copy_in (buffer (ring s)) rg (elementSizeBytes (ring s)) data = Some buf \<Longrightarrow>
     spsc_step s (s\<lparr>ring := (ring s)\<lparr>buffer := buf\<rparr>, wpc := W_Copied m data\<rparr>)"
| w_advance: "wpc s = W_Copied m data \<Longrightarrow>
     spsc_step s (s\<lparr>ring := fst (rawr_RingBuffer_AdvanceWriteIndex (ring s) m), wpc := W_Idle,
                    sent := sent s @ elems (esize (ring s)) data (unat m)\<rparr>)"
| r_regions: "rpc s = R_Idle \<Longrightarrow> rawr_RingBuffer_GetReadRegions (ring s) n = (rg, m) \<Longrightarrow>
     unat m * esize (ring s) \<le> length dst \<Longrightarrow>
     spsc_step s (s\<lparr>rpc := R_Regions rg m dst\<rparr>)"
| r_copy: "rpc s = R_Regions rg m dst \<Longrightarrow>
     copy_out (buffer (ring s)) rg (elementSizeBytes (ring s)) dst = Some out \<Longrightarrow>
     spsc_step s (s\<lparr>rpc := R_Copied m out\<rparr>)"
| r_advance: "rpc s = R_Copied m out \<Longrightarrow>
     spsc_step s (s\<lparr>ring := fst (rawr_RingBuffer_AdvanceReadIndex (ring s) m), rpc := R_Idle,
                    received := received s @ elems (esize (ring s)) out (unat m)\<rparr>)"

inductive spsc_reachable :: "rawr_RingBuffer \<Rightarrow> spsc \<Rightarrow> bool" for rb where
  start: "spsc_reachable rb (spsc_start rb)"
| step: "spsc_reachable rb s \<Longrightarrow> spsc_step s t \<Longrightarrow> spsc_reachable rb t"

section \<open>Invariant\<close>

definition writer_ok :: "rawr_RingBuffer \<Rightarrow> writer \<Rightarrow> bool" where
  "writer_ok rb w \<longleftrightarrow> (case w of
     W_Idle \<Rightarrow> True
   | W_Regions rg m data \<Rightarrow> rg = split_regions rb (writeIndex rb AND smallMask rb) m
       \<and> rb_used rb + unat m \<le> rb_cap rb \<and> unat m * esize rb \<le> length data
   | W_Copied m data \<Rightarrow> rb_used rb + unat m \<le> rb_cap rb
       \<and> (\<forall>j<unat m. slot (esize rb) (buffer rb) ((unat (writeIndex rb) + j) mod rb_cap rb)
                        = slot (esize rb) data j))"

definition reader_ok :: "rawr_RingBuffer \<Rightarrow> reader \<Rightarrow> bool" where
  "reader_ok rb r \<longleftrightarrow> (case r of
     R_Idle \<Rightarrow> True
   | R_Regions rg m dst \<Rightarrow> rg = split_regions rb (readIndex rb AND smallMask rb) m
       \<and> unat m \<le> rb_used rb \<and> unat m * esize rb \<le> length dst
   | R_Copied m out \<Rightarrow> unat m \<le> rb_used rb
       \<and> (\<exists>rest. out = concat (take (unat m) (rb_contents rb)) @ rest))"

definition spsc_inv :: "spsc \<Rightarrow> bool" where
  "spsc_inv s \<longleftrightarrow> rb_inv (ring s) \<and> sent s = received s @ rb_contents (ring s)
     \<and> writer_ok (ring s) (wpc s) \<and> reader_ok (ring s) (rpc s)"

section \<open>Effect of the parts on the waiting elements\<close>

lemma split_regions_cong:
  "bufferSize rb' = bufferSize rb \<Longrightarrow> elementSizeBytes rb' = elementSizeBytes rb \<Longrightarrow>
   split_regions rb' i n = split_regions rb i n"
  by (simp add: split_regions_def)

lemma rb_inv_buffer: "rb_inv rb \<Longrightarrow> length buf = length (buffer rb) \<Longrightarrow> rb_inv (rb\<lparr>buffer := buf\<rparr>)"
  by (simp add: rb_inv_def rb_shape_def rb_used_def rb_cap_def rawr_RingBuffer_GetReadAvailable_def)

lemma write_slot_cap:
  assumes "rb_inv rb"
  shows "(unat (writeIndex rb) + j) mod rb_cap rb = (unat (readIndex rb) + (rb_used rb + j)) mod rb_cap rb"
proof -
  obtain k where sh: "rb_shape k rb" using assms by (rule rb_invE)
  have "(unat (writeIndex rb) + j) mod rb_cap rb = (unat (writeIndex rb) mod rb_cap rb + j) mod rb_cap rb"
    by (simp only: mod_add_left_eq)
  also have "\<dots> = ((unat (readIndex rb) + rb_used rb) mod rb_cap rb + j) mod rb_cap rb"
    by (simp only: write_slot [OF sh] rb_cap_shape [OF sh])
  also have "\<dots> = (unat (readIndex rb) + (rb_used rb + j)) mod rb_cap rb"
    by (simp only: mod_add_left_eq add.assoc)
  finally show ?thesis .
qed

lemma contents_same_outside:
  assumes inv: "rb_inv rb" and fits: "rb_used rb + m \<le> rb_cap rb" and same: "same_outside rb m buf"
  shows "rb_contents (rb\<lparr>buffer := buf\<rparr>) = rb_contents rb"
proof -
  have "slot (esize rb) buf ((unat (readIndex rb) + i) mod rb_cap rb) =
        slot (esize rb) (buffer rb) ((unat (readIndex rb) + i) mod rb_cap rb)" if i: "i < rb_used rb" for i
  proof -
    have "(unat (readIndex rb) + i) mod rb_cap rb \<noteq> (unat (writeIndex rb) + j) mod rb_cap rb" if "j < m" for j
      unfolding write_slot_cap [OF inv] using i that fits by (intro mod_add_distinct) auto
    moreover have "(unat (readIndex rb) + i) mod rb_cap rb < rb_cap rb"
      using i fits by (intro mod_less_divisor) simp
    ultimately show ?thesis using same by (simp add: same_outside_def)
  qed
  then show ?thesis by (simp add: rb_contents_def)
qed

lemma write_regions_ok:
  assumes "rb_inv rb" and "rawr_RingBuffer_GetWriteRegions rb n = (rg, m)"
  shows "rg = split_regions rb (writeIndex rb AND smallMask rb) m" and "rb_used rb + unat m \<le> rb_cap rb"
proof -
  obtain k where sh: "rb_shape k rb" using assms(1) by (rule rb_invE)
  have "rb_used rb \<le> rb_cap rb" using assms(1) by (simp add: rb_inv_def)
  with used_cases [OF sh] assms(2)
  show "rg = split_regions rb (writeIndex rb AND smallMask rb) m" and "rb_used rb + unat m \<le> rb_cap rb"
    by (auto simp: rawr_RingBuffer_GetWriteRegions_def Let_def unat_min)
qed

lemma read_regions_ok:
  assumes "rawr_RingBuffer_GetReadRegions rb n = (rg, m)"
  shows "rg = split_regions rb (readIndex rb AND smallMask rb) m" and "unat m \<le> rb_used rb"
  using assms by (auto simp: rawr_RingBuffer_GetReadRegions_def Let_def unat_min rb_used_def)

text \<open>The writer's copy succeeds, stays inside its regions and fills them with the client's elements.\<close>

lemma writer_copy:
  assumes inv: "rb_inv rb" and ok: "writer_ok rb (W_Regions rg m data)"
  obtains buf where "copy_in (buffer rb) rg (elementSizeBytes rb) data = Some buf"
    and "same_outside rb (unat m) buf"
    and "\<And>j. j < unat m \<Longrightarrow>
      slot (esize rb) buf ((unat (writeIndex rb) + j) mod rb_cap rb) = slot (esize rb) data j"
proof -
  obtain k where sh: "rb_shape k rb" and cap: "rb_cap rb = 2 ^ k" using inv by (rule rb_invE)
  let ?N = "2 ^ k :: nat" and ?i = "unat (writeIndex rb AND smallMask rb)" and ?m = "unat m"
  define buf where "buf = ring_patch ?N (esize rb) (buffer rb) ?i data ?m"
  have i: "?i = unat (writeIndex rb) mod ?N" and iN: "?i < ?N" using unat_index [OF sh] by simp_all
  have m: "?m \<le> ?N" and d: "?m * esize rb \<le> length data"
    and rg: "rg = split_regions rb (writeIndex rb AND smallMask rb) m"
    using ok cap by (simp_all add: writer_ok_def)
  have b: "length (buffer rb) = ?N * esize rb" by (rule rb_shapeD(7) [OF sh])
  note slots = ring_patch_slot [OF b iN m d, folded buf_def]
  show ?thesis
  proof (rule that)
    show "copy_in (buffer rb) rg (elementSizeBytes rb) data = Some buf"
      unfolding rg buf_def by (rule copy_in_ring_patch [OF sh iN m refl d])
    show "slot (esize rb) buf ((unat (writeIndex rb) + j) mod rb_cap rb) = slot (esize rb) data j"
      if "j < ?m" for j
      using slots [of "(unat (writeIndex rb) + j) mod ?N"] ring_distance [of 0 ?N j "unat (writeIndex rb)"]
        that m i cap by simp
    have "slot (esize rb) buf s = slot (esize rb) (buffer rb) s"
      if s: "s < ?N" and out: "\<forall>j<?m. s \<noteq> (unat (writeIndex rb) + j) mod ?N" for s
    proof -
      have "(unat (writeIndex rb) + (s + ?N - ?i) mod ?N) mod ?N = (?i + (s + ?N - ?i)) mod ?N"
        unfolding i by (simp only: mod_add_left_eq mod_add_right_eq)
      also have "\<dots> = s" using s iN by simp
      finally have "\<not> (s + ?N - ?i) mod ?N < ?m" using out by metis
      then show ?thesis using slots [OF s] by simp
    qed
    moreover have "length buf = length (buffer rb)"
      unfolding buf_def b by (rule length_ring_patch [OF b iN m d])
    ultimately show "same_outside rb ?m buf" by (simp add: same_outside_def cap)
  qed
qed

lemma reader_copy:
  assumes inv: "rb_inv rb" and ok: "reader_ok rb (R_Regions rg m dst)"
  shows "copy_out (buffer rb) rg (elementSizeBytes rb) dst =
           Some (concat (take (unat m) (rb_contents rb)) @ drop (unat m * esize rb) dst)"
proof -
  obtain k where sh: "rb_shape k rb" and u: "rb_used rb \<le> 2 ^ k" using inv by (rule rb_invE)
  let ?i = "readIndex rb AND smallMask rb"
  have i: "unat ?i = unat (readIndex rb) mod 2 ^ k" and iN: "unat ?i < 2 ^ k"
    using unat_index [OF sh] by simp_all
  have m: "unat m \<le> rb_used rb" "unat m * esize rb \<le> length dst" and rg: "rg = split_regions rb ?i m"
    using ok by (simp_all add: reader_ok_def)
  then show ?thesis
    using copy_out_ring [OF sh iN order_trans [OF m(1) u] refl, of dst]
    by (simp add: rb_contents_shape [OF sh] take_map i mod_add_left_eq)
qed

section \<open>Every step keeps the invariant\<close>

lemma writer_ok_buffer:
  "writer_ok (rb\<lparr>buffer := buf\<rparr>) (W_Regions rg m data) = writer_ok rb (W_Regions rg m data)"
  by (simp add: writer_ok_def split_regions_cong [of "rb\<lparr>buffer := buf\<rparr>" rb])

lemma reader_ok_buffer:
  "rb_contents (rb\<lparr>buffer := buf\<rparr>) = rb_contents rb \<Longrightarrow>
   reader_ok (rb\<lparr>buffer := buf\<rparr>) r = reader_ok rb r"
  by (simp add: reader_ok_def split_regions_cong [of "rb\<lparr>buffer := buf\<rparr>" rb] split: reader.split)

lemma advance_write_ok:
  assumes inv: "rb_inv rb" and w: "writer_ok rb (W_Copied m data)" and r: "reader_ok rb r"
  defines "rb' \<equiv> fst (rawr_RingBuffer_AdvanceWriteIndex rb m)"
  shows "rb_inv rb'" and "rb_contents rb' = rb_contents rb @ elems (esize rb) data (unat m)"
    and "reader_ok rb' r"
proof -
  obtain k where sh: "rb_shape k rb" and cap: "rb_cap rb = 2 ^ k" using inv by (rule rb_invE)
  have fits: "rb_used rb + unat m \<le> 2 ^ k" using w cap by (simp add: writer_ok_def)
  have adv: "rb_shape k rb'" "rb_used rb' = rb_used rb + unat m" "readIndex rb' = readIndex rb"
    "elementSizeBytes rb' = elementSizeBytes rb"
    using shape_advance_write [OF sh fits, of "buffer rb"] by (simp_all add: rb'_def)
  have same: "bufferSize rb' = bufferSize rb" "smallMask rb' = smallMask rb"
    using rb_shapeD [OF sh] rb_shapeD [OF adv(1)] by simp_all
  show "rb_inv rb'" using adv fits by (intro rb_invI) simp_all
  show c: "rb_contents rb' = rb_contents rb @ elems (esize rb) data (unat m)"
    unfolding rb'_def using w write_slot_cap [OF inv] cap
    by (intro contents_advance_write [OF sh fits refl]) (simp add: writer_ok_def)
  show "reader_ok rb' r"
    using r adv same by (auto simp: reader_ok_def c split_regions_cong [of rb' rb] split: reader.splits)
qed

lemma advance_read_ok:
  assumes inv: "rb_inv rb" and r: "reader_ok rb (R_Copied m out)" and w: "writer_ok rb wr"
  defines "rb' \<equiv> fst (rawr_RingBuffer_AdvanceReadIndex rb m)"
  shows "rb_inv rb'" and "rb_contents rb = elems (esize rb) out (unat m) @ rb_contents rb'"
    and "writer_ok rb' wr"
proof -
  obtain k where sh: "rb_shape k rb" and u: "rb_used rb \<le> 2 ^ k" and cap: "rb_cap rb = 2 ^ k"
    using inv by (rule rb_invE)
  obtain rest where m: "unat m \<le> rb_used rb" and out: "out = concat (take (unat m) (rb_contents rb)) @ rest"
    using r by (auto simp: reader_ok_def)
  note adv = shape_advance_read [OF sh m u, folded rb'_def]
  have w': "writeIndex rb' = writeIndex rb"
    by (simp add: rb'_def rawr_RingBuffer_AdvanceReadIndex_def Let_def)
  have same: "bufferSize rb' = bufferSize rb" "smallMask rb' = smallMask rb" "rb_cap rb' = rb_cap rb"
    using rb_shapeD [OF sh] rb_shapeD [OF adv(1)] by (simp_all add: rb_cap_def)
  show "rb_inv rb'"
    by (rule rb_invI [OF adv(1)]) (unfold adv(2), rule order_trans [OF diff_le_self u])
  have "list_all (\<lambda>x. length x = esize rb) (take (unat m) (rb_contents rb))"
    using rb_contents_len [OF inv] by (simp add: list_all_iff) (metis in_set_takeD)
  from elems_concat [OF this] have "elems (esize rb) out (unat m) = take (unat m) (rb_contents rb)"
    using m by (simp add: out)
  then show "rb_contents rb = elems (esize rb) out (unat m) @ rb_contents rb'"
    using contents_advance_read [OF sh m u] by (simp add: rb'_def)
  show "writer_ok rb' wr"
    using w adv same w' by (auto simp: writer_ok_def split_regions_cong [of rb' rb] split: writer.splits)
qed

lemma spsc_step_inv:
  assumes "spsc_step s t" and "spsc_inv s"
  shows "spsc_inv t"
  using assms
proof (cases rule: spsc_step.cases)
  case (w_regions n rg m data)
  with assms(2) write_regions_ok [of "ring s" n rg m] show ?thesis
    by (simp add: spsc_inv_def writer_ok_def)
next
  case (w_partial rg m data buf)
  with assms(2) have ok: "rb_inv (ring s)" "writer_ok (ring s) (W_Regions rg m data)"
    by (simp_all add: spsc_inv_def)
  then have "rb_used (ring s) + unat m \<le> rb_cap (ring s)" by (simp add: writer_ok_def)
  from contents_same_outside [OF ok(1) this w_partial(3)] rb_inv_buffer [OF ok(1), of buf]
  show ?thesis
    using w_partial assms(2) by (simp add: spsc_inv_def same_outside_def writer_ok_buffer reader_ok_buffer)
next
  case (w_copy rg m data buf)
  with assms(2) have ok: "rb_inv (ring s)" "writer_ok (ring s) (W_Regions rg m data)"
    by (simp_all add: spsc_inv_def)
  then have fits: "rb_used (ring s) + unat m \<le> rb_cap (ring s)" by (simp add: writer_ok_def)
  from writer_copy [OF ok] w_copy(3) have same: "same_outside (ring s) (unat m) buf"
    and slots: "\<And>j. j < unat m \<Longrightarrow>
      slot (esize (ring s)) buf ((unat (writeIndex (ring s)) + j) mod rb_cap (ring s)) = slot (esize (ring s)) data j"
    by (metis option.inject)+
  from contents_same_outside [OF ok(1) fits same] rb_inv_buffer [OF ok(1), of buf]
  show ?thesis
    using w_copy assms(2) fits slots same
    by (simp add: spsc_inv_def same_outside_def reader_ok_buffer) (simp add: writer_ok_def)
next
  case (w_advance m data)
  with assms(2) advance_write_ok [of "ring s" m data "rpc s"] show ?thesis
    by (simp add: spsc_inv_def) (simp add: writer_ok_def)
next
  case (r_regions n rg m dst)
  with assms(2) read_regions_ok [of "ring s" n rg m] show ?thesis
    by (simp add: spsc_inv_def reader_ok_def)
next
  case (r_copy rg m dst out)
  with assms(2) reader_copy [of "ring s" rg m dst] show ?thesis
    by (auto simp: spsc_inv_def reader_ok_def)
next
  case (r_advance m out)
  with assms(2) advance_read_ok [of "ring s" m out "wpc s"] show ?thesis
    by (simp add: spsc_inv_def) (simp add: reader_ok_def)
qed

lemma spsc_reachable_inv:
  assumes "spsc_reachable rb s" and "rb_inv rb" and "rb_contents rb = []"
  shows "spsc_inv s"
  using assms(1)
proof induction
  case start
  then show ?case
    using assms(2,3) by (simp add: spsc_inv_def spsc_start_def writer_ok_def reader_ok_def)
next
  case (step s t)
  then show ?case using spsc_step_inv by blast
qed

text \<open>
  (C3) Under every interleaving of one writer and one reader, started on an empty ring
  buffer, what was written is exactly what was read followed by what is still waiting, in
  order, and no more than the capacity is ever waiting.
\<close>

theorem spsc_fifo:
  assumes "rb_inv rb" and "rb_contents rb = []" and "spsc_reachable rb s"
  shows "sent s = received s @ rb_contents (ring s) \<and> length (rb_contents (ring s)) \<le> rb_cap (ring s)"
  using spsc_reachable_inv [OF assms(3,1,2)] ring.bounded by (auto simp: spsc_inv_def)

text \<open>
  (C10) In no reachable state does a copy of either thread leave the buffer or the client's
  object: a writer holding regions can complete its copy, and so can a reader, which then
  gets the oldest waiting elements whatever the writer is doing.
\<close>

theorem spsc_copies_safe:
  assumes "rb_inv rb" and "rb_contents rb = []" and "spsc_reachable rb s"
  shows "(wpc s = W_Regions wrg m data \<longrightarrow>
            (\<exists>buf. copy_in (buffer (ring s)) wrg (elementSizeBytes (ring s)) data = Some buf)) \<and>
         (rpc s = R_Regions rrg n dst \<longrightarrow>
            copy_out (buffer (ring s)) rrg (elementSizeBytes (ring s)) dst =
              Some (concat (take (unat n) (rb_contents (ring s))) @
                    drop (unat n * unat (elementSizeBytes (ring s))) dst))"
proof -
  have inv: "spsc_inv s" by (rule spsc_reachable_inv [OF assms(3,1,2)])
  have "\<exists>buf. copy_in (buffer (ring s)) wrg (elementSizeBytes (ring s)) data = Some buf"
    if "wpc s = W_Regions wrg m data"
    using inv that writer_copy [of "ring s" wrg m data] by (auto simp: spsc_inv_def)
  then show ?thesis
    using inv reader_copy [of "ring s" rrg n dst] by (auto simp: spsc_inv_def)
qed

lemma spsc_write_reachable:
  assumes s: "spsc_reachable rb s" "wpc s = W_Idle"
    and w: "rawr_RingBuffer_Write (ring s) data n = Some (rb', m)"
    and d: "unat m * esize (ring s) \<le> length data"
  shows "spsc_reachable rb (s\<lparr>ring := rb', sent := sent s @ elems (esize (ring s)) data (unat m)\<rparr>)"
proof -
  obtain rg buf where rg: "rawr_RingBuffer_GetWriteRegions (ring s) n = (rg, m)"
    and cp: "copy_in (buffer (ring s)) rg (elementSizeBytes (ring s)) data = Some buf"
    and rb': "rb' = fst (rawr_RingBuffer_AdvanceWriteIndex ((ring s)\<lparr>buffer := buf\<rparr>) m)"
    using w by (auto simp: rawr_RingBuffer_Write_def split: prod.splits bind_splits)
  let ?s1 = "s\<lparr>wpc := W_Regions rg m data\<rparr>"
  let ?s2 = "?s1\<lparr>ring := (ring s)\<lparr>buffer := buf\<rparr>, wpc := W_Copied m data\<rparr>"
  have idle: "s\<lparr>ring := x, wpc := W_Idle, sent := y\<rparr> = s\<lparr>ring := x, sent := y\<rparr>" for x y
    using s(2) by (cases s) simp
  have s1: "spsc_reachable rb ?s1"
    by (rule spsc_reachable.step [OF s(1) spsc_step.w_regions [OF s(2) rg d]])
  have "spsc_step ?s1 ?s2"
    using spsc_step.w_copy [of ?s1 rg m data buf] cp by simp
  then have s2: "spsc_reachable rb ?s2" by (rule spsc_reachable.step [OF s1])
  have "spsc_step ?s2 (s\<lparr>ring := rb', sent := sent s @ elems (esize (ring s)) data (unat m)\<rparr>)"
    using spsc_step.w_advance [of ?s2 m data] idle by (simp add: rb')
  then show ?thesis by (rule spsc_reachable.step [OF s2])
qed

theorem spsc_fifo_witness:
  "\<exists>s. spsc_reachable demo_ring s \<and> sent s = [[1, 2], [3, 4]]
     \<and> sent s = received s @ rb_contents (ring s) \<and> length (rb_contents (ring s)) \<le> rb_cap (ring s)"
proof -
  obtain rb' where w: "rawr_RingBuffer_Write demo_ring [1, 2, 3, 4] 2 = Some (rb', 2)"
    using rb_Write_correct [OF demo_ring_ok(1) refl refl, of 2 "[1, 2, 3, 4]"] demo_ring_ok
    by (auto simp: min_def simp flip: length_rb_contents)
  let ?s = "(spsc_start demo_ring)\<lparr>ring := rb', sent := [[1, 2], [3, 4]]\<rparr>"
  have "spsc_reachable demo_ring ((spsc_start demo_ring)\<lparr>ring := rb', sent := sent (spsc_start demo_ring) @
      elems (esize (ring (spsc_start demo_ring))) [1, 2, 3, 4] (unat (2 :: size_t))\<rparr>)"
    by (rule spsc_write_reachable [OF spsc_reachable.start, where n = 2])
      (simp_all add: spsc_start_def w demo_ring_ok(4))
  then have "spsc_reachable demo_ring ?s"
    by (simp add: spsc_start_def demo_ring_ok(4) elems_def slot_def upt_conv_Cons)
  with spsc_fifo [OF demo_ring_ok(1,2) this] show ?thesis
    by (intro exI [of _ ?s]) (simp add: spsc_start_def)
qed

theorem spsc_copies_safe_witness:
  "\<exists>s wrg m rrg n. spsc_reachable demo_ring s \<and> wpc s = W_Regions wrg m [1, 2, 3, 4]
     \<and> rpc s = R_Regions rrg n [9, 9]
     \<and> (\<exists>buf. copy_in (buffer (ring s)) wrg (elementSizeBytes (ring s)) [1, 2, 3, 4] = Some buf)
     \<and> copy_out (buffer (ring s)) rrg (elementSizeBytes (ring s)) [9, 9] =
         Some (concat (take (unat n) (rb_contents (ring s))) @
               drop (unat n * unat (elementSizeBytes (ring s))) [9, 9])"
proof -
  obtain wrg m where w: "rawr_RingBuffer_GetWriteRegions demo_ring 2 = (wrg, m)" by fastforce
  obtain rrg n where r: "rawr_RingBuffer_GetReadRegions demo_ring 1 = (rrg, n)" by fastforce
  have m: "unat m \<le> 2"
    using w by (auto simp: rawr_RingBuffer_GetWriteRegions_def Let_def unat_min)
  have n: "unat n = 0"
    using read_regions_ok(2) [OF r] demo_ring_ok(2) by (simp flip: length_rb_contents)
  let ?s1 = "(spsc_start demo_ring)\<lparr>wpc := W_Regions wrg m [1, 2, 3, 4]\<rparr>"
  let ?s2 = "?s1\<lparr>rpc := R_Regions rrg n [9, 9]\<rparr>"
  have "spsc_step (spsc_start demo_ring) ?s1"
    by (rule spsc_step.w_regions [where n = 2]) (use w m demo_ring_ok(4) in \<open>simp_all add: spsc_start_def\<close>)
  then have s1: "spsc_reachable demo_ring ?s1" by (rule spsc_reachable.step [OF spsc_reachable.start])
  have "spsc_step ?s1 ?s2"
    by (rule spsc_step.r_regions [where n = 1]) (use r n in \<open>simp_all add: spsc_start_def\<close>)
  then have s2: "spsc_reachable demo_ring ?s2" by (rule spsc_reachable.step [OF s1])
  show ?thesis
    using s2 spsc_copies_safe [OF demo_ring_ok(1,2) s2, of wrg m "[1, 2, 3, 4]" rrg n "[9, 9]"]
    by (intro exI [of _ ?s2] exI [of _ wrg] exI [of _ m] exI [of _ rrg] exI [of _ n]) simp
qed

end
