(* ===== verification/Bytes.thy ===== *)
theory Bytes
  imports Prelude
begin

text \<open>
  Byte order: how integers lie in memory, on the little-endian host and in
  network order, the swaps between the two, and C strings in byte memory.
\<close>

section \<open>Integers in memory\<close>

definition le16 :: "u16 \<Rightarrow> bytes" where
  "le16 w = [ucast w, ucast (drop_bit 8 w)]"

definition le16_of :: "bytes \<Rightarrow> u16" where
  "le16_of bs = ucast (bs ! 0) OR push_bit 8 (ucast (bs ! 1))"

definition le32 :: "u32 \<Rightarrow> bytes" where
  "le32 w = [ucast w, ucast (drop_bit 8 w), ucast (drop_bit 16 w), ucast (drop_bit 24 w)]"

definition le32_of :: "bytes \<Rightarrow> u32" where
  "le32_of bs = ucast (bs ! 0) OR push_bit 8 (ucast (bs ! 1)) OR push_bit 16 (ucast (bs ! 2))
     OR push_bit 24 (ucast (bs ! 3))"

definition le64 :: "u64 \<Rightarrow> bytes" where
  "le64 w = le32 (ucast w) @ le32 (ucast (drop_bit 32 w))"

definition le64_of :: "bytes \<Rightarrow> u64" where
  "le64_of bs = ucast (le32_of (take 4 bs)) OR push_bit 32 (ucast (le32_of (drop 4 bs)))"

definition bswap16 :: "u16 \<Rightarrow> u16" where
  "bswap16 w = le16_of (rev (le16 w))"

definition bswap32 :: "u32 \<Rightarrow> u32" where
  "bswap32 w = le32_of (rev (le32 w))"

text \<open>\<^verbatim>\<open>htons\<close>, \<^verbatim>\<open>ntohs\<close>, \<^verbatim>\<open>htonl\<close> and \<^verbatim>\<open>ntohl\<close> on the host, and network order in memory.\<close>

abbreviation htons :: "u16 \<Rightarrow> u16" where "htons \<equiv> bswap16"
abbreviation ntohs :: "u16 \<Rightarrow> u16" where "ntohs \<equiv> bswap16"
abbreviation htonl :: "u32 \<Rightarrow> u32" where "htonl \<equiv> bswap32"
abbreviation ntohl :: "u32 \<Rightarrow> u32" where "ntohl \<equiv> bswap32"

definition be16 :: "u16 \<Rightarrow> bytes" where
  "be16 w = rev (le16 w)"

definition be32 :: "u32 \<Rightarrow> bytes" where
  "be32 w = rev (le32 w)"

definition be16_of :: "bytes \<Rightarrow> u16" where
  "be16_of bs = le16_of (rev (take 2 bs))"

definition be32_of :: "bytes \<Rightarrow> u32" where
  "be32_of bs = le32_of (rev (take 4 bs))"

lemma length_codec [simp]: "length (le16 x) = 2" "length (le32 y) = 4" "length (be16 x) = 2" "length (be32 y) = 4"
  by (simp_all add: le16_def le32_def be16_def be32_def)

lemma le16_of_le16 [simp]: "le16_of (le16 w) = w"
  unfolding le16_of_def le16_def
  by (rule bit_word_eqI) (auto simp: bit_simps)

lemma le32_of_le32 [simp]: "le32_of (le32 w) = w"
proof (rule bit_word_eqI)
  fix n assume "n < LENGTH(32)"
  then consider "n < 8" | "8 \<le> n" "n < 16" | "16 \<le> n" "n < 24" | "24 \<le> n" "n < 32"
    by fastforce
  then show "bit (le32_of (le32 w)) n = bit w n"
    by cases (auto simp: le32_of_def le32_def bit_simps)
qed

lemma bit_u8D: "bit (x :: u8) n \<Longrightarrow> n < 8"
  using bit_imp_le_length [of x n] by simp

lemma length2: "length bs = 2 \<Longrightarrow> bs = [bs ! 0, bs ! 1]"
  by (auto simp: numeral_2_eq_2 length_Suc_conv)

lemma length4: "length bs = 4 \<Longrightarrow> bs = [bs ! 0, bs ! 1, bs ! 2, bs ! 3]"
  by (auto simp: numeral_eq_Suc length_Suc_conv)

lemma le16_le16_of [simp]:
  assumes "length bs = 2"
  shows "le16 (le16_of bs) = bs"
proof -
  have "ucast (le16_of bs) = bs ! 0" "ucast (drop_bit 8 (le16_of bs)) = bs ! 1"
    unfolding le16_of_def by (rule bit_word_eqI, auto simp: bit_simps dest: bit_u8D)+
  then show ?thesis using length2 [OF assms] by (simp add: le16_def)
qed

lemma le32_le32_of [simp]:
  assumes "length bs = 4"
  shows "le32 (le32_of bs) = bs"
proof -
  have "ucast (le32_of bs) = bs ! 0" "ucast (drop_bit 8 (le32_of bs)) = bs ! 1"
    "ucast (drop_bit 16 (le32_of bs)) = bs ! 2" "ucast (drop_bit 24 (le32_of bs)) = bs ! 3"
    unfolding le32_of_def by (rule bit_word_eqI, auto simp: bit_simps dest: bit_u8D)+
  then show ?thesis using length4 [OF assms] by (simp add: le32_def)
qed

lemma be_of_be [simp]: "be16_of (be16 x) = x" "be32_of (be32 y) = y"
  by (simp_all add: be16_of_def be16_def be32_of_def be32_def)

lemma be_of_be_append [simp]: "be16_of (be16 x @ bs) = x" "be32_of (be32 y @ bs) = y"
  by (simp_all add: be16_of_def be16_def be32_of_def be32_def)

lemma be_be_of [simp]:
  "length bs = 2 \<Longrightarrow> be16 (be16_of bs) = bs" "length bs = 4 \<Longrightarrow> be32 (be32_of bs) = bs"
  by (simp_all add: be16_of_def be16_def be32_of_def be32_def)

lemma le_bswap: "le16 (bswap16 x) = be16 x" "le32 (bswap32 y) = be32 y"
  by (simp_all add: bswap16_def bswap32_def be16_def be32_def)

lemma bswap_bswap [simp]: "bswap16 (bswap16 x) = x" "bswap32 (bswap32 y) = y"
  by (simp_all add: bswap16_def [of "bswap16 x"] bswap32_def [of "bswap32 y"] le_bswap be16_def be32_def)

lemma le16_inject [simp]: "le16 x = le16 y \<longleftrightarrow> x = y"
  by (metis le16_of_le16)

lemma le32_inject [simp]: "le32 x = le32 y \<longleftrightarrow> x = y"
  by (metis le32_of_le32)

lemma length_le64 [simp]: "length (le64 w) = 8"
  by (simp add: le64_def)

lemma le64_of_le64 [simp]: "le64_of (le64 w) = w"
  unfolding le64_of_def le64_def
  by (rule bit_word_eqI) (auto simp: bit_simps)

lemma le64_le64_of [simp]:
  assumes "length bs = 8"
  shows "le64 (le64_of bs) = bs"
proof -
  have "ucast (le64_of bs) = le32_of (take 4 bs)" "ucast (drop_bit 32 (le64_of bs)) = le32_of (drop 4 bs)"
    unfolding le64_of_def by (rule bit_word_eqI, auto simp: bit_simps dest: bit_imp_le_length)+
  then show ?thesis using assms by (simp add: le64_def)
qed

section \<open>Fields\<close>

text \<open>Reads and writes of a field at a byte offset of an object.\<close>

definition ld16 :: "bytes \<Rightarrow> nat \<Rightarrow> u16" where
  "ld16 m off = le16_of (take 2 (drop off m))"

definition ld32 :: "bytes \<Rightarrow> nat \<Rightarrow> u32" where
  "ld32 m off = le32_of (take 4 (drop off m))"

definition st16 :: "bytes \<Rightarrow> nat \<Rightarrow> u16 \<Rightarrow> bytes" where
  "st16 m off w = patch m off (le16 w)"

definition st32 :: "bytes \<Rightarrow> nat \<Rightarrow> u32 \<Rightarrow> bytes" where
  "st32 m off w = patch m off (le32 w)"

lemma length_st [simp]:
  "off + 2 \<le> length m \<Longrightarrow> length (st16 m off w) = length m"
  "off + 4 \<le> length m \<Longrightarrow> length (st32 m off v) = length m"
  by (simp_all add: st16_def st32_def)

lemma ld_st_same [mem_simps]:
  "off + 2 \<le> length m \<Longrightarrow> ld16 (st16 m off w) off = w"
  "off + 4 \<le> length m \<Longrightarrow> ld32 (st32 m off v) off = v"
  using patch_read_same [of off "le16 w" m] patch_read_same [of off "le32 v" m]
  by (simp_all add: ld16_def st16_def ld32_def st32_def)

lemma take_drop_st16 [mem_simps]:
  "off + 2 \<le> length m \<Longrightarrow> off' + n \<le> off \<or> off + 2 \<le> off' \<Longrightarrow>
   take n (drop off' (st16 m off w)) = take n (drop off' m)"
  by (simp add: st16_def patch_read_disjoint)

lemma take_drop_st32 [mem_simps]:
  "off + 4 \<le> length m \<Longrightarrow> off' + n \<le> off \<or> off + 4 \<le> off' \<Longrightarrow>
   take n (drop off' (st32 m off w)) = take n (drop off' m)"
  by (simp add: st32_def patch_read_disjoint)

lemma take_drop_patch [mem_simps]:
  "off + length bs \<le> length m \<Longrightarrow> off' + n \<le> off \<or> off + length bs \<le> off' \<Longrightarrow>
   take n (drop off' (patch m off bs)) = take n (drop off' m)"
  by (rule patch_read_disjoint)

lemma ld_cong:
  "take 2 (drop off m) = take 2 (drop off m') \<Longrightarrow> ld16 m off = ld16 m' off"
  "take 4 (drop off m) = take 4 (drop off m') \<Longrightarrow> ld32 m off = ld32 m' off"
  by (simp_all add: ld16_def ld32_def)

section \<open>C strings\<close>

text \<open>A string in memory ends at the first zero byte; \<open>cstr\<close> reads it, \<open>None\<close> when there is none.\<close>

definition strlen :: "bytes \<Rightarrow> nat option" where
  "strlen m = (if 0 \<in> set m then Some (length (takeWhile (\<lambda>b. b \<noteq> 0) m)) else None)"

definition cstr :: "bytes \<Rightarrow> bytes option" where
  "cstr m = (if 0 \<in> set m then Some (takeWhile (\<lambda>b. b \<noteq> 0) m) else None)"

lemma cstr_append [simp]: "0 \<notin> set s \<Longrightarrow> cstr (s @ 0 # rest) = Some s"
  by (simp add: cstr_def takeWhile_append2 [of s] takeWhile_tail)
     (metis (no_types, lifting) append.right_neutral takeWhile_append2 takeWhile_tail)

text \<open>Decimal digits, as \<^verbatim>\<open>%u\<close> and \<^verbatim>\<open>%d\<close> print a non-negative value.\<close>

fun dec :: "nat \<Rightarrow> bytes" where
  "dec n = (if n < 10 then [of_nat (48 + n)] else dec (n div 10) @ [of_nat (48 + n mod 10)])"

declare dec.simps [simp del]

definition digit_val :: "u8 \<Rightarrow> nat" where
  "digit_val b = unat b - 48"

definition undec :: "bytes \<Rightarrow> nat" where
  "undec s = foldl (\<lambda>a b. a * 10 + digit_val b) 0 s"

lemma unat_digit: "d < 10 \<Longrightarrow> unat (of_nat (48 + d) :: u8) = 48 + d"
  by (simp only: unat_of_nat) simp

lemma digit_val_of_nat [simp]: "d < 10 \<Longrightarrow> digit_val (of_nat (48 + d)) = d"
  by (simp only: digit_val_def unat_digit)

lemma undec_dec [simp]: "undec (dec n) = n"
proof (induction n rule: dec.induct)
  case (1 n)
  then show ?case
    by (subst dec.simps) (simp add: undec_def del: of_nat_add)
qed

lemma dec_inject [simp]: "dec m = dec n \<longleftrightarrow> m = n"
  by (metis undec_dec)

lemma dec_digits: "b \<in> set (dec n) \<Longrightarrow> 48 \<le> b \<and> b \<le> 57"
proof (induction n rule: dec.induct)
  case (1 n)
  have "48 \<le> (of_nat (48 + d) :: u8) \<and> (of_nat (48 + d) :: u8) \<le> 57" if "d < 10" for d
    using unat_digit [OF that] that by (simp add: word_le_nat_alt del: of_nat_add)
  from this [of n] this [of "n mod 10"] 1 show ?case
    by (subst (asm) (2) dec.simps) (auto split: if_splits simp del: of_nat_add)
qed

lemma dec_nonempty: "dec n \<noteq> []"
  by (subst dec.simps) simp

end
