(* ===== verification/Endpoint.thy ===== *)
theory Endpoint
  imports Bytes
begin

text \<open>
  Network endpoints, \<^verbatim>\<open>src/Endpoint.c\<close>. \<^verbatim>\<open>rawr_Endpoint\<close> is a union of the IPv4 and the IPv6 socket
  address, so an endpoint is modelled as the 28 bytes of the union, with the layout of a
  little-endian POSIX host: family at 0, port at 2; IPv4 address at 4 and padding from 8; IPv6 flow
  information at 4, address at 8 and scope at 24. The family and port accessors are shown to be
  well-behaved fields; \<^verbatim>\<open>inet_ntop\<close> and the hash of aws-c-common are arguments.
\<close>

section \<open>Operations\<close>

type_synonym rawr_Endpoint = bytes

definition rawr_SockAF_IPv4 :: u16 where "rawr_SockAF_IPv4 = 2"
definition rawr_SockAF_IPv6 :: u16 where "rawr_SockAF_IPv6 = 10"
definition sizeof_SockAddr4 :: nat where "sizeof_SockAddr4 = 16"
definition sizeof_SockAddr6 :: nat where "sizeof_SockAddr6 = 28"

lemmas endpoint_consts [rawr_defs] =
  rawr_SockAF_IPv4_def rawr_SockAF_IPv6_def sizeof_SockAddr4_def sizeof_SockAddr6_def

definition rawr_Endpoint_AF :: "rawr_Endpoint \<Rightarrow> u16" where
  "rawr_Endpoint_AF ep = ld16 ep 0"

definition rawr_Endpoint_SetAF :: "rawr_Endpoint \<Rightarrow> u16 \<Rightarrow> rawr_Endpoint" where
  "rawr_Endpoint_SetAF ep af = st16 ep 0 af"

definition rawr_Endpoint_SockAddr :: "rawr_Endpoint \<Rightarrow> bytes" where
  "rawr_Endpoint_SockAddr ep = ep"

definition rawr_Endpoint_SetSockAddr :: "rawr_Endpoint \<Rightarrow> bytes \<Rightarrow> (rawr_Endpoint \<times> int) option" where
  "rawr_Endpoint_SetSockAddr ep sockaddr =
     mem_read sockaddr 0 2 \<bind> (\<lambda>fam.
     if le16_of fam = rawr_SockAF_IPv4 then do {
       src \<leftarrow> mem_read sockaddr 0 sizeof_SockAddr4;
       ep \<leftarrow> mem_write ep 0 src;
       Some (ep, rawr_Success)
     } else if le16_of fam = rawr_SockAF_IPv6 then do {
       src \<leftarrow> mem_read sockaddr 0 sizeof_SockAddr6;
       ep \<leftarrow> mem_write ep 0 src;
       Some (ep, rawr_Success)
     } else Some (ep, rawr_Error))"

definition rawr_Endpoint_Port :: "rawr_Endpoint \<Rightarrow> u16" where
  "rawr_Endpoint_Port ep = ntohs (ld16 ep 2)"

definition rawr_Endpoint_SetPort :: "rawr_Endpoint \<Rightarrow> u16 \<Rightarrow> rawr_Endpoint" where
  "rawr_Endpoint_SetPort ep port = st16 ep 2 (htons port)"

definition rawr_Endpoint_SetShorts ::
  "rawr_Endpoint \<Rightarrow> u16 \<Rightarrow> u16 \<Rightarrow> u16 \<Rightarrow> u16 \<Rightarrow> u16 \<Rightarrow> u16 \<Rightarrow> u16 \<Rightarrow> u16 \<Rightarrow> u16 \<Rightarrow> rawr_Endpoint" where
  "rawr_Endpoint_SetShorts ep port s0 s1 s2 s3 s4 s5 s6 s7 =
     (let ep = rawr_Endpoint_SetAF ep rawr_SockAF_IPv6;
          ep = rawr_Endpoint_SetPort ep port;
          ep = st16 ep 8 (htons s0);
          ep = st16 ep 10 (htons s1);
          ep = st16 ep 12 (htons s2);
          ep = st16 ep 14 (htons s3);
          ep = st16 ep 16 (htons s4);
          ep = st16 ep 18 (htons s5);
          ep = st16 ep 20 (htons s6);
          ep = st16 ep 22 (htons s7)
      in ep)"

definition rawr_Endpoint_SetBytes :: "rawr_Endpoint \<Rightarrow> u8 \<Rightarrow> u8 \<Rightarrow> u8 \<Rightarrow> u8 \<Rightarrow> u16 \<Rightarrow> rawr_Endpoint" where
  "rawr_Endpoint_SetBytes ep b0 b1 b2 b3 port =
     (let ep = rawr_Endpoint_SetAF ep rawr_SockAF_IPv4;
          ep = rawr_Endpoint_SetPort ep port;
          ep = ep[4 := b0];
          ep = ep[5 := b1];
          ep = ep[6 := b2];
          ep = ep[7 := b3]
      in ep)"

definition rawr_Endpoint_B0 :: "rawr_Endpoint \<Rightarrow> u8" where "rawr_Endpoint_B0 ep = ep ! 4"
definition rawr_Endpoint_B1 :: "rawr_Endpoint \<Rightarrow> u8" where "rawr_Endpoint_B1 ep = ep ! 5"
definition rawr_Endpoint_B2 :: "rawr_Endpoint \<Rightarrow> u8" where "rawr_Endpoint_B2 ep = ep ! 6"
definition rawr_Endpoint_B3 :: "rawr_Endpoint \<Rightarrow> u8" where "rawr_Endpoint_B3 ep = ep ! 7"

definition rawr_Endpoint_Is4 :: "rawr_Endpoint \<Rightarrow> bool" where
  "rawr_Endpoint_Is4 ep \<longleftrightarrow> rawr_Endpoint_AF ep = rawr_SockAF_IPv4"

definition rawr_Endpoint_Is6 :: "rawr_Endpoint \<Rightarrow> bool" where
  "rawr_Endpoint_Is6 ep \<longleftrightarrow> rawr_Endpoint_AF ep = rawr_SockAF_IPv6"

text \<open>The dotted quad of \<^verbatim>\<open>"%u.%u.%u.%u"\<close>; 46 is the dot.\<close>

definition dotted :: "u8 \<Rightarrow> u8 \<Rightarrow> u8 \<Rightarrow> u8 \<Rightarrow> bytes" where
  "dotted b0 b1 b2 b3 =
     dec (unat b0) @ [46] @ dec (unat b1) @ [46] @ dec (unat b2) @ [46] @ dec (unat b3)"

text \<open>
  The result, the port and the client's object \<open>buf\<close> after the call. \<open>inet_ntop6\<close> prints the 16
  bytes at the pointer it is given; the code gives it the endpoint itself. \<^verbatim>\<open>sprintf\<close> into \<open>buf\<close> is
  not bounded by \<open>buf_len\<close>.
\<close>

definition rawr_Endpoint_String ::
  "(bytes \<Rightarrow> bytes) \<Rightarrow> rawr_Endpoint \<Rightarrow> bytes \<Rightarrow> int \<Rightarrow> (int \<times> u16 \<times> bytes) option" where
  "rawr_Endpoint_String inet_ntop6 ep buf buf_len = do {
     guard (0 \<le> buf_len);
     buf \<leftarrow> mem_write buf 0 (replicate (nat buf_len) 0);
     if rawr_Endpoint_Is6 ep then do {
       src \<leftarrow> mem_read ep 0 16;
       buf \<leftarrow> mem_write buf 0 (take 254 (inet_ntop6 src) @ [0]);
       Some (rawr_Success, ntohs (ld16 ep 2), buf)
     } else if rawr_Endpoint_Is4 ep then do {
       buf \<leftarrow> mem_write buf 0
         (take 254 (dotted (rawr_Endpoint_B0 ep) (rawr_Endpoint_B1 ep) (rawr_Endpoint_B2 ep) (rawr_Endpoint_B3 ep)) @ [0]);
       Some (rawr_Success, ntohs (ld16 ep 2), buf)
     } else Some (rawr_Error, 0, buf)
   }"

definition rawr_Endpoint_In4 :: "rawr_Endpoint \<Rightarrow> u32 \<Rightarrow> int \<times> u32" where
  "rawr_Endpoint_In4 ep out_in4 =
     (if \<not> rawr_Endpoint_Is4 ep then (rawr_Error, out_in4)
      else (rawr_Success, ntohl (ld32 ep 4)))"

definition rawr_Endpoint_SetIn4 :: "rawr_Endpoint \<Rightarrow> u32 \<Rightarrow> rawr_Endpoint" where
  "rawr_Endpoint_SetIn4 ep in4 =
     (if \<not> rawr_Endpoint_Is4 ep then ep else st32 ep 4 (htonl in4))"

definition rawr_Endpoint_Size :: "rawr_Endpoint \<Rightarrow> int" where
  "rawr_Endpoint_Size ep =
     (if rawr_Endpoint_Is4 ep then int sizeof_SockAddr4
      else if rawr_Endpoint_Is6 ep then int sizeof_SockAddr6
      else rawr_Error)"

definition rawr_Endpoint_IsEqual :: "rawr_Endpoint \<Rightarrow> bytes \<Rightarrow> bool" where
  "rawr_Endpoint_IsEqual ep addr =
     (if rawr_Endpoint_AF addr \<noteq> rawr_Endpoint_AF ep then False
      else if rawr_Endpoint_Is6 addr then take sizeof_SockAddr6 ep = take sizeof_SockAddr6 addr
      else if rawr_Endpoint_Is4 addr then
        (if ld32 addr 4 \<noteq> ld32 ep 4 then False
         else if ld16 addr 2 \<noteq> ld16 ep 2 then False
         else True)
      else False)"

definition rawr_Endpoint_Hash :: "(bytes \<Rightarrow> u64) \<Rightarrow> rawr_Endpoint \<Rightarrow> int \<times> u64" where
  "rawr_Endpoint_Hash hash_cursor ep =
     (if rawr_Endpoint_Is4 ep then (rawr_Success, hash_cursor (take sizeof_SockAddr6 ep))
      else if rawr_Endpoint_Is6 ep then
        (let out_hash = 0 AND ucast (ld16 ep 2);
             out_hash = push_bit 32 out_hash;
             out_hash = out_hash OR ucast (ld32 ep 4)
         in (rawr_Success, out_hash))
      else (rawr_Error, 0))"

section \<open>Fields\<close>

definition ep_ok :: "rawr_Endpoint \<Rightarrow> bool" where
  "ep_ok ep \<longleftrightarrow> length ep = sizeof_SockAddr6"

text \<open>A field of an object: what is put is what is got, and putting changes nothing else twice.\<close>

locale field =
  fixes ok :: "'s \<Rightarrow> bool" and get :: "'s \<Rightarrow> 'v" and put :: "'s \<Rightarrow> 'v \<Rightarrow> 's"
  assumes put_ok: "ok s \<Longrightarrow> ok (put s v)"
    and get_put: "ok s \<Longrightarrow> get (put s v) = v"
    and put_get: "ok s \<Longrightarrow> put s (get s) = s"
    and put_put: "ok s \<Longrightarrow> put (put s v) w = put s w"
begin

lemma put_inject: "ok s \<Longrightarrow> put s v = put s w \<longleftrightarrow> v = w"
  by (metis get_put)

lemma put_same: "ok s \<Longrightarrow> put s v = s \<longleftrightarrow> get s = v"
  by (metis get_put put_get)

end

text \<open>Two fields that do not overlap.\<close>

locale two_fields = fst_field: field ok get put + snd_field: field ok get' put'
  for ok :: "'s \<Rightarrow> bool" and get :: "'s \<Rightarrow> 'v" and put :: "'s \<Rightarrow> 'v \<Rightarrow> 's"
    and get' :: "'s \<Rightarrow> 'w" and put' :: "'s \<Rightarrow> 'w \<Rightarrow> 's" +
  assumes get_put': "ok s \<Longrightarrow> get (put' s w) = get s"
    and get'_put: "ok s \<Longrightarrow> get' (put s v) = get' s"
begin

lemma both_put: "ok s \<Longrightarrow> get (put' (put s v) w) = v \<and> get' (put' (put s v) w) = w"
  by (simp add: fst_field.get_put fst_field.put_ok get_put' snd_field.get_put)

lemma both_put': "ok s \<Longrightarrow> get (put (put' s w) v) = v \<and> get' (put (put' s w) v) = w"
  by (simp add: snd_field.get_put snd_field.put_ok get'_put fst_field.get_put)

end

lemma patch_patch_same:
  "length bs = length cs \<Longrightarrow> off + length bs \<le> length m \<Longrightarrow> patch (patch m off bs) off cs = patch m off cs"
  by (simp add: patch_def)

lemma patch_self: "n = length (take n (drop off m)) \<Longrightarrow> patch m off (take n (drop off m)) = m"
  by (simp add: patch_def) (metis append_take_drop_id drop_drop add.commute min_def)

lemma ep_okD: "ep_ok ep \<Longrightarrow> length ep = 28"
  by (simp add: ep_ok_def sizeof_SockAddr6_def)

lemmas ep_accessors = rawr_Endpoint_AF_def rawr_Endpoint_SetAF_def rawr_Endpoint_Port_def
  rawr_Endpoint_SetPort_def

lemma st16_st16: "off + 2 \<le> length m \<Longrightarrow> st16 (st16 m off v) off w = st16 m off w"
  by (simp add: st16_def patch_patch_same)

lemma st16_ld16: "off + 2 \<le> length m \<Longrightarrow> st16 m off (ld16 m off) = m"
  by (simp add: st16_def ld16_def patch_self)

lemma ld16_st16_other: "off + 2 \<le> length m \<Longrightarrow> off' + 2 \<le> off \<or> off + 2 \<le> off' \<Longrightarrow> ld16 (st16 m off w) off' = ld16 m off'"
  by (intro ld_cong) (simp add: mem_simps)

interpretation ep_fields: two_fields ep_ok rawr_Endpoint_AF rawr_Endpoint_SetAF rawr_Endpoint_Port rawr_Endpoint_SetPort
proof unfold_locales
qed (auto simp: ep_accessors ep_ok_def sizeof_SockAddr6_def mem_simps st16_st16 st16_ld16 ld16_st16_other)

section \<open>IPv4\<close>

lemma SetBytes_nth:
  assumes "ep_ok ep"
  shows "length (rawr_Endpoint_SetBytes ep b0 b1 b2 b3 port) = 28"
    and "take 4 (rawr_Endpoint_SetBytes ep b0 b1 b2 b3 port) =
           take 4 (rawr_Endpoint_SetPort (rawr_Endpoint_SetAF ep rawr_SockAF_IPv4) port)"
    and "take 4 (drop 4 (rawr_Endpoint_SetBytes ep b0 b1 b2 b3 port)) = [b0, b1, b2, b3]"
    and "drop 8 (rawr_Endpoint_SetBytes ep b0 b1 b2 b3 port) = drop 8 ep"
proof -
  let ?ep = "rawr_Endpoint_SetPort (rawr_Endpoint_SetAF ep rawr_SockAF_IPv4) port"
  have len: "length ?ep = 28" using assms by (simp add: ep_accessors ep_okD)
  have def: "rawr_Endpoint_SetBytes ep b0 b1 b2 b3 port = ?ep[4 := b0, 5 := b1, 6 := b2, 7 := b3]"
    by (simp add: rawr_Endpoint_SetBytes_def Let_def)
  show "length (rawr_Endpoint_SetBytes ep b0 b1 b2 b3 port) = 28" by (simp add: def len)
  show "take 4 (rawr_Endpoint_SetBytes ep b0 b1 b2 b3 port) = take 4 ?ep" by (simp add: def)
  show "take 4 (drop 4 (rawr_Endpoint_SetBytes ep b0 b1 b2 b3 port)) = [b0, b1, b2, b3]"
    by (rule nth_equalityI) (auto simp: def len nth_Cons' nth_list_update less_Suc_eq numeral_eq_Suc)
  have "drop 8 ?ep = drop 8 ep"
    using assms by (simp add: ep_accessors st16_def patch_def ep_okD)
  then show "drop 8 (rawr_Endpoint_SetBytes ep b0 b1 b2 b3 port) = drop 8 ep"
    by (simp add: def drop_update_cancel)
qed

lemma AF_take4: "take 4 ep = take 4 ep' \<Longrightarrow> rawr_Endpoint_AF ep = rawr_Endpoint_AF ep'"
  unfolding rawr_Endpoint_AF_def by (rule ld_cong) (metis drop0 min_def numeral_le_iff semiring_norm(68,71) take_take)

lemma Port_take4: "take 4 ep = take 4 ep' \<Longrightarrow> rawr_Endpoint_Port ep = rawr_Endpoint_Port ep'"
  unfolding rawr_Endpoint_Port_def by (rule arg_cong [where f = ntohs], rule ld_cong) (simp add: take_drop)

lemma SetBytes_fields:
  assumes "ep_ok ep"
  shows "rawr_Endpoint_AF (rawr_Endpoint_SetBytes ep b0 b1 b2 b3 port) = rawr_SockAF_IPv4"
    and "rawr_Endpoint_Port (rawr_Endpoint_SetBytes ep b0 b1 b2 b3 port) = port"
  using AF_take4 [OF SetBytes_nth(2) [OF assms]] Port_take4 [OF SetBytes_nth(2) [OF assms]]
    ep_fields.both_put [OF assms] by simp_all

lemma addr_bytes: "length ep = 28 \<Longrightarrow>
  take 4 (drop 4 ep) = [rawr_Endpoint_B0 ep, rawr_Endpoint_B1 ep, rawr_Endpoint_B2 ep, rawr_Endpoint_B3 ep]"
  unfolding rawr_Endpoint_B0_def rawr_Endpoint_B1_def rawr_Endpoint_B2_def rawr_Endpoint_B3_def
  using length4 [of "take 4 (drop 4 ep)"] by simp

lemma ld32_addr_eq:
  assumes "length ep = 28" and "length ep' = 28"
  shows "ld32 ep 4 = ld32 ep' 4 \<longleftrightarrow> take 4 (drop 4 ep) = take 4 (drop 4 ep')"
proof -
  have "le32 (ld32 ep 4) = take 4 (drop 4 ep)" "le32 (ld32 ep' 4) = take 4 (drop 4 ep')"
    using assms by (simp_all add: ld32_def)
  then show ?thesis by (metis le32_inject)
qed

lemma head_bytes:
  assumes "ep_ok ep"
  shows "take 8 ep = le16 (ld16 ep 0) @ le16 (ld16 ep 2) @ le32 (ld32 ep 4)"
proof -
  have "take 8 ep = take 2 ep @ take 2 (drop 2 ep) @ take 4 (drop 4 ep)"
    using take_add [of 2 "2 + 4" ep] take_add [of 2 4 "drop 2 ep"] by simp
  then show ?thesis using ep_okD [OF assms] by (simp add: ld16_def ld32_def)
qed

section \<open>Text form\<close>

lemma split_sep:
  "c \<notin> set xs \<Longrightarrow> c \<notin> set ys \<Longrightarrow> xs @ c # r = ys @ c # r' \<longleftrightarrow> xs = ys \<and> r = r'"
proof (induction xs arbitrary: ys)
  case Nil
  then show ?case by (cases ys) auto
next
  case (Cons x xs)
  then show ?case by (cases ys) auto
qed

lemma dot_notin_dec [simp]: "46 \<notin> set (dec n)"
  using dec_digits [of 46 n] by auto

lemma zero_notin_dec [simp]: "0 \<notin> set (dec n)"
  using dec_digits [of 0 n] by auto

lemma dotted_inject:
  "dotted a b c d = dotted a' b' c' d' \<longleftrightarrow> a = a' \<and> b = b' \<and> c = c' \<and> d = d'"
  by (simp add: dotted_def split_sep word_unat_eq_iff)

lemma length_dec: "n < 256 \<Longrightarrow> length (dec n) \<le> 3"
  by (subst dec.simps, subst dec.simps, subst dec.simps) auto

lemma dotted_text: "length (dotted a b c d) \<le> 15" "0 \<notin> set (dotted a b c d)"
proof -
  have "unat x < 256" for x :: u8 using unsigned_less [of x] by simp
  from this [of a] this [of b] this [of c] this [of d] show "length (dotted a b c d) \<le> 15"
    using length_dec [of "unat a"] length_dec [of "unat b"] length_dec [of "unat c"] length_dec [of "unat d"]
    by (simp add: dotted_def)
qed (simp add: dotted_def)

lemma not_Is6_if_Is4: "rawr_Endpoint_Is4 ep \<Longrightarrow> \<not> rawr_Endpoint_Is6 ep"
  by (simp add: rawr_Endpoint_Is4_def rawr_Endpoint_Is6_def rawr_defs)

lemma String_IPv4:
  assumes "rawr_Endpoint_Is4 ep" and "16 \<le> length buf" and "0 \<le> len" and "nat len \<le> length buf"
  defines "s \<equiv> dotted (rawr_Endpoint_B0 ep) (rawr_Endpoint_B1 ep) (rawr_Endpoint_B2 ep) (rawr_Endpoint_B3 ep)"
  obtains buf' where "rawr_Endpoint_String ntop ep buf len = Some (rawr_Success, rawr_Endpoint_Port ep, buf')"
    and "cstr buf' = Some s"
proof -
  have s: "length s \<le> 15" "0 \<notin> set s" unfolding s_def by (rule dotted_text)+
  let ?b = "patch buf 0 (replicate (nat len) 0)"
  have "rawr_Endpoint_String ntop ep buf len = Some (rawr_Success, rawr_Endpoint_Port ep, patch ?b 0 (s @ [0]))"
    using assms(1-4) s(1)
    by (simp add: rawr_Endpoint_String_def mem_simps not_Is6_if_Is4 rawr_Endpoint_Port_def flip: s_def)
  moreover have "cstr (patch ?b 0 (s @ [0])) = Some s"
    using s(2) by (simp add: patch_def)
  ultimately show ?thesis by (rule that)
qed

section \<open>Copying a socket address\<close>

lemma Endpoint_SetSockAddr_cases:
  assumes "ep_ok ep" and "28 \<le> length sa"
  shows "\<exists>ep' r. rawr_Endpoint_SetSockAddr ep sa = Some (ep', r) \<and> ep_ok ep'
     \<and> (if rawr_Endpoint_Is4 sa \<or> rawr_Endpoint_Is6 sa
        then r = rawr_Success \<and> rawr_Endpoint_IsEqual ep' sa
        else r = rawr_Error \<and> ep' = ep)"
proof -
  note len = ep_okD [OF assms(1)]
  have fam: "le16_of (take 2 sa) = rawr_Endpoint_AF sa" by (simp add: rawr_Endpoint_AF_def ld16_def)
  consider (four) "rawr_Endpoint_Is4 sa" | (six) "rawr_Endpoint_Is6 sa"
    | (other) "\<not> rawr_Endpoint_Is4 sa" "\<not> rawr_Endpoint_Is6 sa" by blast
  then show ?thesis
  proof cases
    case four
    let ?ep = "take 16 sa @ drop 16 ep"
    have "rawr_Endpoint_AF ?ep = rawr_Endpoint_AF sa" "ld16 ?ep 2 = ld16 sa 2" "ld32 ?ep 4 = ld32 sa 4"
      using assms(2) by (auto simp: rawr_Endpoint_AF_def intro!: ld_cong simp: take_drop)
    then show ?thesis
      using four assms(2) len not_Is6_if_Is4 [OF four]
      by (simp add: rawr_Endpoint_SetSockAddr_def mem_simps fam rawr_Endpoint_IsEqual_def ep_ok_def
          sizeof_SockAddr4_def sizeof_SockAddr6_def patch_def) (simp add: rawr_Endpoint_Is4_def)
  next
    case six
    have "rawr_Endpoint_AF (take 28 sa) = rawr_Endpoint_AF sa"
      by (simp add: rawr_Endpoint_AF_def ld16_def)
    then show ?thesis
      using six assms(2) len
      by (auto simp: rawr_Endpoint_SetSockAddr_def mem_simps fam rawr_Endpoint_IsEqual_def ep_ok_def
          sizeof_SockAddr4_def sizeof_SockAddr6_def patch_def rawr_Endpoint_Is6_def
          rawr_SockAF_IPv4_def rawr_SockAF_IPv6_def)
  next
    case other
    then show ?thesis
      using assms by (simp add: rawr_Endpoint_SetSockAddr_def mem_simps fam rawr_Endpoint_Is4_def rawr_Endpoint_Is6_def)
  qed
qed

section \<open>Properties\<close>

text \<open>
  An endpoint set from four address bytes and a port is an IPv4 endpoint, and every observer
  returns what was set; the address as an integer has the first byte on top.
\<close>

lemma Endpoint_SetBytes_observed:
  assumes "ep_ok ep" and "ep' = rawr_Endpoint_SetBytes ep b0 b1 b2 b3 port"
  shows "ep_ok ep' \<and> rawr_Endpoint_Is4 ep' \<and> rawr_Endpoint_Port ep' = port
     \<and> rawr_Endpoint_B0 ep' = b0 \<and> rawr_Endpoint_B1 ep' = b1 \<and> rawr_Endpoint_B2 ep' = b2 \<and> rawr_Endpoint_B3 ep' = b3
     \<and> rawr_Endpoint_In4 ep' x = (rawr_Success, be32_of [b0, b1, b2, b3]) \<and> rawr_Endpoint_Size ep' = 16"
proof -
  have len: "length ep' = 28" and addr: "take 4 (drop 4 ep') = [b0, b1, b2, b3]"
    using SetBytes_nth [OF assms(1)] by (simp_all add: assms(2))
  have is4: "rawr_Endpoint_Is4 ep'" and port: "rawr_Endpoint_Port ep' = port"
    using SetBytes_fields [OF assms(1)] by (simp_all add: assms(2) rawr_Endpoint_Is4_def)
  have "ntohl (ld32 ep' 4) = be32_of [b0, b1, b2, b3]"
    by (simp add: ld32_def addr be32_of_def bswap32_def)
  then show ?thesis
    using len is4 port addr_bytes [OF len] addr
    by (simp add: ep_ok_def rawr_Endpoint_In4_def rawr_Endpoint_Size_def rawr_defs)
qed

text \<open>
  Setting an endpoint from a socket address takes it over for IPv4 and IPv6, after which the
  endpoint equals that address; for any other family the call fails and the endpoint is unchanged.
\<close>

lemma Endpoint_SetSockAddr_equal:
  assumes "ep_ok ep" and "28 \<le> length sa"
  shows "\<exists>ep' r. rawr_Endpoint_SetSockAddr ep sa = Some (ep', r) \<and> ep_ok ep'
     \<and> (if rawr_Endpoint_Is4 sa \<or> rawr_Endpoint_Is6 sa
        then r = rawr_Success \<and> rawr_Endpoint_IsEqual ep' sa
        else r = rawr_Error \<and> ep' = ep)"
  by (rule Endpoint_SetSockAddr_cases [OF assms])

text \<open>
  (C33) The text form of an IPv4 endpoint fits in 16 bytes, and it identifies the endpoint: two
  IPv4 endpoints with the same text and port compare equal.
\<close>

theorem Endpoint_String_identifies:
  assumes "ep_ok ep" and "ep_ok ep'" and "rawr_Endpoint_Is4 ep" and "rawr_Endpoint_Is4 ep'" and "16 \<le> length buf"
  shows "\<exists>r. rawr_Endpoint_String ntop ep buf 16 = Some (rawr_Success, rawr_Endpoint_Port ep, r)
     \<and> (\<exists>r'. rawr_Endpoint_String ntop ep' buf 16 = Some (rawr_Success, rawr_Endpoint_Port ep', r')
     \<and> rawr_Endpoint_IsEqual ep ep' = (rawr_Endpoint_Port ep = rawr_Endpoint_Port ep' \<and> cstr r = cstr r'))"
proof -
  note len = ep_okD [OF assms(1)] ep_okD [OF assms(2)]
  obtain r where r: "rawr_Endpoint_String ntop ep buf 16 = Some (rawr_Success, rawr_Endpoint_Port ep, r)"
    "cstr r = Some (dotted (rawr_Endpoint_B0 ep) (rawr_Endpoint_B1 ep) (rawr_Endpoint_B2 ep) (rawr_Endpoint_B3 ep))"
    using String_IPv4 [OF assms(3,5), of 16 ntop] assms(5) by auto
  obtain r' where r': "rawr_Endpoint_String ntop ep' buf 16 = Some (rawr_Success, rawr_Endpoint_Port ep', r')"
    "cstr r' = Some (dotted (rawr_Endpoint_B0 ep') (rawr_Endpoint_B1 ep') (rawr_Endpoint_B2 ep') (rawr_Endpoint_B3 ep'))"
    using String_IPv4 [OF assms(4,5), of 16 ntop] assms(5) by auto
  have "ld16 ep' 2 = ld16 ep 2 \<longleftrightarrow> rawr_Endpoint_Port ep = rawr_Endpoint_Port ep'"
    unfolding rawr_Endpoint_Port_def by (metis bswap_bswap(1))
  moreover have "ld32 ep' 4 = ld32 ep 4 \<longleftrightarrow> cstr r = cstr r'"
    unfolding ld32_addr_eq [OF len(2,1)] addr_bytes [OF len(1)] addr_bytes [OF len(2)] r(2) r'(2)
    by (auto simp: dotted_inject)
  ultimately have "rawr_Endpoint_IsEqual ep ep' = (rawr_Endpoint_Port ep = rawr_Endpoint_Port ep' \<and> cstr r = cstr r')"
    using assms(3,4) not_Is6_if_Is4 [OF assms(4)] by (auto simp: rawr_Endpoint_IsEqual_def rawr_Endpoint_Is4_def)
  with r(1) r'(1) show ?thesis by blast
qed

theorem Endpoint_String_identifies_witness:
  "\<exists>r. rawr_Endpoint_String id (rawr_Endpoint_SetBytes (replicate 28 0) 10 0 0 1 5060) (replicate 16 0) 16 =
     Some (rawr_Success, rawr_Endpoint_Port (rawr_Endpoint_SetBytes (replicate 28 0) 10 0 0 1 5060), r)"
proof -
  have z: "ep_ok (replicate 28 0)" by (simp add: ep_ok_def rawr_defs)
  have ok: "ep_ok (rawr_Endpoint_SetBytes (replicate 28 0) 10 0 0 1 5060)"
    "rawr_Endpoint_Is4 (rawr_Endpoint_SetBytes (replicate 28 0) 10 0 0 1 5060)"
    using SetBytes_nth(1) [OF z] SetBytes_fields(1) [OF z]
    by (simp_all add: ep_ok_def rawr_Endpoint_Is4_def sizeof_SockAddr6_def)
  show ?thesis
    using Endpoint_String_identifies [OF ok(1) ok(1) ok(2) ok(2), of "replicate 16 0" id] by auto
qed

text \<open>
  (C34) The hash of an IPv6 endpoint is its flow information: two of them hash alike exactly when
  that agrees, whatever their addresses and ports are. Equal endpoints of either family hash
  alike when the bytes from offset 8 on agree, which equality does not check for IPv4.
\<close>

theorem Endpoint_Hash_input:
  assumes "ep_ok ep" and "ep_ok ep'"
  shows "(rawr_Endpoint_Is6 ep \<and> rawr_Endpoint_Is6 ep' \<longrightarrow>
            (rawr_Endpoint_Hash h ep = rawr_Endpoint_Hash h ep') = (ld32 ep 4 = ld32 ep' 4))
       \<and> (rawr_Endpoint_IsEqual ep ep' \<and> drop 8 ep = drop 8 ep' \<longrightarrow>
            rawr_Endpoint_Hash h ep = rawr_Endpoint_Hash h ep')"
proof (intro conjI impI; elim conjE)
  assume six: "rawr_Endpoint_Is6 ep" "rawr_Endpoint_Is6 ep'"
  have "\<not> rawr_Endpoint_Is4 e" if "rawr_Endpoint_Is6 e" for e using that not_Is6_if_Is4 by blast
  moreover have "(ucast x :: u64) = ucast y \<longleftrightarrow> x = y" for x y :: u32
    by (rule ucast_up_inject) simp
  ultimately show "(rawr_Endpoint_Hash h ep = rawr_Endpoint_Hash h ep') = (ld32 ep 4 = ld32 ep' 4)"
    using six by (simp add: rawr_Endpoint_Hash_def)
next
  assume eq: "rawr_Endpoint_IsEqual ep ep'" and tail: "drop 8 ep = drop 8 ep'"
  have "ep = ep'"
  proof (cases "rawr_Endpoint_Is4 ep'")
    case False
    then show ?thesis
      using assms eq by (auto simp: rawr_Endpoint_IsEqual_def ep_ok_def split: if_splits)
  next
    case True
    then have "ld16 ep 0 = ld16 ep' 0 \<and> ld16 ep 2 = ld16 ep' 2 \<and> ld32 ep 4 = ld32 ep' 4"
      using eq not_Is6_if_Is4 [OF True] by (simp add: rawr_Endpoint_IsEqual_def rawr_Endpoint_AF_def split: if_splits)
    then have "take 8 ep = take 8 ep'" using head_bytes [OF assms(1)] head_bytes [OF assms(2)] by simp
    then show ?thesis using tail by (metis append_take_drop_id)
  qed
  then show "rawr_Endpoint_Hash h ep = rawr_Endpoint_Hash h ep'" by simp
qed

theorem Endpoint_Hash_input_witness:
  "rawr_Endpoint_Hash (\<lambda>bs. of_nat (length bs)) ([10, 0] @ replicate 26 0) =
   rawr_Endpoint_Hash (\<lambda>bs. of_nat (length bs)) ([10, 0] @ replicate 6 0 @ replicate 20 1)"
proof -
  let ?a = "[10, 0] @ replicate 26 0 :: bytes" and ?b = "[10, 0] @ replicate 6 0 @ replicate 20 1 :: bytes"
  have "ep_ok ?a" "ep_ok ?b" "rawr_Endpoint_Is6 ?a" "rawr_Endpoint_Is6 ?b"
    by (simp_all add: ep_ok_def rawr_Endpoint_Is6_def rawr_Endpoint_AF_def ld16_def le16_of_def rawr_defs)
  moreover have "ld32 ?a 4 = ld32 ?b 4" by (simp add: ld32_def numeral_eq_Suc)
  ultimately show ?thesis using Endpoint_Hash_input by blast
qed

end
