(* ===== verification/AudioApi.thy ===== *)
theory AudioApi
  imports RingBuffer
begin

text \<open>
  What \<^verbatim>\<open>rawr/Audio.h\<close> promises its clients about the samples of a stream, whichever back end
  implements it: reads and writes move whole frames of 16-bit samples in order, or nothing.
  \<open>AudioStream\<close> and \<open>AudioPS5\<close> interpret the contract, \<open>Call\<close> relies on it.
\<close>

text \<open>A client that fetches up to \<open>k\<close> frames, stopping at the first empty read.\<close>

fun fetch :: "('s \<Rightarrow> bytes \<Rightarrow> ('s \<times> bytes \<times> size_t) option) \<Rightarrow> bytes \<Rightarrow> nat \<Rightarrow> 's \<Rightarrow> ('s \<times> bytes list) option" where
  "fetch rd buf 0 s = Some (s, [])"
| "fetch rd buf (Suc k) s =
     (case rd s buf of None \<Rightarrow> None
      | Some (s', out, n) \<Rightarrow>
          if n = 0 then Some (s', [])
          else map_option (\<lambda>(s'', outs). (s'', out # outs)) (fetch rd buf k s'))"

locale audio_stream_api =
  fixes ok :: "nat \<Rightarrow> 's \<Rightarrow> bool"
    and frame :: "'s \<Rightarrow> nat"
    and queued :: "'s \<Rightarrow> bytes list"
    and captured :: "'s \<Rightarrow> bytes list"
    and sread :: "'s \<Rightarrow> bytes \<Rightarrow> ('s \<times> bytes \<times> size_t) option"
    and swrite :: "'s \<Rightarrow> bytes \<Rightarrow> ('s \<times> size_t) option"
  assumes frame_range: "ok cap s \<Longrightarrow> 0 < frame s \<and> frame s < 2 ^ 31"
    and read_law: "ok cap s \<Longrightarrow>
      (if length (captured s) < frame s then sread s buf = Some (s, buf, 0)
       else if frame s * 2 \<le> length buf
       then \<exists>s'. sread s buf = Some (s', concat (take (frame s) (captured s)) @ drop (frame s * 2) buf, of_nat (frame s))
              \<and> ok cap s' \<and> captured s' = drop (frame s) (captured s) \<and> queued s' = queued s \<and> frame s' = frame s
       else sread s buf = None)"
    and write_law: "ok cap s \<Longrightarrow> frame s * 2 \<le> length buf \<Longrightarrow>
      (if cap - length (queued s) < frame s then swrite s buf = Some (s, 0)
       else \<exists>s'. swrite s buf = Some (s', of_nat (frame s)) \<and> ok cap s'
              \<and> queued s' = queued s @ elems 2 buf (frame s) \<and> captured s' = captured s \<and> frame s' = frame s)"
begin

lemma frame_nonzero: "ok cap s \<Longrightarrow> (of_nat (frame s) :: size_t) \<noteq> 0"
proof
  assume "ok cap s" and "(of_nat (frame s) :: size_t) = 0"
  then have "unat (of_nat (frame s) :: size_t) = 0" "0 < frame s" "frame s < 2 ^ 31"
    using frame_range [of cap s] by simp_all
  then show False by (simp add: unat_of_nat)
qed

text \<open>A read into a large enough buffer returns 0 exactly when less than a frame is there.\<close>

lemma read_zero_iff:
  assumes "ok cap s" and "frame s * 2 \<le> length buf" and "sread s buf = Some (s', out, n)"
  shows "n = 0 \<longleftrightarrow> length (captured s) < frame s"
  using read_law [OF assms(1), of buf] assms(2,3) frame_nonzero [OF assms(1)] by (auto split: if_splits)

lemma write_zero_iff:
  assumes "ok cap s" and "frame s * 2 \<le> length buf" and "swrite s buf = Some (s', n)"
  shows "n = 0 \<longleftrightarrow> cap - length (queued s) < frame s"
  using write_law [OF assms(1,2)] assms(3) frame_nonzero [OF assms(1)] by (auto split: if_splits)

text \<open>Fetching delivers the captured samples frame by frame, in order.\<close>

lemma fetch_frames:
  assumes "ok cap s" and "length buf = frame s * 2"
  shows "\<exists>s' outs. fetch sread buf k s = Some (s', outs) \<and> ok cap s' \<and> frame s' = frame s
     \<and> length outs = min k (length (captured s) div frame s)
     \<and> concat outs = concat (take (length outs * frame s) (captured s))
     \<and> captured s' = drop (length outs * frame s) (captured s)"
  using assms
proof (induction k arbitrary: s)
  case 0
  then show ?case by simp
next
  case (Suc k)
  have pos: "0 < frame s" using frame_range [OF Suc.prems(1)] by simp
  show ?case
  proof (cases "length (captured s) < frame s")
    case True
    then show ?thesis using read_law [OF Suc.prems(1), of buf] Suc.prems by simp
  next
    case False
    then obtain s1 where s1: "sread s buf = Some (s1, concat (take (frame s) (captured s)), of_nat (frame s))"
      "ok cap s1" "captured s1 = drop (frame s) (captured s)" "frame s1 = frame s"
      using read_law [OF Suc.prems(1), of buf] Suc.prems(2) by auto
    obtain s2 outs where s2: "fetch sread buf k s1 = Some (s2, outs)" "ok cap s2" "frame s2 = frame s"
      "length outs = min k (length (captured s1) div frame s)"
      "concat outs = concat (take (length outs * frame s) (captured s1))"
      "captured s2 = drop (length outs * frame s) (captured s1)"
      using Suc.IH [OF s1(2)] Suc.prems(2) s1(4) by auto
    have "length (captured s) div frame s = Suc (length (captured s1) div frame s)"
      using False pos s1(3) by (simp add: le_div_geq)
    then show ?thesis
      using s1 s2 frame_nonzero [OF Suc.prems(1)] by (simp add: take_add add.commute)
  qed
qed

end

end
