(* ===== verification/Util.thy ===== *)
theory Util
  imports Prelude
begin

text \<open>
  \<^verbatim>\<open>src/Util.c\<close>: rounding up to a power of two by smearing the highest bit. The audio stream
  sizes its ring buffers with it.
\<close>

section \<open>Operation\<close>

definition rawr_Util_NextPowerOf2 :: "u32 \<Rightarrow> u32" where
  "rawr_Util_NextPowerOf2 val =
     (let val = val - 1;
          val = drop_bit 1 val OR val;
          val = drop_bit 2 val OR val;
          val = drop_bit 4 val OR val;
          val = drop_bit 8 val OR val;
          val = drop_bit 16 val OR val
      in val + 1)"

section \<open>Smearing\<close>

text \<open>After the steps 1, 2, 4, ... a bit is set iff one of the bits in a window above it was.\<close>

definition smeared :: "nat \<Rightarrow> 'a :: len word \<Rightarrow> 'a word \<Rightarrow> bool" where
  "smeared w x y \<longleftrightarrow> (\<forall>n. bit y n \<longleftrightarrow> (\<exists>i<w. bit x (n + i)))"

lemma smeared_1: "smeared 1 x x"
  by (simp add: smeared_def)

lemma smeared_step:
  assumes "smeared w x y" and v: "v = w + w"
  shows "smeared v x (drop_bit w y OR y)"
  unfolding smeared_def v
proof (intro allI iffI)
  fix n assume "bit (drop_bit w y OR y) n"
  then have "bit y (n + w) \<or> bit y n" by (auto simp: bit_or_iff bit_drop_bit_eq add.commute)
  then show "\<exists>i<w + w. bit x (n + i)"
  proof
    assume "bit y (n + w)"
    then obtain i where "i < w" "bit x (n + w + i)" using assms by (auto simp: smeared_def)
    then show ?thesis by (intro exI [of _ "w + i"]) (simp add: add.assoc)
  next
    assume "bit y n"
    then obtain i where "i < w" "bit x (n + i)" using assms by (auto simp: smeared_def)
    then show ?thesis by (intro exI [of _ i]) simp
  qed
next
  fix n assume "\<exists>i<w + w. bit x (n + i)"
  then obtain i where i: "i < w + w" "bit x (n + i)" by blast
  show "bit (drop_bit w y OR y) n"
  proof (cases "i < w")
    case True
    with i assms have "bit y n" by (auto simp: smeared_def)
    then show ?thesis by (simp add: bit_or_iff)
  next
    case False
    with i have "i - w < w" "bit x (n + w + (i - w))" by (simp_all add: add.assoc)
    with assms have "bit y (n + w)" by (auto simp: smeared_def)
    then show ?thesis by (simp add: bit_or_iff bit_drop_bit_eq add.commute)
  qed
qed

lemma smeared_all:
  fixes x :: "'a :: len word"
  assumes "smeared LENGTH('a) x y"
  shows "bit y n \<longleftrightarrow> (\<exists>m\<ge>n. bit x m)"
proof
  assume "\<exists>m\<ge>n. bit x m"
  then obtain m where m: "n \<le> m" "bit x m" by blast
  then have "m < LENGTH('a)" using bit_imp_le_length [of x m] by simp
  with m show "bit y n" using assms by (auto simp: smeared_def intro!: exI [of _ "m - n"])
next
  assume "bit y n"
  then obtain i where "bit x (n + i)" using assms by (auto simp: smeared_def)
  then show "\<exists>m\<ge>n. bit x m" by (intro exI [of _ "n + i"]) simp
qed

lemma bit_top:
  fixes x :: "'a :: len word"
  assumes "m < LENGTH('a)" and "2 ^ m \<le> x" and "\<And>j. bit x j \<Longrightarrow> j \<le> m"
  shows "bit x m"
proof (rule ccontr)
  assume no: "\<not> bit x m"
  have "x = take_bit m x"
  proof (rule bit_eqI)
    fix j show "bit x j \<longleftrightarrow> bit (take_bit m x) j"
      using assms(3) [of j] no by (cases "j = m") (auto simp: bit_take_bit_iff)
  qed
  then have "unat x < 2 ^ m"
    by (metis take_bit_nat_less_exp unsigned_take_bit_eq)
  with assms(1,2) show False by (simp add: word_le_nat_alt unat_pow2)
qed

text \<open>The smeared word is the mask up to the highest bit, i.e.\ the smallest one that covers \<open>x\<close>.\<close>

lemma smeared_mask:
  fixes x :: "'a :: len word"
  assumes "smeared LENGTH('a) x y" and "x < 2 ^ k" and "k < LENGTH('a)" and "k = 0 \<or> 2 ^ (k - 1) \<le> x"
  shows "y = mask k"
proof (rule bit_word_eqI)
  fix n assume "n < LENGTH('a)"
  have below: "take_bit k x = x"
    using assms(2,3) by (simp add: word_unat_eq_iff unsigned_take_bit_eq word_less_nat_alt unat_pow2 take_bit_nat_eq_self)
  have hi: "m < k" if "bit x m" for m
    using that below by (metis bit_take_bit_iff)
  have top: "bit x (k - 1)" if "k \<noteq> 0"
    using assms(3,4) hi that by (intro bit_top) (auto dest: hi)
  have "(\<exists>m\<ge>n. bit x m) \<longleftrightarrow> n < k"
    using hi top by (metis Suc_leI diff_Suc_1 le_Suc_ex le_add1 leD less_le_trans linorder_not_le not_less_zero order_le_less_trans Suc_diff_1 gr_zeroI less_Suc_eq_le neq0_conv)
  then show "bit y n \<longleftrightarrow> bit (mask k :: 'a word) n"
    using smeared_all [OF assms(1)] assms(3) by (auto simp: bit_mask_iff)
qed

lemma NextPowerOf2_smeared:
  obtains y where "smeared 32 (val - 1) y" and "rawr_Util_NextPowerOf2 val = y + 1"
proof -
  note s2 = smeared_step [OF smeared_1 [of "val - 1"], of 2]
  note s4 = smeared_step [OF s2, of 4]
  note s8 = smeared_step [OF s4, of 8]
  note s16 = smeared_step [OF s8, of 16]
  note s32 = smeared_step [OF s16, of 32]
  show ?thesis by (rule that [OF s32]) (simp_all add: rawr_Util_NextPowerOf2_def Let_def)
qed

lemma smeared_next:
  fixes val :: "'a :: len word"
  assumes "smeared LENGTH('a) (val - 1) y" and "0 < val" and "val \<le> 2 ^ k" and "k < LENGTH('a)" and "k = 0 \<or> 2 ^ (k - 1) < val"
  shows "y + 1 = 2 ^ k"
proof -
  have pred: "unat (val - 1) = unat val - 1" "0 < unat val"
    using assms(2) unat_minus_one [of val] word_gt_0 [of val] by (auto simp: word_less_nat_alt)
  have "val - 1 < 2 ^ k"
    using pred assms(3,4) by (simp add: word_less_nat_alt word_le_nat_alt unat_pow2)
  moreover have "k = 0 \<or> 2 ^ (k - 1) \<le> val - 1"
    using pred assms(4,5) by (auto simp: word_less_nat_alt word_le_nat_alt unat_pow2)
  ultimately have "y = mask k" using smeared_mask [OF assms(1)] assms(4) by blast
  then show ?thesis by (simp add: mask_eq_exp_minus_1)
qed

lemma NextPowerOf2_eq:
  fixes val :: u32
  assumes "0 < val" and "val \<le> 2 ^ k" and "k < 32" and "k = 0 \<or> 2 ^ (k - 1) < val"
  shows "rawr_Util_NextPowerOf2 val = 2 ^ k"
proof -
  obtain y where "smeared 32 (val - 1) y" "rawr_Util_NextPowerOf2 val = y + 1" by (rule NextPowerOf2_smeared)
  then show ?thesis using smeared_next [of val y k] assms by simp
qed

lemma pow2_above:
  fixes n :: nat
  assumes "0 < n"
  obtains k where "n \<le> 2 ^ k" and "k = 0 \<or> 2 ^ (k - 1) < n"
proof -
  let ?k = "LEAST k. n \<le> 2 ^ k"
  have "n \<le> 2 ^ n" by (simp add: less_imp_le)
  then have "n \<le> 2 ^ ?k" by (rule LeastI)
  moreover have "?k = 0 \<or> 2 ^ (?k - 1) < n"
    using not_less_Least [of "?k - 1" "\<lambda>k. n \<le> 2 ^ k"] by (cases "?k = 0") auto
  ultimately show ?thesis by (rule that)
qed

lemma NextPowerOf2_cases:
  fixes val :: u32
  assumes "0 < val" and "val \<le> 2 ^ 31"
  obtains k where "k < 32" and "rawr_Util_NextPowerOf2 val = 2 ^ k" and "unat val \<le> 2 ^ k"
    and "\<And>j. unat val \<le> 2 ^ j \<Longrightarrow> k \<le> j"
proof -
  have pos: "0 < unat val" using assms(1) by (simp add: word_less_nat_alt)
  obtain k where k: "unat val \<le> 2 ^ k" "k = 0 \<or> 2 ^ (k - 1) < unat val"
    using pos by (rule pow2_above)
  have least: "k \<le> j" if "unat val \<le> 2 ^ j" for j
  proof (rule ccontr)
    assume "\<not> k \<le> j"
    then have "(2::nat) ^ j \<le> 2 ^ (k - 1)" by (intro power_increasing) auto
    also have "\<dots> < unat val" using k(2) \<open>\<not> k \<le> j\<close> by auto
    finally show False using that by simp
  qed
  have "unat val \<le> 2 ^ 31" using assms(2) unat_pow2 [of 31, where 'a = 32] by (simp add: word_le_nat_alt)
  then have "k < 32" using least [of 31] by simp
  moreover have "rawr_Util_NextPowerOf2 val = 2 ^ k"
    using assms(1) k \<open>k < 32\<close> by (intro NextPowerOf2_eq) (auto simp: word_less_nat_alt word_le_nat_alt unat_pow2)
  ultimately show ?thesis using k(1) least by (intro that) auto
qed

section \<open>Properties\<close>

text \<open>
  (C32) For every positive value up to 2 to the power of 31 the result is the least power of two
  that is not below the value.
\<close>

theorem NextPowerOf2_least:
  assumes "0 < val" and "val \<le> 2 ^ 31"
  shows "\<exists>k<32. rawr_Util_NextPowerOf2 val = 2 ^ k \<and> unat val \<le> 2 ^ k \<and> (\<forall>j. unat val \<le> 2 ^ j \<longrightarrow> k \<le> j)"
  using NextPowerOf2_cases [OF assms] by metis

theorem NextPowerOf2_least_witness:
  "\<exists>k<32. rawr_Util_NextPowerOf2 3840 = 2 ^ k \<and> 3840 \<le> (2::nat) ^ k"
  using NextPowerOf2_least [of 3840] by auto

text \<open>Zero and the values above 2 to the power of 31 wrap around to zero.\<close>

lemma NextPowerOf2_wraps:
  assumes "val = 0 \<or> 2 ^ 31 < val"
  shows "rawr_Util_NextPowerOf2 val = 0"
proof -
  obtain y where y: "smeared 32 (val - 1) y" "rawr_Util_NextPowerOf2 val = y + 1"
    by (rule NextPowerOf2_smeared)
  have "(2::u32) ^ 31 \<le> val - 1"
  proof (cases "val = 0")
    case False
    then show ?thesis using assms by (auto simp: word_le_nat_alt word_less_nat_alt unat_minus_one [OF False])
  qed simp
  then have "bit (val - 1) 31"
    using bit_imp_le_length [of "val - 1"] by (intro bit_top) fastforce+
  then have "bit y n" if "n < 32" for n
    using smeared_all [of "val - 1" y n] y(1) that \<open>bit (val - 1) 31\<close> by (auto intro!: exI [of _ 31])
  then have "y = -1" by (intro bit_word_eqI) simp
  then show ?thesis using y(2) by simp
qed

end
