(* ===== verification/Codec.thy ===== *)
theory Codec
  imports Prelude
begin

text \<open>
  The voice codec, \<^verbatim>\<open>src/Codec.c\<close>: frame sizes, set-up with its error paths, encoding and decoding.
  The Opus library is the record \<open>opus\<close> of its functions, an argument of every operation that
  calls it. A sample is 2 bytes of memory.
\<close>

section \<open>Data\<close>

definition RAWR_CODEC_OUTPUT_BYTES_MAX :: nat where "RAWR_CODEC_OUTPUT_BYTES_MAX = 1500"
definition sizeof_AudioSample :: nat where "sizeof_AudioSample = 2"
definition RAWR_CODEC_OUTPUT_SAMPLES_MAX :: nat where
  "RAWR_CODEC_OUTPUT_SAMPLES_MAX = RAWR_CODEC_OUTPUT_BYTES_MAX div sizeof_AudioSample"
definition RAWR_CODEC_INPUT_SAMPLES_MAX :: nat where "RAWR_CODEC_INPUT_SAMPLES_MAX = 5760"
definition RAWR_CODEC_INPUT_BYTES_MAX :: nat where
  "RAWR_CODEC_INPUT_BYTES_MAX = RAWR_CODEC_INPUT_SAMPLES_MAX * sizeof_AudioSample"

lemmas codec_consts [rawr_defs] = RAWR_CODEC_OUTPUT_BYTES_MAX_def sizeof_AudioSample_def
  RAWR_CODEC_OUTPUT_SAMPLES_MAX_def RAWR_CODEC_INPUT_SAMPLES_MAX_def RAWR_CODEC_INPUT_BYTES_MAX_def

datatype rawr_CodecType = rawr_CodecType_Encoder | rawr_CodecType_Decoder

datatype rawr_CodecRate = rawr_CodecRate_8k | rawr_CodecRate_16k | rawr_CodecRate_24k | rawr_CodecRate_48k

fun rate_val :: "rawr_CodecRate \<Rightarrow> int" where
  "rate_val rawr_CodecRate_8k = 8000"
| "rate_val rawr_CodecRate_16k = 16000"
| "rate_val rawr_CodecRate_24k = 24000"
| "rate_val rawr_CodecRate_48k = 48000"

datatype rawr_CodecTiming =
    rawr_CodecTiming_5ms | rawr_CodecTiming_10ms | rawr_CodecTiming_20ms | rawr_CodecTiming_40ms
  | rawr_CodecTiming_60ms | rawr_CodecTiming_80ms | rawr_CodecTiming_100ms | rawr_CodecTiming_120ms

fun timing_val :: "rawr_CodecTiming \<Rightarrow> int" where
  "timing_val rawr_CodecTiming_5ms = 5"
| "timing_val rawr_CodecTiming_10ms = 10"
| "timing_val rawr_CodecTiming_20ms = 20"
| "timing_val rawr_CodecTiming_40ms = 40"
| "timing_val rawr_CodecTiming_60ms = 60"
| "timing_val rawr_CodecTiming_80ms = 80"
| "timing_val rawr_CodecTiming_100ms = 100"
| "timing_val rawr_CodecTiming_120ms = 120"

record rawr_CodecConfig =
  application :: int
  bitrate :: int
  force_channel :: int
  vbr :: int
  vbr_constraint :: int
  complexity :: int
  max_bw :: int
  sig :: int
  inband_fec :: int
  pkt_loss :: int
  lsb_depth :: int
  pred_disabled :: int
  dtx :: int

text \<open>Constants of Opus the source names: \<^verbatim>\<open>OPUS_APPLICATION_VOIP\<close> 2048, \<^verbatim>\<open>OPUS_AUTO\<close> -1000,
  \<^verbatim>\<open>OPUS_BANDWIDTH_FULLBAND\<close> 1105, \<^verbatim>\<open>OPUS_SIGNAL_VOICE\<close> 3001, frame size codes from 5000 on.\<close>

definition codecConfig :: rawr_CodecConfig where
  "codecConfig = \<lparr>application = 2048, bitrate = -1000, force_channel = 1, vbr = 1, vbr_constraint = 1,
     complexity = 5, max_bw = 1105, sig = 3001, inband_fec = 0, pkt_loss = 5, lsb_depth = 8,
     pred_disabled = 0, dtx = 1\<rparr>"

datatype opus_ctl =
    OPUS_SET_BITRATE int | OPUS_SET_FORCE_CHANNELS int | OPUS_SET_VBR int | OPUS_SET_VBR_CONSTRAINT int
  | OPUS_SET_COMPLEXITY int | OPUS_SET_MAX_BANDWIDTH int | OPUS_SET_SIGNAL int | OPUS_SET_INBAND_FEC int
  | OPUS_SET_PACKET_LOSS_PERC int | OPUS_SET_LSB_DEPTH int | OPUS_SET_PREDICTION_DISABLED int
  | OPUS_SET_DTX int | OPUS_SET_EXPERT_FRAME_DURATION int

text \<open>The functions of the Opus library; an encoder or decoder is an abstract state, \<open>Inl\<close> is a
  negative result, and the data an encode or decode produces is \<open>Inr\<close>.\<close>

record ('e, 'd) opus =
  opus_encoder_create :: "int \<Rightarrow> int \<Rightarrow> int \<Rightarrow> 'e option \<times> int"
  opus_encoder_ctl :: "'e \<Rightarrow> opus_ctl \<Rightarrow> 'e \<times> int"
  opus_decoder_create :: "int \<Rightarrow> int \<Rightarrow> 'd option \<times> int"
  opus_encode :: "'e \<Rightarrow> bytes \<Rightarrow> int \<Rightarrow> nat \<Rightarrow> 'e \<times> (int + bytes)"
  opus_decode :: "'d \<Rightarrow> bytes \<Rightarrow> nat \<Rightarrow> int \<Rightarrow> 'd \<times> (int + bytes)"

definition OPUS_OK :: int where "OPUS_OK = 0"

record ('e, 'd) rawr_CodecPriv =
  opus_enc :: "'e option"
  opus_dec :: "'d option"

record ('e, 'd) rawr_Codec =
  codec_priv :: "('e, 'd) rawr_CodecPriv option"
  codec_config :: rawr_CodecConfig
  codec_type :: rawr_CodecType
  codec_sampleRate :: rawr_CodecRate
  codec_timing :: rawr_CodecTiming
  codec_frameSize :: int
  codec_frameSizeCode :: int

section \<open>Frame sizes\<close>

definition rawr_Codec_FrameSize :: "rawr_CodecRate \<Rightarrow> rawr_CodecTiming \<Rightarrow> int" where
  "rawr_Codec_FrameSize rate tm = timing_val tm * 2 * (rate_val rate div 2000)"

definition rawr_Codec_FrameSizeCode :: "rawr_CodecRate \<Rightarrow> int \<Rightarrow> int" where
  "rawr_Codec_FrameSizeCode rate sampleCount =
     (let sr = rate_val rate in
      if sampleCount = sr div 400 then 5001
      else if sampleCount = sr div 200 then 5002
      else if sampleCount = sr div 100 then 5003
      else if sampleCount = sr div 50 then 5004
      else if sampleCount = sr div 25 then 5005
      else if sampleCount = 3 * sr div 50 then 5006
      else if sampleCount = 4 * sr div 50 then 5007
      else if sampleCount = 5 * sr div 50 then 5008
      else if sampleCount = 6 * sr div 50 then 5009
      else 5000)"

section \<open>Set-up\<close>

text \<open>What the out-parameter of a set-up function refers to afterwards.\<close>

datatype 'a handle = Unset | Live 'a | Freed

fun opus_ctls :: "('e, 'd) opus \<Rightarrow> 'e \<Rightarrow> opus_ctl list \<Rightarrow> 'e option" where
  "opus_ctls op enc [] = Some enc"
| "opus_ctls op enc (c # cs) =
     (case opus_encoder_ctl op enc c of (enc, err) \<Rightarrow>
        if err \<noteq> OPUS_OK then None else opus_ctls op enc cs)"

definition encoder_ctls :: "int \<Rightarrow> opus_ctl list" where
  "encoder_ctls code =
     [OPUS_SET_BITRATE (bitrate codecConfig), OPUS_SET_FORCE_CHANNELS (force_channel codecConfig),
      OPUS_SET_VBR (vbr codecConfig), OPUS_SET_VBR_CONSTRAINT (vbr_constraint codecConfig),
      OPUS_SET_COMPLEXITY (complexity codecConfig), OPUS_SET_MAX_BANDWIDTH (max_bw codecConfig),
      OPUS_SET_SIGNAL (sig codecConfig), OPUS_SET_INBAND_FEC (inband_fec codecConfig),
      OPUS_SET_PACKET_LOSS_PERC (pkt_loss codecConfig), OPUS_SET_LSB_DEPTH (lsb_depth codecConfig),
      OPUS_SET_PREDICTION_DISABLED (pred_disabled codecConfig), OPUS_SET_DTX (dtx codecConfig),
      OPUS_SET_EXPERT_FRAME_DURATION code]"

text \<open>
  \<open>mem\<close> gives the outcome of the two allocations: \<open>None\<close> fails, \<open>Some junk\<close> succeeds with
  uninitialised memory. The result is what \<^verbatim>\<open>*out_codec\<close> refers to and the return code.
\<close>

definition rawr_Codec_Setup ::
  "('e, 'd) opus \<Rightarrow> ('e, 'd) rawr_Codec option \<Rightarrow> ('e, 'd) rawr_CodecPriv option \<Rightarrow>
   ('e, 'd) rawr_Codec handle \<Rightarrow> rawr_CodecType \<Rightarrow> rawr_CodecRate \<Rightarrow> rawr_CodecTiming \<Rightarrow>
   ('e, 'd) rawr_Codec handle \<times> int" where
  "rawr_Codec_Setup op mem_codec mem_priv out_codec ty rate tm =
     (case mem_codec of None \<Rightarrow> (out_codec, rawr_Error) | Some codec \<Rightarrow>
      (let codec = codec\<lparr>codec_type := ty, codec_sampleRate := rate\<rparr>;
           codec = codec\<lparr>codec_frameSize := rawr_Codec_FrameSize rate tm\<rparr>;
           codec = codec\<lparr>codec_frameSizeCode := rawr_Codec_FrameSizeCode rate (codec_frameSize codec)\<rparr>
       in case mem_priv of None \<Rightarrow> (Live codec, rawr_Error) | Some pr \<Rightarrow>
       (let pr = pr\<lparr>opus_dec := None, opus_enc := None\<rparr> in
        case codec_type codec of
          rawr_CodecType_Encoder \<Rightarrow>
            (case opus_encoder_create op (rate_val rate) (force_channel codecConfig) (application codecConfig) of
               (Some enc, err) \<Rightarrow>
                 if err \<noteq> OPUS_OK then (Freed, rawr_Error)
                 else (case opus_ctls op enc (encoder_ctls (codec_frameSizeCode codec)) of
                         None \<Rightarrow> (Freed, rawr_Error)
                       | Some enc \<Rightarrow> (Live (codec\<lparr>codec_priv := Some (pr\<lparr>opus_enc := Some enc\<rparr>)\<rparr>), rawr_Success))
             | (None, err) \<Rightarrow> (Freed, rawr_Error))
        | rawr_CodecType_Decoder \<Rightarrow>
            (case opus_decoder_create op (rate_val rate) (force_channel codecConfig) of
               (Some dec, err) \<Rightarrow>
                 if err \<noteq> OPUS_OK then (Freed, rawr_Error)
                 else (Live (codec\<lparr>codec_priv := Some (pr\<lparr>opus_dec := Some dec\<rparr>)\<rparr>), rawr_Success)
             | (None, err) \<Rightarrow> (Freed, rawr_Error)))))"

definition rawr_Codec_Priv :: "('e, 'd) rawr_Codec \<Rightarrow> ('e, 'd) rawr_CodecPriv option" where
  "rawr_Codec_Priv codec = codec_priv codec"

text \<open>Cleaning up destroys what exists; the two lists are the decoders and encoders destroyed.\<close>

definition rawr_Codec_Cleanup :: "('e, 'd) rawr_Codec handle \<Rightarrow> (('e, 'd) rawr_Codec handle \<times> 'd list \<times> 'e list) option" where
  "rawr_Codec_Cleanup h =
     (case h of
        Live codec \<Rightarrow>
          (case rawr_Codec_Priv codec of
             Some pr \<Rightarrow> Some (Freed, case opus_dec pr of Some d \<Rightarrow> [d] | None \<Rightarrow> [],
                                    case opus_enc pr of Some e \<Rightarrow> [e] | None \<Rightarrow> [])
           | None \<Rightarrow> None)
      | _ \<Rightarrow> None)"

section \<open>Encoding and decoding\<close>

text \<open>Opus reads one frame of samples from \<open>inBuffer\<close> and writes the packet to \<open>outBuffer\<close>.\<close>

definition rawr_Codec_Encode ::
  "('e, 'd) opus \<Rightarrow> ('e, 'd) rawr_Codec \<Rightarrow> bytes \<Rightarrow> bytes \<Rightarrow> (('e, 'd) rawr_Codec \<times> bytes \<times> int) option" where
  "rawr_Codec_Encode op codec inBuffer outBuffer = do {
     pr \<leftarrow> rawr_Codec_Priv codec;
     enc \<leftarrow> opus_enc pr;
     pcm \<leftarrow> mem_read inBuffer 0 (nat (codec_frameSize codec) * sizeof_AudioSample);
     (case opus_encode op enc pcm (codec_frameSize codec) RAWR_CODEC_OUTPUT_BYTES_MAX of
        (enc, Inr pkt) \<Rightarrow> do {
          outBuffer \<leftarrow> mem_write outBuffer 0 pkt;
          guard (length pkt \<le> RAWR_CODEC_OUTPUT_BYTES_MAX);
          Some (codec\<lparr>codec_priv := Some (pr\<lparr>opus_enc := Some enc\<rparr>)\<rparr>, outBuffer, int (length pkt))
        }
      | (enc, Inl err) \<Rightarrow> None)
   }"

text \<open>A negative length is a bad argument to Opus, whose negative result fails the assertion.\<close>

definition rawr_Codec_Decode ::
  "('e, 'd) opus \<Rightarrow> ('e, 'd) rawr_Codec \<Rightarrow> bytes \<Rightarrow> int \<Rightarrow> bytes \<Rightarrow> (('e, 'd) rawr_Codec \<times> bytes \<times> int) option" where
  "rawr_Codec_Decode op codec inBuffer byteLen outBuffer = do {
     pr \<leftarrow> rawr_Codec_Priv codec;
     dec \<leftarrow> opus_dec pr;
     guard (0 \<le> byteLen);
     pkt \<leftarrow> mem_read inBuffer 0 (nat byteLen);
     (case opus_decode op dec pkt RAWR_CODEC_INPUT_BYTES_MAX (inband_fec codecConfig) of
        (dec, Inr pcm) \<Rightarrow> do {
          outBuffer \<leftarrow> mem_write outBuffer 0 pcm;
          guard (int (length pcm div sizeof_AudioSample) = codec_frameSize codec);
          Some (codec\<lparr>codec_priv := Some (pr\<lparr>opus_dec := Some dec\<rparr>)\<rparr>, outBuffer, int (length pcm div sizeof_AudioSample))
        }
      | (dec, Inl err) \<Rightarrow> None)
   }"

section \<open>A well-formed codec\<close>

text \<open>A codec ready for use holds exactly the half its type asks for.\<close>

definition codec_ok :: "rawr_CodecType \<Rightarrow> rawr_CodecRate \<Rightarrow> rawr_CodecTiming \<Rightarrow> ('e, 'd) rawr_Codec \<Rightarrow> bool" where
  "codec_ok ty rate tm c \<longleftrightarrow> codec_type c = ty \<and> codec_frameSize c = rawr_Codec_FrameSize rate tm
     \<and> (\<exists>pr. codec_priv c = Some pr \<and>
          (case ty of rawr_CodecType_Encoder \<Rightarrow> opus_enc pr \<noteq> None \<and> opus_dec pr = None
           | rawr_CodecType_Decoder \<Rightarrow> opus_dec pr \<noteq> None \<and> opus_enc pr = None))"

lemma opus_ctls_ok:
  assumes "\<And>e c. snd (opus_encoder_ctl op e c) = OPUS_OK"
  shows "\<exists>enc'. opus_ctls op enc cs = Some enc'"
proof (induction cs arbitrary: enc)
  case (Cons c cs)
  then show ?case using assms [of enc c] by (cases "opus_encoder_ctl op enc c") simp
qed simp

lemma codec_ok_update:
  "codec_ok rawr_CodecType_Encoder rate tm c \<Longrightarrow> codec_priv c = Some pr \<Longrightarrow>
     codec_ok rawr_CodecType_Encoder rate tm (c\<lparr>codec_priv := Some (pr\<lparr>opus_enc := Some e\<rparr>)\<rparr>)"
  "codec_ok rawr_CodecType_Decoder rate tm c \<Longrightarrow> codec_priv c = Some pr \<Longrightarrow>
     codec_ok rawr_CodecType_Decoder rate tm (c\<lparr>codec_priv := Some (pr\<lparr>opus_dec := Some d\<rparr>)\<rparr>)"
  by (auto simp: codec_ok_def)

text \<open>Encoding and decoding keep the codec ready, and return a length within the bounds the callers rely on.\<close>

lemma Encode_keeps_ok:
  assumes "rawr_Codec_Encode op c inb out = Some (c', out', n)" and "codec_ok rawr_CodecType_Encoder rate tm c"
  shows "codec_ok rawr_CodecType_Encoder rate tm c' \<and> 0 \<le> n \<and> n \<le> int RAWR_CODEC_OUTPUT_BYTES_MAX"
  using assms
  by (auto simp: rawr_Codec_Encode_def rawr_Codec_Priv_def codec_ok_update
      split: bind_splits prod.splits sum.splits if_splits)

lemma Decode_keeps_ok:
  assumes "rawr_Codec_Decode op c inb len out = Some (c', out', n)" and "codec_ok rawr_CodecType_Decoder rate tm c"
  shows "codec_ok rawr_CodecType_Decoder rate tm c' \<and> n = rawr_Codec_FrameSize rate tm"
  using assms
  by (auto simp: rawr_Codec_Decode_def rawr_Codec_Priv_def codec_ok_update split: bind_splits prod.splits sum.splits if_splits)
    (simp add: codec_ok_def)

section \<open>Properties\<close>

text \<open>A concrete Opus whose packets are the first bytes of the frame.\<close>

definition demo_opus :: "(unit, unit) opus" where
  "demo_opus = \<lparr>opus_encoder_create = \<lambda>r ch app. (Some (), 0), opus_encoder_ctl = \<lambda>e c. (e, 0),
     opus_decoder_create = \<lambda>r ch. (Some (), 0), opus_encode = \<lambda>e pcm n mx. (e, Inr (take (min 3 mx) pcm)),
     opus_decode = \<lambda>d pkt n fec. (d, Inr (replicate 1920 0))\<rparr>"

definition demo_codec :: "(unit, unit) rawr_Codec" where
  "demo_codec = \<lparr>codec_priv = None, codec_config = codecConfig, codec_type = rawr_CodecType_Encoder, codec_sampleRate = rawr_CodecRate_48k,
     codec_timing = rawr_CodecTiming_20ms, codec_frameSize = 0, codec_frameSizeCode = 0\<rparr>"

text \<open>
  (C35) The frame size is the number of samples in the frame duration at the sample rate, it never
  exceeds the decoder's output buffer, and Opus is told the frame duration code of that duration.
\<close>

theorem Codec_frame_sizes:
  "rawr_Codec_FrameSize rate tm * 1000 = rate_val rate * timing_val tm
   \<and> rawr_Codec_FrameSize rate tm \<le> int RAWR_CODEC_INPUT_SAMPLES_MAX
   \<and> rawr_Codec_FrameSizeCode rate (rawr_Codec_FrameSize rate tm) =
       (case tm of rawr_CodecTiming_5ms \<Rightarrow> 5002 | rawr_CodecTiming_10ms \<Rightarrow> 5003
        | rawr_CodecTiming_20ms \<Rightarrow> 5004 | rawr_CodecTiming_40ms \<Rightarrow> 5005 | rawr_CodecTiming_60ms \<Rightarrow> 5006
        | rawr_CodecTiming_80ms \<Rightarrow> 5007 | rawr_CodecTiming_100ms \<Rightarrow> 5008 | rawr_CodecTiming_120ms \<Rightarrow> 5009)"
  by (cases rate; cases tm)
    (simp_all add: rawr_Codec_FrameSize_def rawr_Codec_FrameSizeCode_def rawr_defs)


end
