(* ===== verification/AudioStream.thy ===== *)
theory AudioStream
  imports Complex_Main AudioApi Util Codec Bytes
begin

text \<open>
  Audio on PortAudio, \<^verbatim>\<open>src/AudioPA.c\<close>: the device table, and streams whose two ring buffers sit
  between the device callback and the call. PortAudio is the record \<open>pa\<close> of its functions; the
  outcome of an allocation is an argument. Levels are computed in real arithmetic.
\<close>

section \<open>Devices\<close>

definition rawr_AudioRateList :: "int list" where
  "rawr_AudioRateList = [8000, 9600, 11025, 12000, 16000, 22050, 24000, 32000, 44100, 48000, 88200, 96000,
     192000, -1]"

record PaDeviceInfo =
  name :: string
  maxInputChannels :: int
  maxOutputChannels :: int
  defaultLowInputLatency :: real

record PaStreamParameters =
  device :: int
  channelCount :: int
  sampleFormat :: int
  suggestedLatency :: real

definition paInt16 :: int where "paInt16 = 8"

record pa =
  Pa_Initialize :: int
  Pa_Terminate :: int
  Pa_GetDeviceCount :: int
  Pa_GetDefaultInputDevice :: int
  Pa_GetDefaultOutputDevice :: int
  Pa_GetDeviceInfo :: "int \<Rightarrow> PaDeviceInfo"
  Pa_IsFormatSupported :: "PaStreamParameters option \<Rightarrow> PaStreamParameters option \<Rightarrow> int \<Rightarrow> bool"
  Pa_OpenStream :: "PaStreamParameters option \<Rightarrow> PaStreamParameters option \<Rightarrow> int \<Rightarrow> int \<Rightarrow> int"
  Pa_StartStream :: int
  Pa_StopStream :: int

definition rawr_AudioDeviceProps_Default :: u32 where "rawr_AudioDeviceProps_Default = 1"
definition rawr_AudioDeviceProps_Output :: u32 where "rawr_AudioDeviceProps_Output = 2"
definition rawr_AudioDeviceProps_Input :: u32 where "rawr_AudioDeviceProps_Input = 4"
definition rawr_AudioDeviceProps_OutputStereo :: u32 where "rawr_AudioDeviceProps_OutputStereo = 8"
definition rawr_AudioDeviceProps_InputStereo :: u32 where "rawr_AudioDeviceProps_InputStereo = 16"

lemmas props_defs = rawr_AudioDeviceProps_Default_def rawr_AudioDeviceProps_Output_def
  rawr_AudioDeviceProps_Input_def rawr_AudioDeviceProps_OutputStereo_def rawr_AudioDeviceProps_InputStereo_def

record rawr_AudioDevice =
  deviceInfo :: PaDeviceInfo
  dev_id :: int
  props :: u32
  rates :: u32

record rawr_AudioPrivate =
  initialized :: bool
  defaultInputId :: int
  defaultOutputId :: int
  deviceList :: "rawr_AudioDevice list"
  deviceCount :: int

definition audio_priv_zero :: rawr_AudioPrivate where
  "audio_priv_zero = \<lparr>initialized = False, defaultInputId = 0, defaultOutputId = 0, deviceList = [], deviceCount = 0\<rparr>"

text \<open>The body of the loop over the devices.\<close>

definition probe_rates :: "(int \<Rightarrow> bool) \<Rightarrow> u32" where
  "probe_rates supported =
     foldl (\<lambda>acc r. if supported (rawr_AudioRateList ! r) then acc OR push_bit r 1 else acc) 0
       [0..<length (takeWhile (\<lambda>x. x > 0) rawr_AudioRateList)]"

definition probe_params :: "int \<Rightarrow> int \<Rightarrow> PaStreamParameters option" where
  "probe_params d channels =
     (if channels \<le> 0 then None
      else Some \<lparr>device = d, channelCount = channels, sampleFormat = paInt16, suggestedLatency = 0\<rparr>)"

definition probe_device :: "pa \<Rightarrow> rawr_AudioPrivate \<Rightarrow> int \<Rightarrow> rawr_AudioDevice" where
  "probe_device p st d =
     (let info = Pa_GetDeviceInfo p d;
          pr = 0;
          pr = (if d = defaultInputId st \<or> d = defaultOutputId st then pr OR rawr_AudioDeviceProps_Default else pr);
          pr = (if maxInputChannels info > 0 then pr OR rawr_AudioDeviceProps_Input else pr);
          pr = (if maxInputChannels info > 1 then pr OR rawr_AudioDeviceProps_InputStereo else pr);
          pr = (if maxOutputChannels info > 0 then pr OR rawr_AudioDeviceProps_Output else pr);
          pr = (if maxOutputChannels info > 1 then pr OR rawr_AudioDeviceProps_OutputStereo else pr)
      in \<lparr>deviceInfo = info, dev_id = d, props = pr,
          rates = probe_rates (Pa_IsFormatSupported p (probe_params d (maxInputChannels info))
                                 (probe_params d (maxOutputChannels info)))\<rparr>)"

text \<open>The loop over the devices: those set up, and whether every allocation of the loop succeeded.\<close>

fun probe_devices :: "pa \<Rightarrow> (int \<Rightarrow> bool) \<Rightarrow> rawr_AudioPrivate \<Rightarrow> int list \<Rightarrow> rawr_AudioDevice list \<times> bool" where
  "probe_devices p mem_dev st [] = ([], True)"
| "probe_devices p mem_dev st (d # ds) =
     (if \<not> mem_dev d then ([], False)
      else (case probe_devices p mem_dev st ds of (devs, ok) \<Rightarrow> (probe_device p st d # devs, ok)))"

text \<open>
  \<open>err\<close> is the variable the cleanup branch returns: it holds the result of \<^verbatim>\<open>Pa_Initialize\<close>, which
  is zero on every later branch. When an allocation of the loop fails the list has the devices set up so far; the
  rest of its memory is uninitialised.
\<close>

definition rawr_Audio_Setup ::
  "pa \<Rightarrow> bool \<Rightarrow> (int \<Rightarrow> bool) \<Rightarrow> rawr_AudioPrivate \<Rightarrow> rawr_AudioPrivate \<times> int" where
  "rawr_Audio_Setup p mem_list mem_dev st =
     (if initialized st then (st, 0)
      else (let err = Pa_Initialize p in
        if err \<noteq> 0 then (st, err)
        else (let st = st\<lparr>initialized := True\<rparr>;
                  st = st\<lparr>deviceCount := Pa_GetDeviceCount p\<rparr> in
          if deviceCount st < 0 then (st, err)
          else if deviceCount st \<le> 0 then (st, err)
          else if \<not> mem_list then (st\<lparr>deviceList := []\<rparr>, err)
          else (let st = st\<lparr>defaultInputId := Pa_GetDefaultInputDevice p,
                            defaultOutputId := Pa_GetDefaultOutputDevice p\<rparr> in
            case probe_devices p mem_dev st [0..deviceCount st - 1] of
              (devs, False) \<Rightarrow> (st\<lparr>deviceList := devs\<rparr>, err)
            | (devs, True) \<Rightarrow> (st\<lparr>deviceList := devs\<rparr>, rawr_Success)))))"

definition rawr_Audio_Cleanup :: "pa \<Rightarrow> rawr_AudioPrivate \<Rightarrow> rawr_AudioPrivate \<times> int" where
  "rawr_Audio_Cleanup p st =
     (if \<not> initialized st then (st, 0)
      else (let st = st\<lparr>deviceList := [], initialized := False\<rparr>;
                err = Pa_Terminate p
            in (st, if err \<noteq> 0 then err else rawr_Success)))"

definition rawr_AudioDevice_Get :: "rawr_AudioPrivate \<Rightarrow> int \<Rightarrow> rawr_AudioDevice option option" where
  "rawr_AudioDevice_Get st i = do { guard (i > 0 \<and> i < deviceCount st); Some None }"

definition rawr_AudioDevice_DefaultInput :: "rawr_AudioPrivate \<Rightarrow> rawr_AudioDevice option" where
  "rawr_AudioDevice_DefaultInput st =
     (if defaultInputId st < 0 \<or> defaultInputId st \<ge> deviceCount st then None
      else Some (deviceList st ! nat (defaultInputId st)))"

definition rawr_AudioDevice_DefaultOutput :: "rawr_AudioPrivate \<Rightarrow> rawr_AudioDevice option" where
  "rawr_AudioDevice_DefaultOutput st =
     (if defaultOutputId st < 0 \<or> defaultOutputId st \<ge> deviceCount st then None
      else Some (deviceList st ! nat (defaultOutputId st)))"

text \<open>The accessors assert that the device is not null.\<close>

definition rawr_AudioDevice_Id :: "rawr_AudioDevice option \<Rightarrow> int option" where
  "rawr_AudioDevice_Id dev = map_option dev_id dev"

definition rawr_AudioDevice_Name :: "rawr_AudioDevice option \<Rightarrow> string option" where
  "rawr_AudioDevice_Name dev = map_option (\<lambda>d. name (deviceInfo d)) dev"

definition rawr_AudioDevice_Props :: "rawr_AudioDevice option \<Rightarrow> u32 option" where
  "rawr_AudioDevice_Props dev = map_option props dev"

definition rawr_AudioDevice_SampleRates :: "rawr_AudioDevice option \<Rightarrow> u32 option" where
  "rawr_AudioDevice_SampleRates dev = map_option rates dev"

definition rawr_AudioDevice_OutputChannels :: "rawr_AudioDevice option \<Rightarrow> int option" where
  "rawr_AudioDevice_OutputChannels dev = map_option (\<lambda>d. maxOutputChannels (deviceInfo d)) dev"

definition rawr_AudioDevice_InputChannels :: "rawr_AudioDevice option \<Rightarrow> int option" where
  "rawr_AudioDevice_InputChannels dev = map_option (\<lambda>d. maxInputChannels (deviceInfo d)) dev"

section \<open>Streams\<close>

record rawr_AudioStreamPriv =
  pa_stream :: bool
  inParameters :: "PaStreamParameters option"
  outParameters :: "PaStreamParameters option"
  rbToDevice :: rawr_RingBuffer
  rbFromDevice :: rawr_RingBuffer

record rawr_AudioStream =
  stream_priv :: "rawr_AudioStreamPriv option"
  inDevice :: "rawr_AudioDevice option"
  outDevice :: "rawr_AudioDevice option"
  stream_sampleRate :: int
  sampleCapacity :: size_t
  stream_channelCount :: int
  sampleCount :: int
  inputLevel :: int
  outputLevel :: int

definition zero_ring :: rawr_RingBuffer where
  "zero_ring = \<lparr>bufferSize = 0, writeIndex = 0, readIndex = 0, bigMask = 0, smallMask = 0,
     elementSizeBytes = 0, buffer = []\<rparr>"

definition zero_priv :: rawr_AudioStreamPriv where
  "zero_priv = \<lparr>pa_stream = False, inParameters = None, outParameters = None, rbToDevice = zero_ring,
     rbFromDevice = zero_ring\<rparr>"

text \<open>The memory an allocation of \<open>n\<close> bytes yields; a null pointer has no bytes behind it.\<close>

definition acquire :: "bool \<Rightarrow> nat \<Rightarrow> bytes" where
  "acquire ok n = (if ok then replicate n 0 else [])"

text \<open>
  \<open>mem i\<close> is the outcome of the \<open>i\<close>-th allocation: the stream, its private part, the two data
  areas. The product \<^verbatim>\<open>sampleCount * 10\<close> is one of \<^verbatim>\<open>int\<close>, so its overflow is a fault.
\<close>

definition rawr_AudioStream_Setup ::
  "(nat \<Rightarrow> bool) \<Rightarrow> rawr_AudioStream \<Rightarrow> rawr_AudioStream handle \<Rightarrow> int \<Rightarrow> int \<Rightarrow> int \<Rightarrow>
   (rawr_AudioStream handle \<times> int) option" where
  "rawr_AudioStream_Setup mem junk out rate channels count =
     (if \<not> mem 0 then Some (Unset, rawr_Error)
      else do {
        guard (- (2 ^ 31) \<le> count * 10 \<and> count * 10 < 2 ^ 31);
        let numSamples = rawr_Util_NextPowerOf2 (word_of_int (count * 10));
            st = junk\<lparr>outDevice := None, inDevice := None, stream_sampleRate := rate,
                      stream_channelCount := channels, sampleCount := count, sampleCapacity := ucast numSamples\<rparr>
        in if \<not> mem 1 then Some (Live st, rawr_Error)
           else (let numBytes = numSamples * of_nat sizeof_AudioSample;
                     to = rawr_RingBuffer_Initialize (rbToDevice zero_priv) (of_nat sizeof_AudioSample) (ucast numSamples)
                            (acquire (mem 2) (unat numBytes));
                     from = rawr_RingBuffer_Initialize (rbFromDevice zero_priv) (of_nat sizeof_AudioSample) (ucast numSamples)
                            (acquire (mem 3) (unat numBytes))
                 in if snd to \<noteq> 0 \<or> snd from \<noteq> 0 then Some (Freed, rawr_Error)
                    else Some (Live (st\<lparr>stream_priv := Some (zero_priv\<lparr>rbToDevice := fst to, rbFromDevice := fst from\<rparr>),
                                        inputLevel := 0, outputLevel := 0\<rparr>), rawr_Success))
      })"

definition rawr_AudioStream_Cleanup :: "rawr_AudioStream handle \<Rightarrow> rawr_AudioStream handle option" where
  "rawr_AudioStream_Cleanup h =
     (case h of Live s \<Rightarrow> (case stream_priv s of Some _ \<Rightarrow> Some Freed | None \<Rightarrow> None) | _ \<Rightarrow> None)"

definition rawr_AudioStream_AddDevice ::
  "rawr_AudioStream \<Rightarrow> rawr_AudioDevice option \<Rightarrow> (rawr_AudioStream \<times> int) option" where
  "rawr_AudioStream_AddDevice stream dev = do {
     outChannels \<leftarrow> rawr_AudioDevice_OutputChannels dev;
     inChannels \<leftarrow> rawr_AudioDevice_InputChannels dev;
     if outChannels \<noteq> 0 \<and> outChannels < stream_channelCount stream then Some (stream, rawr_Error)
     else if inChannels \<noteq> 0 \<and> inChannels < stream_channelCount stream then Some (stream, rawr_Error)
     else if outChannels \<noteq> 0 \<and> outDevice stream \<noteq> None then Some (stream, rawr_Error)
     else (let stream = (if outChannels \<noteq> 0 then stream\<lparr>outDevice := dev\<rparr> else stream)
           in if inChannels \<noteq> 0 \<and> inDevice stream \<noteq> None then Some (stream, rawr_Error)
              else Some (if inChannels \<noteq> 0 then stream\<lparr>inDevice := dev\<rparr> else stream, rawr_Success))
   }"

definition stream_params :: "rawr_AudioStream \<Rightarrow> rawr_AudioDevice option \<Rightarrow> PaStreamParameters option" where
  "stream_params stream dev =
     map_option (\<lambda>d. \<lparr>device = dev_id d, channelCount = stream_channelCount stream, sampleFormat = paInt16,
                      suggestedLatency = defaultLowInputLatency (deviceInfo d)\<rparr>) dev"

definition rawr_AudioStream_Start :: "pa \<Rightarrow> rawr_AudioStream \<Rightarrow> (rawr_AudioStream \<times> int) option" where
  "rawr_AudioStream_Start p stream = do {
     pr \<leftarrow> stream_priv stream;
     let ip = stream_params stream (inDevice stream);
         op = stream_params stream (outDevice stream);
         pr = pr\<lparr>inParameters := (case ip of None \<Rightarrow> inParameters pr | Some x \<Rightarrow> Some x),
                 outParameters := (case op of None \<Rightarrow> outParameters pr | Some x \<Rightarrow> Some x)\<rparr>
     in if Pa_OpenStream p ip op (stream_sampleRate stream) (sampleCount stream) \<noteq> 0
        then Some (stream\<lparr>stream_priv := Some pr\<rparr>, rawr_Error)
        else if Pa_StartStream p \<noteq> 0
        then Some (stream\<lparr>stream_priv := Some (pr\<lparr>pa_stream := False\<rparr>)\<rparr>, rawr_Error)
        else Some (stream\<lparr>stream_priv := Some (pr\<lparr>pa_stream := True\<rparr>)\<rparr>, rawr_Success)
   }"

definition rawr_AudioStream_Stop :: "pa \<Rightarrow> rawr_AudioStream \<Rightarrow> int option" where
  "rawr_AudioStream_Stop p stream = map_option (\<lambda>_. Pa_StopStream p) (stream_priv stream)"

definition rawr_AudioStream_Read :: "rawr_AudioStream \<Rightarrow> bytes \<Rightarrow> (rawr_AudioStream \<times> bytes \<times> size_t) option" where
  "rawr_AudioStream_Read stream buf = do {
     pr \<leftarrow> stream_priv stream;
     if rawr_RingBuffer_GetReadAvailable (rbFromDevice pr) < word_of_int (sampleCount stream) then Some (stream, buf, 0)
     else do {
       (rb, buf, n) \<leftarrow> rawr_RingBuffer_Read (rbFromDevice pr) buf (word_of_int (sampleCount stream));
       Some (stream\<lparr>stream_priv := Some (pr\<lparr>rbFromDevice := rb\<rparr>)\<rparr>, buf, n)
     }
   }"

definition rawr_AudioStream_Write :: "rawr_AudioStream \<Rightarrow> bytes \<Rightarrow> (rawr_AudioStream \<times> size_t) option" where
  "rawr_AudioStream_Write stream buf = do {
     pr \<leftarrow> stream_priv stream;
     if rawr_RingBuffer_GetWriteAvailable (rbToDevice pr) < word_of_int (sampleCount stream) then Some (stream, 0)
     else do {
       (rb, n) \<leftarrow> rawr_RingBuffer_Write (rbToDevice pr) buf (word_of_int (sampleCount stream));
       Some (stream\<lparr>stream_priv := Some (pr\<lparr>rbToDevice := rb\<rparr>)\<rparr>, n)
     }
   }"

section \<open>The device callback\<close>

definition sample_at :: "bytes \<Rightarrow> nat \<Rightarrow> int" where
  "sample_at buf i = sint (ld16 buf (i * sizeof_AudioSample))"

definition rms :: "bytes \<Rightarrow> nat \<Rightarrow> real" where
  "rms buf frames = (\<Sum>i<frames. real_of_int \<bar>sample_at buf i\<bar> * (1 / 32767) * (1 / real frames))"

text \<open>The level of an average amplitude; \<^verbatim>\<open>log(0)\<close> is minus infinity in C, which the clamps turn
  into 200.\<close>

definition level :: "real \<Rightarrow> real" where
  "level r = (let db = (if r \<le> 0 then 200 else 20 * ln r * -1)
              in 1 - ((max 20 (min 200 db) - 20) / 180))"

definition RAWR_AUDIOSTREAM_LEVEL_MULTIPLIER :: real where "RAWR_AUDIOSTREAM_LEVEL_MULTIPLIER = 10000"

text \<open>What the callback plays and what it records, when the device has that side.\<close>

definition callback_output :: "rawr_RingBuffer \<Rightarrow> bytes option \<Rightarrow> nat \<Rightarrow> (rawr_RingBuffer \<times> bytes option) option" where
  "callback_output rb outputBuffer frames =
     (case outputBuffer of
        None \<Rightarrow> Some (rb, None)
      | Some ob \<Rightarrow>
          if rawr_RingBuffer_GetReadAvailable rb < of_nat frames then
            map_option (\<lambda>ob. (rb, Some ob)) (mem_write ob 0 (replicate (frames * sizeof_AudioSample) 0))
          else
            map_option (\<lambda>(rb, ob, n). (rb, Some ob)) (rawr_RingBuffer_Read rb ob (of_nat frames)))"

definition callback_input :: "rawr_RingBuffer \<Rightarrow> bytes option \<Rightarrow> nat \<Rightarrow> rawr_RingBuffer option" where
  "callback_input rb inputBuffer frames =
     (case inputBuffer of
        None \<Rightarrow> Some rb
      | Some ib \<Rightarrow> map_option fst (rawr_RingBuffer_Write rb ib (of_nat frames)))"

text \<open>
  The device's two buffers are \<open>None\<close> when the stream has no such side; the level loop reads both
  without a test. \<open>priming\<close> is the status flag \<^verbatim>\<open>paPrimingOutput\<close>. The result is the stream and the
  output buffer.
\<close>

definition rawr_AudioStream_AudioCallback ::
  "bytes option \<Rightarrow> bytes option \<Rightarrow> nat \<Rightarrow> bool \<Rightarrow> rawr_AudioStream \<Rightarrow> (rawr_AudioStream \<times> bytes option) option" where
  "rawr_AudioStream_AudioCallback inputBuffer outputBuffer frames priming stream =
     (if priming then do {
        ob \<leftarrow> outputBuffer;
        ob \<leftarrow> mem_write ob 0 (replicate (frames * sizeof_AudioSample) 0);
        Some (stream, Some ob)
      } else do {
        pr \<leftarrow> stream_priv stream;
        guard (frames = 0 \<or> (inputBuffer \<noteq> None \<and> outputBuffer \<noteq> None
               \<and> frames * sizeof_AudioSample \<le> length (the inputBuffer)
               \<and> frames * sizeof_AudioSample \<le> length (the outputBuffer)));
        let il = (if frames = 0 then level 0 else level (rms (the inputBuffer) frames));
            ol = (if frames = 0 then level 0 else level (rms (the outputBuffer) frames));
            stream = stream\<lparr>inputLevel := \<lfloor>il * RAWR_AUDIOSTREAM_LEVEL_MULTIPLIER\<rfloor>,
                            outputLevel := \<lfloor>ol * RAWR_AUDIOSTREAM_LEVEL_MULTIPLIER\<rfloor>\<rparr>
        in do {
          (to, ob) \<leftarrow> callback_output (rbToDevice pr) outputBuffer frames;
          from \<leftarrow> callback_input (rbFromDevice pr) inputBuffer frames;
          Some (stream\<lparr>stream_priv := Some (pr\<lparr>rbToDevice := to, rbFromDevice := from\<rparr>)\<rparr>, ob)
        }
      })"

definition rawr_AudioStream_InputLevel :: "rawr_AudioStream \<Rightarrow> real" where
  "rawr_AudioStream_InputLevel stream = real_of_int (inputLevel stream) / RAWR_AUDIOSTREAM_LEVEL_MULTIPLIER"

definition rawr_AudioStream_OutputLevel :: "rawr_AudioStream \<Rightarrow> real" where
  "rawr_AudioStream_OutputLevel stream = real_of_int (outputLevel stream) / RAWR_AUDIOSTREAM_LEVEL_MULTIPLIER"

section \<open>Streams keep their rings\<close>

text \<open>The samples waiting for the device and those waiting for the call, oldest first.\<close>

definition queued :: "rawr_AudioStream \<Rightarrow> bytes list" where
  "queued s = (case stream_priv s of None \<Rightarrow> [] | Some pr \<Rightarrow> rb_contents (rbToDevice pr))"

definition captured :: "rawr_AudioStream \<Rightarrow> bytes list" where
  "captured s = (case stream_priv s of None \<Rightarrow> [] | Some pr \<Rightarrow> rb_contents (rbFromDevice pr))"

definition ring_ok :: "nat \<Rightarrow> rawr_RingBuffer \<Rightarrow> bool" where
  "ring_ok cap rb \<longleftrightarrow> rb_inv rb \<and> elementSizeBytes rb = 2 \<and> rb_cap rb = cap"

definition stream_ok :: "nat \<Rightarrow> rawr_AudioStream \<Rightarrow> bool" where
  "stream_ok cap s \<longleftrightarrow> 0 < sampleCount s \<and> sampleCount s \<le> int cap \<and> cap < 2 ^ 31
     \<and> (\<exists>pr. stream_priv s = Some pr \<and> ring_ok cap (rbToDevice pr) \<and> ring_ok cap (rbFromDevice pr))"

lemma stream_okE:
  assumes "stream_ok cap s"
  obtains pr where "stream_priv s = Some pr" and "ring_ok cap (rbToDevice pr)" and "ring_ok cap (rbFromDevice pr)"
    and "queued s = rb_contents (rbToDevice pr)" and "captured s = rb_contents (rbFromDevice pr)"
    and "0 < sampleCount s" and "nat (sampleCount s) \<le> cap" and "cap < 2 ^ 31"
  using assms by (auto simp: stream_ok_def queued_def captured_def)

lemma esize2: "unat (2 :: size_t) = 2"
  by simp

lemma ring_Read:
  assumes "ring_ok cap rb" and "m = min (unat n) (length (rb_contents rb))"
  obtains rb' where "rawr_RingBuffer_Read rb data n =
      (if m * 2 \<le> length data then Some (rb', concat (take m (rb_contents rb)) @ drop (m * 2) data, of_nat m) else None)"
    and "ring_ok cap rb'" and "rb_contents rb' = drop m (rb_contents rb)"
proof -
  have inv: "rb_inv rb" and e: "(2::nat) = unat (elementSizeBytes rb)" and m: "m = min (unat n) (rb_used rb)"
    using assms by (simp_all add: ring_ok_def)
  show ?thesis
    by (rule rb_Read_cases [OF inv m e, of data]) (use assms(1) in \<open>auto simp: ring_ok_def intro: that\<close>)
qed

lemma ring_Write:
  assumes "ring_ok cap rb" and "m = min (unat n) (cap - length (rb_contents rb))" and "m * 2 \<le> length data"
  obtains rb' where "rawr_RingBuffer_Write rb data n = Some (rb', of_nat m)"
    and "ring_ok cap rb'" and "rb_contents rb' = rb_contents rb @ elems 2 data m"
proof -
  have inv: "rb_inv rb" and e: "(2::nat) = unat (elementSizeBytes rb)" and m: "m = min (unat n) (rb_cap rb - rb_used rb)"
    using assms by (simp_all add: ring_ok_def)
  show ?thesis
    by (rule rb_Write_correct [OF inv m e assms(3)]) (use assms(1) in \<open>auto simp: ring_ok_def intro: that\<close>)
qed

lemma ring_avail:
  assumes "ring_ok cap rb" and "cap < 2 ^ 31" and "0 \<le> c" and "c < 2 ^ 31"
  shows "rawr_RingBuffer_GetReadAvailable rb < word_of_int c \<longleftrightarrow> length (rb_contents rb) < nat c"
    and "rawr_RingBuffer_GetWriteAvailable rb < word_of_int c \<longleftrightarrow> cap - length (rb_contents rb) < nat c"
    and "unat (word_of_int c :: size_t) = nat c"
proof -
  obtain k where sh: "rb_shape k rb" using assms(1) rb_invE [of rb] by (auto simp: ring_ok_def)
  have u: "unat (word_of_int c :: size_t) = nat c"
    using assms(3,4) by (simp add: unat_eq_nat_uint uint_word_of_int)
  then show "unat (word_of_int c :: size_t) = nat c" .
  show "rawr_RingBuffer_GetReadAvailable rb < word_of_int c \<longleftrightarrow> length (rb_contents rb) < nat c"
    by (simp add: word_less_nat_alt u rb_used_def)
  show "rawr_RingBuffer_GetWriteAvailable rb < word_of_int c \<longleftrightarrow> cap - length (rb_contents rb) < nat c"
    using assms(1) used_cases [OF sh] by (simp add: word_less_nat_alt u ring_ok_def rb_inv_def)
qed

lemma ring_bounded: "ring_ok cap rb \<Longrightarrow> length (rb_contents rb) \<le> cap"
  by (auto simp: ring_ok_def rb_inv_def)

text \<open>A read delivers a whole frame of the oldest samples, or nothing.\<close>

lemma Read_frame:
  assumes ok: "stream_ok cap s" and n: "n = nat (sampleCount s)"
  shows "if length (captured s) < n then rawr_AudioStream_Read s buf = Some (s, buf, 0)
         else if n * 2 \<le> length buf
         then \<exists>s'. rawr_AudioStream_Read s buf = Some (s', concat (take n (captured s)) @ drop (n * 2) buf, of_nat n)
                \<and> stream_ok cap s' \<and> captured s' = drop n (captured s) \<and> queued s' = queued s
                \<and> sampleCount s' = sampleCount s
         else rawr_AudioStream_Read s buf = None"
proof -
  obtain pr where pr: "stream_priv s = Some pr" and rings: "ring_ok cap (rbToDevice pr)" "ring_ok cap (rbFromDevice pr)"
    and c: "captured s = rb_contents (rbFromDevice pr)" and q: "queued s = rb_contents (rbToDevice pr)"
    and sc: "0 < sampleCount s" "nat (sampleCount s) \<le> cap" "cap < 2 ^ 31"
    using ok by (rule stream_okE)
  have lt: "0 \<le> sampleCount s" "sampleCount s < 2 ^ 31" using sc by simp_all
  note av = ring_avail [OF rings(2) sc(3) lt, folded n c]
  have *: "n = min (unat (word_of_int (sampleCount s) :: size_t)) (length (rb_contents (rbFromDevice pr)))"
    if "\<not> length (captured s) < n" using that av(3) c by simp
  show ?thesis
  proof (cases "length (captured s) < n")
    case True
    then show ?thesis using av(1) by (simp add: rawr_AudioStream_Read_def pr)
  next
    case False
    obtain rb where rb: "rawr_RingBuffer_Read (rbFromDevice pr) buf (word_of_int (sampleCount s)) =
        (if n * 2 \<le> length buf then Some (rb, concat (take n (captured s)) @ drop (n * 2) buf, of_nat n) else None)"
      "ring_ok cap rb" "rb_contents rb = drop n (captured s)"
      using ring_Read [OF rings(2) * [OF False], of buf] c by metis
    let ?s = "s\<lparr>stream_priv := Some (pr\<lparr>rbFromDevice := rb\<rparr>)\<rparr>"
    have "stream_ok cap ?s" "captured ?s = drop n (captured s)" "queued ?s = queued s"
      using sc rings rb q by (auto simp: stream_ok_def captured_def queued_def)
    then show ?thesis using False av(1) rb(1) by (simp add: rawr_AudioStream_Read_def pr)
  qed
qed

text \<open>A write queues a whole frame, or nothing.\<close>

lemma Write_frame:
  assumes ok: "stream_ok cap s" and n: "n = nat (sampleCount s)" and buf: "n * 2 \<le> length buf"
  shows "if cap - length (queued s) < n then rawr_AudioStream_Write s buf = Some (s, 0)
         else \<exists>s'. rawr_AudioStream_Write s buf = Some (s', of_nat n) \<and> stream_ok cap s'
                \<and> queued s' = queued s @ elems 2 buf n \<and> captured s' = captured s
                \<and> sampleCount s' = sampleCount s"
proof -
  obtain pr where pr: "stream_priv s = Some pr" and rings: "ring_ok cap (rbToDevice pr)" "ring_ok cap (rbFromDevice pr)"
    and c: "captured s = rb_contents (rbFromDevice pr)" and q: "queued s = rb_contents (rbToDevice pr)"
    and sc: "0 < sampleCount s" "nat (sampleCount s) \<le> cap" "cap < 2 ^ 31"
    using ok by (rule stream_okE)
  have lt: "0 \<le> sampleCount s" "sampleCount s < 2 ^ 31" using sc by simp_all
  note av = ring_avail [OF rings(1) sc(3) lt, folded n q]
  show ?thesis
  proof (cases "cap - length (queued s) < n")
    case True
    then show ?thesis using av(2) by (simp add: rawr_AudioStream_Write_def pr)
  next
    case False
    then have "n = min (unat (word_of_int (sampleCount s) :: size_t)) (cap - length (rb_contents (rbToDevice pr)))"
      using av(3) q by simp
    then obtain rb where rb: "rawr_RingBuffer_Write (rbToDevice pr) buf (word_of_int (sampleCount s)) = Some (rb, of_nat n)"
      "ring_ok cap rb" "rb_contents rb = queued s @ elems 2 buf n"
      using ring_Write [OF rings(1) _ buf] q by metis
    let ?s = "s\<lparr>stream_priv := Some (pr\<lparr>rbToDevice := rb\<rparr>)\<rparr>"
    have "stream_ok cap ?s" "queued ?s = queued s @ elems 2 buf n" "captured ?s = captured s"
      using sc rings rb c by (auto simp: stream_ok_def captured_def queued_def)
    then show ?thesis using False av(2) rb(1) by (simp add: rawr_AudioStream_Write_def pr)
  qed
qed

text \<open>One callback with both buffers: what is played, what is recorded.\<close>

lemma callback_output_frame:
  assumes ok: "ring_ok cap rb" and f: "frames < 2 ^ 31" and ob: "frames * 2 \<le> length ob"
  shows "\<exists>rb'. callback_output rb (Some ob) frames =
           Some (rb', Some ((if length (rb_contents rb) < frames then replicate (frames * 2) 0
                             else concat (take frames (rb_contents rb))) @ drop (frames * 2) ob))
         \<and> ring_ok cap rb'
         \<and> rb_contents rb' = (if length (rb_contents rb) < frames then rb_contents rb else drop frames (rb_contents rb))"
proof -
  have uf: "unat (of_nat frames :: size_t) = frames" using f by (simp add: unat_of_nat)
  have av: "rawr_RingBuffer_GetReadAvailable rb < of_nat frames \<longleftrightarrow> length (rb_contents rb) < frames"
    by (simp add: word_less_nat_alt uf rb_used_def)
  show ?thesis
  proof (cases "length (rb_contents rb) < frames")
    case True
    then show ?thesis using av ok ob by (simp add: callback_output_def mem_write_def patch_def sizeof_AudioSample_def)
  next
    case False
    then have m: "min frames (length (rb_contents rb)) = frames" by simp
    obtain rb' where "rawr_RingBuffer_Read rb ob (of_nat frames) =
        Some (rb', concat (take frames (rb_contents rb)) @ drop (frames * 2) ob, of_nat frames)"
      "ring_ok cap rb'" "rb_contents rb' = drop frames (rb_contents rb)"
      using ring_Read [OF ok refl, of ob "of_nat frames", unfolded uf m] ob by auto
    then show ?thesis using False av by (simp add: callback_output_def)
  qed
qed

lemma callback_input_frame:
  assumes ok: "ring_ok cap rb" and f: "frames < 2 ^ 31" and ib: "frames * 2 \<le> length ib"
    and r: "r = min frames (cap - length (rb_contents rb))"
  shows "\<exists>rb'. callback_input rb (Some ib) frames = Some rb' \<and> ring_ok cap rb'
         \<and> rb_contents rb' = rb_contents rb @ elems 2 ib r"
proof -
  have "unat (of_nat frames :: size_t) = frames" using f by (simp add: unat_of_nat)
  with r have r': "r = min (unat (of_nat frames :: size_t)) (cap - length (rb_contents rb))" by simp
  have "r * 2 \<le> length ib" using ib by (simp add: r min_def)
  from ring_Write [OF ok r' this] show ?thesis by (metis callback_input_def fst_conv option.simps(5,9))
qed

lemma Callback_frame:
  assumes ok: "stream_ok cap s" and f: "frames < 2 ^ 31"
    and ib: "frames * 2 \<le> length ib" and ob: "frames * 2 \<le> length ob"
  shows "\<exists>s' ob'. rawr_AudioStream_AudioCallback (Some ib) (Some ob) frames False s = Some (s', Some ob')
     \<and> stream_ok cap s' \<and> sampleCount s' = sampleCount s
     \<and> ob' = (if length (queued s) < frames then replicate (frames * 2) 0 else concat (take frames (queued s)))
             @ drop (frames * 2) ob
     \<and> queued s' = (if length (queued s) < frames then queued s else drop frames (queued s))
     \<and> captured s' = captured s @ elems 2 ib (min frames (cap - length (captured s)))"
proof -
  obtain pr where pr: "stream_priv s = Some pr" and rings: "ring_ok cap (rbToDevice pr)" "ring_ok cap (rbFromDevice pr)"
    and q: "queued s = rb_contents (rbToDevice pr)" and c: "captured s = rb_contents (rbFromDevice pr)"
    and sc: "0 < sampleCount s" "nat (sampleCount s) \<le> cap" "cap < 2 ^ 31"
    using ok by (rule stream_okE)
  obtain to' ob' where to': "callback_output (rbToDevice pr) (Some ob) frames = Some (to', Some ob')" "ring_ok cap to'"
    "rb_contents to' = (if length (queued s) < frames then queued s else drop frames (queued s))"
    "ob' = (if length (queued s) < frames then replicate (frames * 2) 0 else concat (take frames (queued s)))
             @ drop (frames * 2) ob"
    using callback_output_frame [OF rings(1) f ob] q by metis
  obtain from' where from': "callback_input (rbFromDevice pr) (Some ib) frames = Some from'" "ring_ok cap from'"
    "rb_contents from' = captured s @ elems 2 ib (min frames (cap - length (captured s)))"
    using callback_input_frame [OF rings(2) f ib refl] c by metis
  let ?s = "s\<lparr>inputLevel := \<lfloor>(if frames = 0 then level 0 else level (rms ib frames)) * RAWR_AUDIOSTREAM_LEVEL_MULTIPLIER\<rfloor>,
      outputLevel := \<lfloor>(if frames = 0 then level 0 else level (rms ob frames)) * RAWR_AUDIOSTREAM_LEVEL_MULTIPLIER\<rfloor>,
      stream_priv := Some (pr\<lparr>rbToDevice := to', rbFromDevice := from'\<rparr>)\<rparr>"
  have "rawr_AudioStream_AudioCallback (Some ib) (Some ob) frames False s = Some (?s, Some ob')"
    using pr ib ob to'(1) from'(1) by (simp add: rawr_AudioStream_AudioCallback_def sizeof_AudioSample_def Let_def)
  moreover have "stream_ok cap ?s" "queued ?s = rb_contents to'" "captured ?s = rb_contents from'"
    using sc to'(2) from'(2) by (auto simp: stream_ok_def captured_def queued_def)
  ultimately show ?thesis
    unfolding to'(3) from'(3) to'(4) by (intro exI [of _ ?s] exI conjI) simp_all
qed

lemma level_range: "0 \<le> level r \<and> level r \<le> 1"
  by (simp add: level_def Let_def)

interpretation pa_stream_api: audio_stream_api stream_ok "\<lambda>s. nat (sampleCount s)" queued captured
  rawr_AudioStream_Read rawr_AudioStream_Write
proof unfold_locales
  fix cap s assume "stream_ok cap s"
  then show "0 < nat (sampleCount s) \<and> nat (sampleCount s) < 2 ^ 31" by (auto elim!: stream_okE)
next
  fix cap s buf assume "stream_ok cap s"
  from Read_frame [OF this refl, of buf] show
    "if length (captured s) < nat (sampleCount s) then rawr_AudioStream_Read s buf = Some (s, buf, 0)
     else if nat (sampleCount s) * 2 \<le> length buf
     then \<exists>s'. rawr_AudioStream_Read s buf = Some (s', concat (take (nat (sampleCount s)) (captured s))
              @ drop (nat (sampleCount s) * 2) buf, of_nat (nat (sampleCount s)))
            \<and> stream_ok cap s' \<and> captured s' = drop (nat (sampleCount s)) (captured s) \<and> queued s' = queued s
            \<and> nat (sampleCount s') = nat (sampleCount s)
     else rawr_AudioStream_Read s buf = None"
    by (auto split: if_splits)
next
  fix cap s and buf :: bytes assume "stream_ok cap s" and "nat (sampleCount s) * 2 \<le> length buf"
  from Write_frame [OF this(1) refl this(2)] show
    "if cap - length (queued s) < nat (sampleCount s) then rawr_AudioStream_Write s buf = Some (s, 0)
     else \<exists>s'. rawr_AudioStream_Write s buf = Some (s', of_nat (nat (sampleCount s))) \<and> stream_ok cap s'
            \<and> queued s' = queued s @ elems 2 buf (nat (sampleCount s)) \<and> captured s' = captured s
            \<and> nat (sampleCount s') = nat (sampleCount s)"
    by (auto split: if_splits)
qed

section \<open>Set-up of a stream\<close>

lemma Setup_rings:
  assumes c: "0 < count" "count * 10 \<le> 2 ^ 30" and mem: "\<And>i. i < 4 \<Longrightarrow> mem i"
  obtains s k where "rawr_AudioStream_Setup mem junk out rate channels count = Some (Live s, rawr_Success)"
    and "stream_ok (2 ^ k) s" and "queued s = []" and "captured s = []" and "count * 10 \<le> 2 ^ k" and "k \<le> 30"
    and "sampleCount s = count" and "sampleCapacity s = 2 ^ k"
proof -
  let ?v = "word_of_int (count * 10) :: u32"
  have v: "unat ?v = nat (count * 10)" using c by (intro unat_word_of_int) simp_all
  have "0 < nat (count * 10)" "nat (count * 10) \<le> 2 ^ 31" using c by simp_all
  then have "0 < ?v" "?v \<le> 2 ^ 31"
    unfolding word_less_nat_alt word_le_nat_alt v using unat_pow2 [of 31, where 'a = 32] by simp_all
  then obtain k where k: "k < 32" "rawr_Util_NextPowerOf2 ?v = 2 ^ k" "unat ?v \<le> 2 ^ k"
    "\<And>j. unat ?v \<le> 2 ^ j \<Longrightarrow> k \<le> j" by (rule NextPowerOf2_cases) (rule that)
  have k30: "k \<le> 30" using k(4) [of 30] v c by (simp add: nat_le_iff)
  have k31: "(2::nat) ^ k \<le> 2 ^ 30" using k30 by (rule power_increasing) simp
  have cap: "ucast ((2::u32) ^ k) = (2::size_t) ^ k"
    using k30 by (intro bit_eqI) (auto simp: bit_simps)
  have nb: "unat ((2::u32) ^ k * of_nat sizeof_AudioSample) = 2 ^ k * 2"
    using k31 k(1) by (subst unat_mult_lt) (simp_all add: unat_pow2 sizeof_AudioSample_def)
  let ?i = "rawr_RingBuffer_Initialize zero_ring 2 (2 ^ k) (replicate (2 ^ k * 2) 0)"
  have "k < 63" "length (replicate (2 ^ k * 2) 0) = 2 ^ k * unat (2 :: size_t)" "2 ^ k * unat (2 :: size_t) < 2 ^ 64"
    using k30 k31 by simp_all
  note ini = rb_Initialize_ok [OF this, of zero_ring]
  let ?s = "junk\<lparr>outDevice := None, inDevice := None, stream_sampleRate := rate, stream_channelCount := channels,
      sampleCount := count, sampleCapacity := 2 ^ k,
      stream_priv := Some (zero_priv\<lparr>rbToDevice := fst ?i, rbFromDevice := fst ?i\<rparr>), inputLevel := 0, outputLevel := 0\<rparr>"
  have "rawr_AudioStream_Setup mem junk out rate channels count = Some (Live ?s, rawr_Success)"
    using c mem [of 0] mem [of 1] mem [of 2] mem [of 3] k(2) cap nb ini(4)
    by (simp add: rawr_AudioStream_Setup_def Let_def acquire_def zero_priv_def) (simp add: sizeof_AudioSample_def)
  moreover have "count * 10 \<le> 2 ^ k" using k(3) v c by (simp add: nat_le_iff)
  moreover have "stream_ok (2 ^ k) ?s"
    using c ini k31 calculation(2) by (auto simp: stream_ok_def ring_ok_def)
  moreover have "queued ?s = []" "captured ?s = []" using ini by (simp_all add: queued_def captured_def)
  ultimately show ?thesis using k30 by (intro that [of ?s k]) simp_all
qed

section \<open>The call and the device on one stream\<close>

text \<open>
  The call writes and reads frames, the device runs its callback with a frame it recorded. A run
  logs the samples the call got accepted, those the device played, those the device got recorded
  and those the call received.
\<close>

datatype stream_op = Call_Write bytes | Call_Read | Device bytes

record stream_log =
  accepted :: "bytes list"
  played :: "bytes list"
  recorded :: "bytes list"
  received :: "bytes list"

definition frame_len :: "rawr_AudioStream \<Rightarrow> nat" where
  "frame_len s = nat (sampleCount s)"

fun stream_step :: "nat \<Rightarrow> rawr_AudioStream \<Rightarrow> stream_op \<Rightarrow> (rawr_AudioStream \<times> stream_log) option" where
  "stream_step cap s (Call_Write buf) =
     map_option (\<lambda>(s', n). (s', \<lparr>accepted = elems 2 buf (unat n), played = [], recorded = [], received = []\<rparr>))
       (rawr_AudioStream_Write s buf)"
| "stream_step cap s Call_Read =
     map_option (\<lambda>(s', buf, n). (s', \<lparr>accepted = [], played = [], recorded = [], received = elems 2 buf (unat n)\<rparr>))
       (rawr_AudioStream_Read s (replicate (frame_len s * 2) 0))"
| "stream_step cap s (Device ib) =
     map_option (\<lambda>(s', ob). (s', \<lparr>accepted = [],
         played = (if length (queued s) < frame_len s then [] else elems 2 (the ob) (frame_len s)),
         recorded = elems 2 ib (min (frame_len s) (cap - length (captured s))), received = []\<rparr>))
       (rawr_AudioStream_AudioCallback (Some ib) (Some (replicate (frame_len s * 2) 0)) (frame_len s) False s)"

definition log_append :: "stream_log \<Rightarrow> stream_log \<Rightarrow> stream_log" where
  "log_append a b = \<lparr>accepted = accepted a @ accepted b, played = played a @ played b,
     recorded = recorded a @ recorded b, received = received a @ received b\<rparr>"

fun stream_run :: "nat \<Rightarrow> rawr_AudioStream \<Rightarrow> stream_op list \<Rightarrow> (rawr_AudioStream \<times> stream_log) option" where
  "stream_run cap s [] = Some (s, \<lparr>accepted = [], played = [], recorded = [], received = []\<rparr>)"
| "stream_run cap s (x # xs) =
     (case stream_step cap s x of None \<Rightarrow> None
      | Some (s', l) \<Rightarrow> map_option (\<lambda>(s'', l'). (s'', log_append l l')) (stream_run cap s' xs))"

fun stream_op_ok :: "nat \<Rightarrow> stream_op \<Rightarrow> bool" where
  "stream_op_ok n (Call_Write buf) \<longleftrightarrow> n * 2 \<le> length buf"
| "stream_op_ok n Call_Read \<longleftrightarrow> True"
| "stream_op_ok n (Device ib) \<longleftrightarrow> n * 2 \<le> length ib"

lemma contents_size2: "ring_ok cap rb \<Longrightarrow> list_all (\<lambda>x. length x = 2) (rb_contents rb)"
  using rb_contents_len [of rb] by (simp add: ring_ok_def)

lemma elems_take_contents:
  assumes "list_all (\<lambda>x. length x = 2) xs" and "n \<le> length xs"
  shows "elems 2 (concat (take n xs) @ ys) n = take n xs"
proof -
  have "list_all (\<lambda>x. length x = 2) (take n xs)"
    using assms(1) by (simp add: list_all_iff) (metis in_set_takeD)
  from elems_concat [OF this] assms(2) show ?thesis by simp
qed

lemma stream_contents_size2:
  assumes "stream_ok cap s"
  shows "list_all (\<lambda>x. length x = 2) (queued s)" and "list_all (\<lambda>x. length x = 2) (captured s)"
  using assms by (auto elim!: stream_okE simp: contents_size2)

lemma frame_word: "stream_ok cap s \<Longrightarrow> unat (of_nat (frame_len s) :: size_t) = frame_len s \<and> frame_len s < 2 ^ 31"
  by (auto elim!: stream_okE simp: frame_len_def unat_of_nat)

lemma stream_step_log:
  assumes ok: "stream_ok cap s" and op: "stream_op_ok (frame_len s) op"
  shows "\<exists>s' l. stream_step cap s op = Some (s', l) \<and> stream_ok cap s' \<and> frame_len s' = frame_len s
     \<and> queued s @ accepted l = played l @ queued s' \<and> captured s @ recorded l = received l @ captured s'
     \<and> frame_len s dvd length (accepted l) \<and> frame_len s dvd length (played l) \<and> frame_len s dvd length (received l)"
proof -
  note n = frame_word [OF ok]
  note sz = stream_contents_size2 [OF ok]
  show ?thesis
  proof (cases op)
    case (Call_Write buf)
    then show ?thesis
      using Write_frame [OF ok refl, of buf] op n ok
      by (cases "cap - length (queued s) < frame_len s") (auto simp: frame_len_def elems_def)
  next
    case Call_Read
    then show ?thesis
      using Read_frame [OF ok refl, of "replicate (frame_len s * 2) 0"] n ok elems_take_contents [OF sz(2), of "frame_len s" "[]"]
      by (cases "length (captured s) < frame_len s") (auto simp: frame_len_def elems_def [of _ _ 0])
  next
    case (Device ib)
    obtain s' ob' where d: "rawr_AudioStream_AudioCallback (Some ib) (Some (replicate (frame_len s * 2) 0)) (frame_len s) False s
        = Some (s', Some ob')" "stream_ok cap s'" "sampleCount s' = sampleCount s"
      "ob' = (if length (queued s) < frame_len s then replicate (frame_len s * 2) 0
              else concat (take (frame_len s) (queued s))) @ drop (frame_len s * 2) (replicate (frame_len s * 2) 0)"
      "queued s' = (if length (queued s) < frame_len s then queued s else drop (frame_len s) (queued s))"
      "captured s' = captured s @ elems 2 ib (min (frame_len s) (cap - length (captured s)))"
      using Callback_frame [OF ok conjunct2 [OF n], of ib "replicate (frame_len s * 2) 0"] op Device by auto
    then show ?thesis
      using Device elems_take_contents [OF sz(1), of "frame_len s" "[]"] by (simp add: frame_len_def)
  qed
qed

lemma stream_run_log:
  assumes "stream_ok cap s" and "list_all (stream_op_ok (frame_len s)) ops"
  shows "\<exists>s' l. stream_run cap s ops = Some (s', l) \<and> stream_ok cap s'
     \<and> queued s @ accepted l = played l @ queued s' \<and> captured s @ recorded l = received l @ captured s'
     \<and> frame_len s dvd length (accepted l) \<and> frame_len s dvd length (played l) \<and> frame_len s dvd length (received l)"
  using assms
proof (induction ops arbitrary: s)
  case (Cons op ops)
  obtain s1 l1 where 1: "stream_step cap s op = Some (s1, l1)" "stream_ok cap s1" "frame_len s1 = frame_len s"
    "queued s @ accepted l1 = played l1 @ queued s1" "captured s @ recorded l1 = received l1 @ captured s1"
    "frame_len s dvd length (accepted l1)" "frame_len s dvd length (played l1)" "frame_len s dvd length (received l1)"
    using stream_step_log [of cap s op] Cons.prems by auto
  obtain s2 l2 where 2: "stream_run cap s1 ops = Some (s2, l2)" "stream_ok cap s2"
    "queued s1 @ accepted l2 = played l2 @ queued s2" "captured s1 @ recorded l2 = received l2 @ captured s2"
    "frame_len s dvd length (accepted l2)" "frame_len s dvd length (played l2)" "frame_len s dvd length (received l2)"
    using Cons.IH [OF 1(2)] Cons.prems 1(3) by auto
  have "queued s @ accepted l1 @ accepted l2 = played l1 @ played l2 @ queued s2"
    "captured s @ recorded l1 @ recorded l2 = received l1 @ received l2 @ captured s2"
    using 1(4,5) 2(3,4) by (metis append_assoc)+
  then show ?case using 1 2 by (simp add: log_append_def)
qed simp

section \<open>The device table\<close>

lemma probe_devices_prefix:
  "probe_devices p mem_dev st ds = (map (probe_device p st) (takeWhile mem_dev ds), \<forall>d\<in>set ds. mem_dev d)"
  by (induction ds) auto

lemma probe_device_props:
  "dev_id (probe_device p st d) = d
   \<and> (props (probe_device p st d) AND rawr_AudioDeviceProps_Default \<noteq> 0) = (d = defaultInputId st \<or> d = defaultOutputId st)
   \<and> (props (probe_device p st d) AND rawr_AudioDeviceProps_Input \<noteq> 0) = (0 < maxInputChannels (Pa_GetDeviceInfo p d))
   \<and> (props (probe_device p st d) AND rawr_AudioDeviceProps_Output \<noteq> 0) = (0 < maxOutputChannels (Pa_GetDeviceInfo p d))"
  by (auto simp: probe_device_def Let_def props_defs)

text \<open>A concrete stream and device.\<close>

definition demo_stream :: rawr_AudioStream where
  "demo_stream = \<lparr>stream_priv = None, inDevice = None, outDevice = None, stream_sampleRate = 0, sampleCapacity = 0,
     stream_channelCount = 0, sampleCount = 0, inputLevel = 0, outputLevel = 0\<rparr>"

lemma demo_stream_ready:
  "\<exists>s k. rawr_AudioStream_Setup (\<lambda>_. True) demo_stream Unset 48000 1 960 = Some (Live s, rawr_Success)
     \<and> stream_ok (2 ^ k) s \<and> queued s = [] \<and> captured s = [] \<and> sampleCount s = 960"
proof -
  obtain s k where "rawr_AudioStream_Setup (\<lambda>_. True) demo_stream Unset 48000 1 960 = Some (Live s, rawr_Success)"
    "stream_ok (2 ^ k) s" "queued s = []" "captured s = []" "960 * 10 \<le> (2 :: int) ^ k" "k \<le> 30"
    "sampleCount s = 960" "sampleCapacity s = 2 ^ k"
    by (rule Setup_rings [of 960 "\<lambda>_. True" demo_stream Unset 48000 1]) simp_all
  then show ?thesis by blast
qed

section \<open>Properties\<close>

text \<open>
  (C30) A stream set up for frames of up to 107 million samples has two empty ring buffers of the same
  power-of-two capacity, at least ten frames each: the count always suits the ring buffer.
\<close>

theorem AudioStream_Setup_ready:
  assumes "0 < count" and "count * 10 \<le> 2 ^ 30" and "\<And>i. i < 4 \<Longrightarrow> mem i"
  shows "\<exists>s k. rawr_AudioStream_Setup mem junk out rate channels count = Some (Live s, rawr_Success)
     \<and> stream_ok (2 ^ k) s \<and> count * 10 \<le> 2 ^ k \<and> queued s = [] \<and> captured s = []
     \<and> sampleCapacity s = 2 ^ k \<and> inDevice s = None \<and> outDevice s = None"
proof -
  obtain s k where sk: "rawr_AudioStream_Setup mem junk out rate channels count = Some (Live s, rawr_Success)"
    "stream_ok (2 ^ k) s" "queued s = []" "captured s = []" "count * 10 \<le> 2 ^ k" "k \<le> 30"
    "sampleCount s = count" "sampleCapacity s = 2 ^ k"
    by (rule Setup_rings [OF assms])
  moreover have "inDevice s = None" "outDevice s = None"
    using sk(1) by (auto simp: rawr_AudioStream_Setup_def Let_def split: if_splits)
  ultimately show ?thesis by blast
qed

theorem AudioStream_Setup_ready_witness:
  "\<exists>s k. rawr_AudioStream_Setup (\<lambda>_. True) demo_stream Unset 48000 1 960 = Some (Live s, rawr_Success)
     \<and> stream_ok (2 ^ k) s \<and> 9600 \<le> (2 :: int) ^ k"
  using AudioStream_Setup_ready [of 960 "\<lambda>_. True" demo_stream Unset 48000 1] by fastforce

text \<open>
  (C5) Whatever order the call's reads and writes and the device's callbacks come in, no step
  faults; the device plays exactly the samples the call got accepted, in order, and the call
  receives exactly the samples that were recorded, in order. What the call gets accepted and receives and what the device plays are
  whole frames; of what the device delivers, as many samples are recorded as there is room for.
\<close>

theorem AudioStream_run_ordered:
  assumes "stream_ok cap s" and "list_all (stream_op_ok (frame_len s)) ops"
  shows "\<exists>s' l. stream_run cap s ops = Some (s', l) \<and> stream_ok cap s'
     \<and> queued s @ accepted l = played l @ queued s' \<and> captured s @ recorded l = received l @ captured s'
     \<and> frame_len s dvd length (accepted l) \<and> frame_len s dvd length (played l) \<and> frame_len s dvd length (received l)"
  by (rule stream_run_log [OF assms])

theorem AudioStream_run_ordered_witness:
  "\<exists>cap s s' l. queued s = [] \<and> stream_run cap s [Call_Write (replicate 1920 5), Device (replicate 1920 1), Call_Read] = Some (s', l)
     \<and> accepted l = played l @ queued s'"
proof -
  obtain s k where s: "stream_ok (2 ^ k) s" "queued s = []" "sampleCount s = 960" using demo_stream_ready by blast
  then show ?thesis
    using AudioStream_run_ordered [OF s(1), of "[Call_Write (replicate 1920 5), Device (replicate 1920 1), Call_Read]"]
    by (simp add: frame_len_def) (metis append_Nil)
qed

text \<open>
  (C36) The level the callback publishes lies between 0 and 1, whatever the samples are, silence
  included.
\<close>

theorem AudioCallback_levels:
  assumes "rawr_AudioStream_AudioCallback ib ob frames False s = Some (s', ob')"
  shows "0 \<le> rawr_AudioStream_InputLevel s' \<and> rawr_AudioStream_InputLevel s' \<le> 1
       \<and> 0 \<le> rawr_AudioStream_OutputLevel s' \<and> rawr_AudioStream_OutputLevel s' \<le> 1"
proof -
  obtain x y where "inputLevel s' = \<lfloor>level x * RAWR_AUDIOSTREAM_LEVEL_MULTIPLIER\<rfloor>"
    "outputLevel s' = \<lfloor>level y * RAWR_AUDIOSTREAM_LEVEL_MULTIPLIER\<rfloor>"
    using assms by (auto simp: rawr_AudioStream_AudioCallback_def Let_def split: bind_splits if_splits)
  moreover have "0 \<le> \<lfloor>level z * 10000\<rfloor> \<and> \<lfloor>level z * 10000\<rfloor> \<le> 10000" for z
    using level_range [of z] by (simp add: floor_le_iff)
  ultimately show ?thesis
    by (simp add: rawr_AudioStream_InputLevel_def rawr_AudioStream_OutputLevel_def RAWR_AUDIOSTREAM_LEVEL_MULTIPLIER_def)
qed

theorem AudioCallback_levels_witness:
  "\<exists>s s' ob'. rawr_AudioStream_AudioCallback (Some (replicate 1920 0)) (Some (replicate 1920 0)) 960 False s = Some (s', ob')
     \<and> 0 \<le> rawr_AudioStream_InputLevel s' \<and> rawr_AudioStream_InputLevel s' \<le> 1"
proof -
  obtain s k where "stream_ok (2 ^ k) s" using demo_stream_ready by blast
  from Callback_frame [OF this, of 960 "replicate 1920 0" "replicate 1920 0"] AudioCallback_levels show ?thesis
    by fastforce
qed

text \<open>
  A callback that is handed no input or no output buffer faults, although both are tested
  for before they are used: the level loop reads both first.
\<close>

lemma AudioCallback_null_buffer:
  assumes "0 < frames" and "ib = None \<or> ob = None"
  shows "rawr_AudioStream_AudioCallback ib ob frames False s = None"
  using assms by (auto simp: rawr_AudioStream_AudioCallback_def split: bind_splits)

text \<open>
  (C37) The table of devices, on every branch of the set-up. A set-up that was done before changes nothing and returns 0; when
  PortAudio does not start, nothing changes and its code is returned. After that set-up always returns 0 and counts as
  done: without devices the list is as before and there is no default device; without memory for the list the list is empty, although
  the count is that of the devices; otherwise the list has the devices in order up to the first whose memory is missing, each under its own
  number, with property bits that say exactly whether it is a default device and which directions it
  has.
\<close>

theorem Audio_Setup_devices:
  assumes "rawr_Audio_Setup p mem_list mem_dev st = (st', r)"
  shows "if initialized st then st' = st \<and> r = 0
    else if Pa_Initialize p \<noteq> 0 then st' = st \<and> r = Pa_Initialize p
    else r = rawr_Success \<and> initialized st' \<and> deviceCount st' = Pa_GetDeviceCount p
      \<and> (if Pa_GetDeviceCount p \<le> 0
         then deviceList st' = deviceList st \<and> rawr_AudioDevice_DefaultInput st' = None \<and> rawr_AudioDevice_DefaultOutput st' = None
         else if \<not> mem_list then deviceList st' = []
         else length (deviceList st') = length (takeWhile mem_dev [0..Pa_GetDeviceCount p - 1])
           \<and> (\<forall>d < length (deviceList st'). dev_id (deviceList st' ! d) = int d
                \<and> (props (deviceList st' ! d) AND rawr_AudioDeviceProps_Default \<noteq> 0)
                    = (int d = Pa_GetDefaultInputDevice p \<or> int d = Pa_GetDefaultOutputDevice p)
                \<and> (props (deviceList st' ! d) AND rawr_AudioDeviceProps_Input \<noteq> 0)
                    = (0 < maxInputChannels (Pa_GetDeviceInfo p (int d)))
                \<and> (props (deviceList st' ! d) AND rawr_AudioDeviceProps_Output \<noteq> 0)
                    = (0 < maxOutputChannels (Pa_GetDeviceInfo p (int d)))))"
proof (cases "initialized st \<or> Pa_Initialize p \<noteq> 0 \<or> Pa_GetDeviceCount p \<le> 0 \<or> \<not> mem_list")
  case True
  then show ?thesis
    using assms by (auto simp: rawr_Audio_Setup_def Let_def rawr_codes rawr_AudioDevice_DefaultInput_def
        rawr_AudioDevice_DefaultOutput_def split: if_splits)
next
  case False
  let ?st = "st\<lparr>initialized := True, deviceCount := Pa_GetDeviceCount p, defaultInputId := Pa_GetDefaultInputDevice p,
      defaultOutputId := Pa_GetDefaultOutputDevice p\<rparr>" and ?ds = "takeWhile mem_dev [0..Pa_GetDeviceCount p - 1]"
  have st': "st' = ?st\<lparr>deviceList := map (probe_device p ?st) ?ds\<rparr>" and r: "r = rawr_Success"
    using assms False by (auto simp: rawr_Audio_Setup_def Let_def probe_devices_prefix rawr_codes split: bool.splits)
  have nth: "deviceList st' ! d = probe_device p ?st (int d)" if "d < length ?ds" for d
    using that length_takeWhile_le [of mem_dev "[0..Pa_GetDeviceCount p - 1]"] by (simp add: st' takeWhile_nth nth_upto)
  then show ?thesis using False r probe_device_props [of p ?st] by (simp add: st')
qed

definition demo_pa :: pa where
  "demo_pa = \<lparr>Pa_Initialize = 0, Pa_Terminate = 0, Pa_GetDeviceCount = 2, Pa_GetDefaultInputDevice = 1,
     Pa_GetDefaultOutputDevice = -1, Pa_GetDeviceInfo = \<lambda>d. \<lparr>name = ''dev'', maxInputChannels = d,
     maxOutputChannels = 1 - d, defaultLowInputLatency = 0\<rparr>, Pa_IsFormatSupported = \<lambda>i ou r. False,
     Pa_OpenStream = \<lambda>i ou r n. -1, Pa_StartStream = 0, Pa_StopStream = 0\<rparr>"

theorem Audio_Setup_devices_witness:
  "\<exists>st'. rawr_Audio_Setup demo_pa True (\<lambda>_. True) audio_priv_zero = (st', rawr_Success) \<and> length (deviceList st') = 2
     \<and> props (deviceList st' ! 1) AND rawr_AudioDeviceProps_Input \<noteq> 0
     \<and> props (deviceList st' ! 1) AND rawr_AudioDeviceProps_Output = 0"
proof -
  obtain st' r where run: "rawr_Audio_Setup demo_pa True (\<lambda>_. True) audio_priv_zero = (st', r)" by fastforce
  have "takeWhile (\<lambda>_. True) [0..1 :: int] = [0, 1]" by (simp add: upto.simps)
  then have len: "length (takeWhile (\<lambda>_. True) [0..1 :: int]) = 2" by simp
  have t: "r = rawr_Success" "length (deviceList st') = 2"
    "\<forall>d<2. (props (deviceList st' ! d) AND rawr_AudioDeviceProps_Input \<noteq> 0) = (0 < d)
       \<and> (props (deviceList st' ! d) AND rawr_AudioDeviceProps_Output \<noteq> 0) = (d = 0)"
    using Audio_Setup_devices [OF run] len by (simp_all add: demo_pa_def audio_priv_zero_def)
  show ?thesis using run t(1,2) spec [OF t(3), of 1] by simp
qed

end
