(* ===== verification/AudioPS5.thy ===== *)
theory AudioPS5
  imports AudioStream
begin

text \<open>
  Audio on the PS5, \<^verbatim>\<open>src/AudioPS5.c\<close>: the same interface on a thread that moves 256 samples per
  round. Names carry the suffix \<open>_PS5\<close>, since the file defines the functions of \<^verbatim>\<open>src/AudioPA.c\<close> again for
  the other platform. The results of the console's audio calls are arguments.
\<close>

section \<open>Operations\<close>

definition SCE_AUDIO_IN_GRAIN_256 :: nat where "SCE_AUDIO_IN_GRAIN_256 = 256"

record rawr_AudioStreamPriv_PS5 =
  userId :: int
  outHandle :: int
  inHandle :: int

record rawr_AudioStream_PS5 =
  ps5_priv :: "rawr_AudioStreamPriv_PS5 option"
  ps5_sampleRate :: int
  ps5_rbToDevice :: rawr_RingBuffer
  ps5_rbFromDevice :: rawr_RingBuffer
  ps5_sampleCapacity :: size_t
  ps5_channelCount :: int
  ps5_sampleCount :: int
  ps5_inputLevel :: int
  ps5_outputLevel :: int

definition rawr_Audio_Setup_PS5 :: int where "rawr_Audio_Setup_PS5 = rawr_Success"
definition rawr_Audio_Cleanup_PS5 :: int where "rawr_Audio_Cleanup_PS5 = rawr_Success"

definition rawr_AudioDevice_Get_PS5 :: "int \<Rightarrow> rawr_AudioDevice option option" where
  "rawr_AudioDevice_Get_PS5 i = do { guard (i > 0); Some None }"

definition rawr_AudioDevice_DefaultInput_PS5 :: "rawr_AudioDevice option" where
  "rawr_AudioDevice_DefaultInput_PS5 = None"

definition rawr_AudioDevice_DefaultOutput_PS5 :: "rawr_AudioDevice option" where
  "rawr_AudioDevice_DefaultOutput_PS5 = None"

definition rawr_AudioDevice_Name_PS5 :: "rawr_AudioDevice option \<Rightarrow> string option" where
  "rawr_AudioDevice_Name_PS5 dev = map_option (\<lambda>_. ''AudioDevice'') dev"

definition rawr_AudioDevice_OutputChannels_PS5 :: "rawr_AudioDevice option \<Rightarrow> int option" where
  "rawr_AudioDevice_OutputChannels_PS5 dev = map_option (\<lambda>_. 1) dev"

definition rawr_AudioDevice_InputChannels_PS5 :: "rawr_AudioDevice option \<Rightarrow> int option" where
  "rawr_AudioDevice_InputChannels_PS5 dev = map_option (\<lambda>_. 1) dev"

text \<open>
  \<open>mem i\<close> is the outcome of the \<open>i\<close>-th allocation: the stream, the two data areas, the private part.
  \<open>user\<close>, \<open>outinit\<close> and \<open>initial\<close> are the results of the service calls, \<open>already\<close> the code for an audio
  system that was initialised before.
\<close>

definition rawr_AudioStream_Setup_PS5 ::
  "(nat \<Rightarrow> bool) \<Rightarrow> int \<Rightarrow> int \<Rightarrow> int \<Rightarrow> int \<Rightarrow> int \<Rightarrow> rawr_AudioStream_PS5 \<Rightarrow> int \<Rightarrow> int \<Rightarrow> int \<Rightarrow>
   (rawr_AudioStream_PS5 handle \<times> int) option" where
  "rawr_AudioStream_Setup_PS5 mem user outinit already initial uid junk rate channels count = do {
     guard (- (2 ^ 31) \<le> count * 10 \<and> count * 10 < 2 ^ 31);
     let numSamples = rawr_Util_NextPowerOf2 (word_of_int (count * 10));
         numBytes = numSamples * of_nat sizeof_AudioSample
     in if \<not> mem 0 then Some (Unset, rawr_Error)
        else (let s = junk\<lparr>ps5_sampleRate := rate, ps5_channelCount := channels, ps5_sampleCount := count,
                           ps5_sampleCapacity := ucast numSamples\<rparr>;
                  to = rawr_RingBuffer_Initialize (ps5_rbToDevice s) (of_nat sizeof_AudioSample) (ucast numSamples)
                         (acquire (mem 1) (unat numBytes));
                  from = rawr_RingBuffer_Initialize (ps5_rbFromDevice s) (of_nat sizeof_AudioSample) (ucast numSamples)
                         (acquire (mem 2) (unat numBytes));
                  s = s\<lparr>ps5_rbToDevice := fst to, ps5_rbFromDevice := fst from\<rparr>
              in if snd to \<noteq> 0 \<or> snd from \<noteq> 0 then Some (Freed, rawr_Error)
                 else if \<not> mem 3 then Some (Live s, rawr_Error)
                 else if user \<noteq> 0 then Some (Freed, rawr_Error)
                 else if outinit \<noteq> 0 \<and> outinit \<noteq> already then Some (Freed, rawr_Error)
                 else if initial < 0 then Some (Freed, rawr_Error)
                 else Some (Live (s\<lparr>ps5_priv := Some \<lparr>userId = uid, outHandle = 0, inHandle = 0\<rparr>,
                                    ps5_inputLevel := 0, ps5_outputLevel := 0\<rparr>), rawr_Success))
   }"

definition rawr_AudioStream_Cleanup_PS5 :: "rawr_AudioStream_PS5 handle \<Rightarrow> rawr_AudioStream_PS5 handle option" where
  "rawr_AudioStream_Cleanup_PS5 h = (case h of Live s \<Rightarrow> Some Freed | _ \<Rightarrow> None)"

definition rawr_AudioStream_AddDevice_PS5 :: "rawr_AudioStream_PS5 \<Rightarrow> rawr_AudioDevice option \<Rightarrow> rawr_AudioStream_PS5 \<times> int" where
  "rawr_AudioStream_AddDevice_PS5 s dev = (s, rawr_Success)"

definition rawr_AudioStream_Start_PS5 :: "int \<Rightarrow> int" where
  "rawr_AudioStream_Start_PS5 launch = (if launch \<noteq> 0 then rawr_Error else rawr_Success)"

definition rawr_AudioStream_Stop_PS5 :: "int \<Rightarrow> int \<Rightarrow> int" where
  "rawr_AudioStream_Stop_PS5 in_close out_close =
     (if in_close < 0 then rawr_Error else if out_close < 0 then rawr_Error else rawr_Success)"

definition rawr_AudioStream_Read_PS5 :: "rawr_AudioStream_PS5 \<Rightarrow> bytes \<Rightarrow> (rawr_AudioStream_PS5 \<times> bytes \<times> size_t) option" where
  "rawr_AudioStream_Read_PS5 s buf =
     (if rawr_RingBuffer_GetReadAvailable (ps5_rbFromDevice s) < word_of_int (ps5_sampleCount s) then Some (s, buf, 0)
      else map_option (\<lambda>(rb, buf, n). (s\<lparr>ps5_rbFromDevice := rb\<rparr>, buf, n))
             (rawr_RingBuffer_Read (ps5_rbFromDevice s) buf (word_of_int (ps5_sampleCount s))))"

definition rawr_AudioStream_Write_PS5 :: "rawr_AudioStream_PS5 \<Rightarrow> bytes \<Rightarrow> (rawr_AudioStream_PS5 \<times> size_t) option" where
  "rawr_AudioStream_Write_PS5 s buf =
     (if rawr_RingBuffer_GetWriteAvailable (ps5_rbToDevice s) < word_of_int (ps5_sampleCount s) then Some (s, 0)
      else map_option (\<lambda>(rb, n). (s\<lparr>ps5_rbToDevice := rb\<rparr>, n))
             (rawr_RingBuffer_Write (ps5_rbToDevice s) buf (word_of_int (ps5_sampleCount s))))"

section \<open>The audio thread\<close>

text \<open>
  One round of the thread: \<open>ret_out\<close> and \<open>ret_in\<close> are the results of the two blocking calls, \<open>input\<close> the
  256 samples the microphone delivers. \<open>Inl\<close> leaves the loop.
\<close>

type_synonym ps5_loop = "rawr_AudioStream_PS5 \<times> bytes"

definition rawr_AudioStream_AudioThread_round ::
  "int \<Rightarrow> int \<Rightarrow> bytes \<Rightarrow> ps5_loop \<Rightarrow> (ps5_loop + ps5_loop) option" where
  "rawr_AudioStream_AudioThread_round ret_out ret_in input st =
     (case st of (s, outputSamples) \<Rightarrow> do {
        (to, ob) \<leftarrow> callback_output (ps5_rbToDevice s) (Some outputSamples) SCE_AUDIO_IN_GRAIN_256;
        let s = s\<lparr>ps5_rbToDevice := to\<rparr>; outputSamples = the ob
        in if ret_out < 0 then Some (Inl (s, outputSamples))
           else do {
             guard (ret_out = int SCE_AUDIO_IN_GRAIN_256);
             if ret_in < 0 then Some (Inl (s, outputSamples))
             else do {
               guard (ret_in = int SCE_AUDIO_IN_GRAIN_256);
               from \<leftarrow> callback_input (ps5_rbFromDevice s) (Some input) SCE_AUDIO_IN_GRAIN_256;
               Some (Inr (s\<lparr>ps5_inputLevel := \<lfloor>level (rms input SCE_AUDIO_IN_GRAIN_256) * RAWR_AUDIOSTREAM_LEVEL_MULTIPLIER\<rfloor>,
                            ps5_outputLevel := \<lfloor>level (rms outputSamples SCE_AUDIO_IN_GRAIN_256) * RAWR_AUDIOSTREAM_LEVEL_MULTIPLIER\<rfloor>,
                            ps5_rbFromDevice := from\<rparr>, outputSamples))
             }
           }
      })"

text \<open>The thread opens both devices, then loops until a call fails; \<open>rounds\<close> lists what the calls of
  the rounds return. The result has the sample buffers handed to the output device, in order; the flag tells whether the loop was left.\<close>

fun rawr_AudioStream_AudioThread_loop ::
  "(int \<times> int \<times> bytes) list \<Rightarrow> ps5_loop \<Rightarrow> (ps5_loop \<times> bytes list \<times> bool) option" where
  "rawr_AudioStream_AudioThread_loop [] st = Some (st, [], False)"
| "rawr_AudioStream_AudioThread_loop ((ro, ri, input) # rounds) st =
     (case rawr_AudioStream_AudioThread_round ro ri input st of
        None \<Rightarrow> None
      | Some (Inl st') \<Rightarrow> Some (st', [snd st'], True)
      | Some (Inr st') \<Rightarrow>
          map_option (\<lambda>(st'', outs, ended). (st'', snd st' # outs, ended)) (rawr_AudioStream_AudioThread_loop rounds st'))"

definition rawr_AudioStream_AudioThread ::
  "int \<Rightarrow> int \<Rightarrow> (int \<times> int \<times> bytes) list \<Rightarrow> rawr_AudioStream_PS5 \<Rightarrow> (ps5_loop \<times> bytes list \<times> bool) option" where
  "rawr_AudioStream_AudioThread out_open in_open rounds s = do {
     pr \<leftarrow> ps5_priv s;
     let outputSamples = replicate (SCE_AUDIO_IN_GRAIN_256 * sizeof_AudioSample) 0;
         s = s\<lparr>ps5_priv := Some (pr\<lparr>outHandle := out_open\<rparr>)\<rparr>
     in if out_open < 0 then Some ((s, outputSamples), [], True)
        else (let s = s\<lparr>ps5_priv := Some (pr\<lparr>outHandle := out_open, inHandle := in_open\<rparr>)\<rparr>
              in if in_open < 0 then Some ((s, outputSamples), [], True)
                 else rawr_AudioStream_AudioThread_loop rounds (s, outputSamples))
   }"

section \<open>The stream contract\<close>

definition ps5_ok :: "nat \<Rightarrow> rawr_AudioStream_PS5 \<Rightarrow> bool" where
  "ps5_ok cap s \<longleftrightarrow> 0 < ps5_sampleCount s \<and> ps5_sampleCount s \<le> int cap \<and> cap < 2 ^ 31
     \<and> ring_ok cap (ps5_rbToDevice s) \<and> ring_ok cap (ps5_rbFromDevice s)"

definition ps5_queued :: "rawr_AudioStream_PS5 \<Rightarrow> bytes list" where
  "ps5_queued s = rb_contents (ps5_rbToDevice s)"

definition ps5_captured :: "rawr_AudioStream_PS5 \<Rightarrow> bytes list" where
  "ps5_captured s = rb_contents (ps5_rbFromDevice s)"

text \<open>A PS5 stream behaves as the PortAudio stream with the same rings.\<close>

definition as_pa :: "rawr_AudioStream_PS5 \<Rightarrow> rawr_AudioStream" where
  "as_pa s = demo_stream\<lparr>stream_priv := Some (zero_priv\<lparr>rbToDevice := ps5_rbToDevice s, rbFromDevice := ps5_rbFromDevice s\<rparr>),
     sampleCount := ps5_sampleCount s\<rparr>"

lemma as_pa_ok: "stream_ok cap (as_pa s) = ps5_ok cap s"
  and as_pa_queued: "queued (as_pa s) = ps5_queued s"
  and as_pa_captured: "captured (as_pa s) = ps5_captured s"
  and as_pa_count: "sampleCount (as_pa s) = ps5_sampleCount s"
  by (auto simp: as_pa_def stream_ok_def ps5_ok_def queued_def ps5_queued_def captured_def ps5_captured_def)

lemmas as_pa_simps = as_pa_ok as_pa_queued as_pa_captured as_pa_count

lemma Read_as_pa:
  "rawr_AudioStream_Read (as_pa s) buf = map_option (\<lambda>(s', b, n). (as_pa s', b, n)) (rawr_AudioStream_Read_PS5 s buf)"
  by (auto simp: rawr_AudioStream_Read_def rawr_AudioStream_Read_PS5_def as_pa_def option.map_comp comp_def
      split: bind_splits option.splits)

lemma Write_as_pa:
  "rawr_AudioStream_Write (as_pa s) buf = map_option (\<lambda>(s', n). (as_pa s', n)) (rawr_AudioStream_Write_PS5 s buf)"
  by (auto simp: rawr_AudioStream_Write_def rawr_AudioStream_Write_PS5_def as_pa_def option.map_comp comp_def
      split: bind_splits option.splits)

interpretation ps5_stream_api: audio_stream_api ps5_ok "\<lambda>s. nat (ps5_sampleCount s)" ps5_queued ps5_captured
  rawr_AudioStream_Read_PS5 rawr_AudioStream_Write_PS5
proof unfold_locales
  fix cap s assume "ps5_ok cap s"
  then show "0 < nat (ps5_sampleCount s) \<and> nat (ps5_sampleCount s) < 2 ^ 31" by (auto simp: ps5_ok_def)
next
  fix cap s buf assume ok: "ps5_ok cap s"
  have zero: "rawr_AudioStream_Read_PS5 s buf = Some (s, buf, 0)" if "length (ps5_captured s) < nat (ps5_sampleCount s)"
    using that ok ring_avail(1) [of cap "ps5_rbFromDevice s" "ps5_sampleCount s"]
    by (simp add: rawr_AudioStream_Read_PS5_def ps5_ok_def ps5_captured_def)
  from Read_frame [of cap "as_pa s", OF _ refl, unfolded as_pa_simps, OF ok, of buf] show
    "if length (ps5_captured s) < nat (ps5_sampleCount s) then rawr_AudioStream_Read_PS5 s buf = Some (s, buf, 0)
     else if nat (ps5_sampleCount s) * 2 \<le> length buf
     then \<exists>s'. rawr_AudioStream_Read_PS5 s buf = Some (s', concat (take (nat (ps5_sampleCount s)) (ps5_captured s))
              @ drop (nat (ps5_sampleCount s) * 2) buf, of_nat (nat (ps5_sampleCount s)))
            \<and> ps5_ok cap s' \<and> ps5_captured s' = drop (nat (ps5_sampleCount s)) (ps5_captured s)
            \<and> ps5_queued s' = ps5_queued s \<and> nat (ps5_sampleCount s') = nat (ps5_sampleCount s)
     else rawr_AudioStream_Read_PS5 s buf = None"
    using zero by (auto simp: Read_as_pa as_pa_simps split: if_splits)
next
  fix cap s and buf :: bytes assume ok: "ps5_ok cap s" and buf: "nat (ps5_sampleCount s) * 2 \<le> length buf"
  have zero: "rawr_AudioStream_Write_PS5 s buf = Some (s, 0)" if "cap - length (ps5_queued s) < nat (ps5_sampleCount s)"
    using that ok ring_avail(2) [of cap "ps5_rbToDevice s" "ps5_sampleCount s"]
    by (simp add: rawr_AudioStream_Write_PS5_def ps5_ok_def ps5_queued_def)
  from Write_frame [of cap "as_pa s", OF _ refl, unfolded as_pa_simps, OF ok buf] show
    "if cap - length (ps5_queued s) < nat (ps5_sampleCount s) then rawr_AudioStream_Write_PS5 s buf = Some (s, 0)
     else \<exists>s'. rawr_AudioStream_Write_PS5 s buf = Some (s', of_nat (nat (ps5_sampleCount s))) \<and> ps5_ok cap s'
            \<and> ps5_queued s' = ps5_queued s @ elems 2 buf (nat (ps5_sampleCount s)) \<and> ps5_captured s' = ps5_captured s
            \<and> nat (ps5_sampleCount s') = nat (ps5_sampleCount s)"
    using zero by (auto simp: Write_as_pa as_pa_simps split: if_splits)
qed

section \<open>Rounds\<close>

lemma round_ok:
  assumes ok: "ps5_ok cap s" and ob: "length ob = 512" and input: "512 \<le> length input"
  shows "\<exists>s' ob'. rawr_AudioStream_AudioThread_round 256 256 input (s, ob) = Some (Inr (s', ob'))
     \<and> ps5_ok cap s' \<and> length ob' = 512 \<and> ps5_sampleCount s' = ps5_sampleCount s
     \<and> ob' = (if length (ps5_queued s) < 256 then replicate 512 0 else concat (take 256 (ps5_queued s)))
     \<and> ps5_queued s' = (if length (ps5_queued s) < 256 then ps5_queued s else drop 256 (ps5_queued s))
     \<and> ps5_captured s' = ps5_captured s @ elems 2 input (min 256 (cap - length (ps5_captured s)))"
proof -
  have rings: "ring_ok cap (ps5_rbToDevice s)" "ring_ok cap (ps5_rbFromDevice s)"
    using ok by (simp_all add: ps5_ok_def)
  let ?q = "ps5_queued s"
  define ob' where "ob' = (if length ?q < 256 then replicate 512 0 else concat (take 256 ?q))"
  have sz: "list_all (\<lambda>x. length x = 2) (take 256 ?q)"
    using contents_size2 [OF rings(1)] by (simp add: ps5_queued_def list_all_iff) (metis in_set_takeD)
  have len: "length ob' = 512"
    using length_concat_const [OF sz] by (simp add: ob'_def)
  obtain to' where to': "callback_output (ps5_rbToDevice s) (Some ob) 256 = Some (to', Some ob')" "ring_ok cap to'"
    "rb_contents to' = (if length ?q < 256 then ?q else drop 256 ?q)"
    using callback_output_frame [OF rings(1), of 256 ob] ob by (auto simp: ob'_def ps5_queued_def)
  obtain from' where from': "callback_input (ps5_rbFromDevice s) (Some input) 256 = Some from'" "ring_ok cap from'"
    "rb_contents from' = ps5_captured s @ elems 2 input (min 256 (cap - length (ps5_captured s)))"
    using callback_input_frame [OF rings(2), of 256 input, OF _ _ refl] input by (auto simp: ps5_captured_def)
  show ?thesis
    using to' from' ok len
    by (simp add: rawr_AudioStream_AudioThread_round_def SCE_AUDIO_IN_GRAIN_256_def Let_def ps5_ok_def
        ps5_queued_def ps5_captured_def ob'_def)
qed

text \<open>What \<open>n\<close> rounds play of a queue: a block of 256 samples per round as long as there is one, then silence.\<close>

fun grains :: "nat \<Rightarrow> bytes list \<Rightarrow> bytes list" where
  "grains 0 q = []"
| "grains (Suc n) q = (if length q < 256 then replicate 512 0 # grains n q else concat (take 256 q) # grains n (drop 256 q))"

lemma length_grains: "length (grains n q) = n"
  by (induction n q rule: grains.induct) simp_all

lemma nth_grains:
  "k < n \<Longrightarrow> grains n q ! k = (if 256 * Suc k \<le> length q then concat (take 256 (drop (256 * k) q)) else replicate 512 0)"
proof (induction n q arbitrary: k rule: grains.induct)
  case (2 n q)
  then show ?case by (cases k) (auto simp: algebra_simps)
qed simp

lemma loop_ok:
  assumes "ps5_ok cap s" and "length ob = 512" and "list_all (\<lambda>x. 512 \<le> length x) inputs" and "length (ps5_captured s) \<le> cap"
  shows "\<exists>s' ob'. rawr_AudioStream_AudioThread_loop (map (\<lambda>x. (256, 256, x)) inputs) (s, ob)
       = Some ((s', ob'), grains (length inputs) (ps5_queued s), False)
     \<and> ps5_ok cap s' \<and> ps5_queued s' = drop (256 * min (length inputs) (length (ps5_queued s) div 256)) (ps5_queued s)
     \<and> ps5_captured s' = take cap (ps5_captured s @ concat (map (\<lambda>x. elems 2 x 256) inputs))"
  using assms
proof (induction inputs arbitrary: s ob)
  case (Cons x inputs)
  let ?q = "ps5_queued s"
  obtain s1 ob1 where 1: "rawr_AudioStream_AudioThread_round 256 256 x (s, ob) = Some (Inr (s1, ob1))"
    "ps5_ok cap s1" "length ob1 = 512" "ob1 = (if length ?q < 256 then replicate 512 0 else concat (take 256 ?q))"
    "ps5_queued s1 = (if length ?q < 256 then ?q else drop 256 ?q)"
    "ps5_captured s1 = ps5_captured s @ elems 2 x (min 256 (cap - length (ps5_captured s)))"
    using round_ok [of cap s ob x] Cons.prems by auto
  have take: "elems 2 x (min 256 k) = take k (elems 2 x 256)" for k by (simp add: elems_def take_map take_upt min.commute min_def)
  have c1: "ps5_captured s1 = take cap (ps5_captured s @ elems 2 x 256)" using Cons.prems(4) by (simp add: 1(6) take)
  have l1: "length (ps5_captured s1) \<le> cap" by (simp add: c1)
  obtain s2 ob2 where 2: "rawr_AudioStream_AudioThread_loop (map (\<lambda>x. (256, 256, x)) inputs) (s1, ob1)
       = Some ((s2, ob2), grains (length inputs) (ps5_queued s1), False)" "ps5_ok cap s2"
    "ps5_queued s2 = drop (256 * min (length inputs) (length (ps5_queued s1) div 256)) (ps5_queued s1)"
    "ps5_captured s2 = take cap (ps5_captured s1 @ concat (map (\<lambda>x. elems 2 x 256) inputs))"
    using Cons.IH [OF 1(2,3) _ l1] Cons.prems(3) by auto
  have "ps5_queued s2 = drop (256 * min (length (x # inputs)) (length ?q div 256)) ?q"
  proof (cases "length ?q < 256")
    case False
    then have "length ?q div 256 = Suc ((length ?q - 256) div 256)" by (simp add: le_div_geq)
    then show ?thesis using 2(3) 1(5) False by (simp add: min_Suc_Suc) (simp add: add.commute)
  qed (use 2(3) 1(5) in simp)
  moreover have "ps5_captured s2 = take cap (ps5_captured s @ concat (map (\<lambda>x. elems 2 x 256) (x # inputs)))"
    using 2(4) c1 Cons.prems(4) by (simp add: min_def) 
  ultimately show ?case using 1(1,4,5) 2(1,2) by simp
qed simp

section \<open>Properties\<close>

text \<open>
  (C28) While the console's audio calls succeed and the call leaves the stream alone, the audio thread neither faults nor ends, however
  many rounds it makes. Round by round it hands the output device the next 256 queued samples, oldest first, and
  silence once fewer are queued; nothing else leaves the queue. The samples the microphone delivered are appended in order
  to those captured, until the ring is full.
\<close>

theorem PS5_thread_rounds:
  assumes "ps5_ok cap s" and "list_all (\<lambda>x. 512 \<le> length x) inputs" and "ps5_priv s = Some pr"
    and "0 \<le> out_open" and "0 \<le> in_open"
  shows "\<exists>s' ob' outs. rawr_AudioStream_AudioThread out_open in_open (map (\<lambda>x. (256, 256, x)) inputs) s = Some ((s', ob'), outs, False)
     \<and> ps5_ok cap s'
     \<and> length outs = length inputs
     \<and> (\<forall>k < length outs. outs ! k = (if 256 * Suc k \<le> length (ps5_queued s)
            then concat (take 256 (drop (256 * k) (ps5_queued s))) else replicate 512 0))
     \<and> ps5_queued s' = drop (256 * min (length inputs) (length (ps5_queued s) div 256)) (ps5_queued s)
     \<and> ps5_captured s' = take cap (ps5_captured s @ concat (map (\<lambda>x. elems 2 x 256) inputs))"
proof -
  let ?s = "s\<lparr>ps5_priv := Some (pr\<lparr>outHandle := out_open, inHandle := in_open\<rparr>)\<rparr>"
  have eqs: "ps5_ok cap ?s" "ps5_queued ?s = ps5_queued s" "ps5_captured ?s = ps5_captured s" "length (ps5_captured ?s) \<le> cap"
    using assms(1) ring_bounded [of cap "ps5_rbFromDevice s"] by (simp_all add: ps5_ok_def ps5_queued_def ps5_captured_def)
  from loop_ok [OF eqs(1) _ assms(2) eqs(4), of "replicate 512 0"] obtain s' ob' where
    "rawr_AudioStream_AudioThread out_open in_open (map (\<lambda>x. (256, 256, x)) inputs) s
       = Some ((s', ob'), grains (length inputs) (ps5_queued s), False)" "ps5_ok cap s'"
    "ps5_queued s' = drop (256 * min (length inputs) (length (ps5_queued s) div 256)) (ps5_queued s)"
    "ps5_captured s' = take cap (ps5_captured s @ concat (map (\<lambda>x. elems 2 x 256) inputs))"
    using assms(3-5)
    by (auto simp: eqs(2,3) rawr_AudioStream_AudioThread_def SCE_AUDIO_IN_GRAIN_256_def sizeof_AudioSample_def Let_def)
  then show ?thesis using length_grains [of "length inputs" "ps5_queued s"] nth_grains [of _ "length inputs" "ps5_queued s"]
    by (intro exI conjI) (assumption | simp)+
qed

text \<open>A stream with rings of 512 samples, set up for frames of 256.\<close>

definition demo_ps5_ring :: rawr_RingBuffer where
  "demo_ps5_ring = fst (rawr_RingBuffer_Initialize demo_ring 2 512 (replicate 1024 0))"

lemma demo_ps5_ring_ok: "ring_ok 512 demo_ps5_ring" "rb_contents demo_ps5_ring = []"
  using rb_Initialize_ok [of 9 "replicate 1024 0" 2 demo_ring] by (simp_all add: demo_ps5_ring_def ring_ok_def)

definition demo_ps5 :: rawr_AudioStream_PS5 where
  "demo_ps5 = \<lparr>ps5_priv = Some \<lparr>userId = 1, outHandle = 0, inHandle = 0\<rparr>, ps5_sampleRate = 48000, ps5_rbToDevice = demo_ps5_ring,
     ps5_rbFromDevice = demo_ps5_ring, ps5_sampleCapacity = 512, ps5_channelCount = 1, ps5_sampleCount = 256, ps5_inputLevel = 0,
     ps5_outputLevel = 0\<rparr>"

lemma demo_ps5_ok: "ps5_ok 512 demo_ps5" "ps5_queued demo_ps5 = []" "ps5_captured demo_ps5 = []"
  by (simp_all add: ps5_ok_def ps5_queued_def ps5_captured_def demo_ps5_def demo_ps5_ring_ok)

lemma Write_PS5_priv: "rawr_AudioStream_Write_PS5 s buf = Some (s', n) \<Longrightarrow> ps5_priv s' = ps5_priv s"
  by (auto simp: rawr_AudioStream_Write_PS5_def split: if_splits)

theorem PS5_thread_rounds_witness:
  "\<exists>s s' ob'. rawr_AudioStream_Write_PS5 demo_ps5 (replicate 512 7) = Some (s, 256)
     \<and> rawr_AudioStream_AudioThread 3 4 (map (\<lambda>x. (256, 256, x)) [replicate 512 1, replicate 512 2]) s
         = Some ((s', ob'), [replicate 512 7, replicate 512 0], False)
     \<and> ps5_queued s' = [] \<and> ps5_captured s' = elems 2 (replicate 512 1) 256 @ elems 2 (replicate 512 2) 256"
proof -
  have cnt: "ps5_sampleCount demo_ps5 = 256" by (simp add: demo_ps5_def)
  obtain s where s: "rawr_AudioStream_Write_PS5 demo_ps5 (replicate 512 7) = Some (s, 256)" "ps5_ok 512 s"
    "ps5_queued s = elems 2 (replicate 512 7) 256" "ps5_captured s = []"
    using ps5_stream_api.write_law [OF demo_ps5_ok(1), of "replicate 512 7"] cnt by (auto simp: demo_ps5_ok)
  have pr: "ps5_priv s = Some \<lparr>userId = 1, outHandle = 0, inHandle = 0\<rparr>" using Write_PS5_priv [OF s(1)] by (simp add: demo_ps5_def)
  have len: "length (elems 2 b 256) = 256" for b by (simp add: elems_def)
  have cc: "concat (elems 2 (replicate 512 7) 256) = replicate 512 7" by (simp add: concat_elems)
  obtain s' ob' outs where r: "rawr_AudioStream_AudioThread 3 4 (map (\<lambda>x. (256, 256, x)) [replicate 512 1, replicate 512 2]) s
      = Some ((s', ob'), outs, False)" "length outs = 2"
    "\<forall>k < length outs. outs ! k = (if 256 * Suc k \<le> length (ps5_queued s)
        then concat (take 256 (drop (256 * k) (ps5_queued s))) else replicate 512 0)"
    "ps5_queued s' = []" "ps5_captured s' = elems 2 (replicate 512 1) 256 @ elems 2 (replicate 512 2) 256"
    using PS5_thread_rounds [OF s(2) _ pr, of "[replicate 512 1, replicate 512 2]" 3 4] by (auto simp: s(3,4) len)
  have "outs ! 0 = replicate 512 7" "outs ! 1 = replicate 512 0"
    using spec [OF r(3), of 0] spec [OF r(3), of 1] r(2) by (simp_all add: s(3) len cc)
  then have "outs = [replicate 512 7, replicate 512 0]" using r(2) by (cases outs; cases "tl outs") auto
  then show ?thesis using s(1) r by blast
qed

text \<open>
  Fetching frames from a PS5 stream delivers the captured samples in order, as many whole
  frames as were asked for or are there.
\<close>

lemma PS5_fetch_frames:
  assumes "ps5_ok cap s" and "length buf = nat (ps5_sampleCount s) * 2"
  shows "\<exists>s' outs. fetch rawr_AudioStream_Read_PS5 buf k s = Some (s', outs) \<and> ps5_ok cap s'
     \<and> length outs = min k (length (ps5_captured s) div nat (ps5_sampleCount s))
     \<and> concat outs = concat (take (length outs * nat (ps5_sampleCount s)) (ps5_captured s))
     \<and> ps5_captured s' = drop (length outs * nat (ps5_sampleCount s)) (ps5_captured s)"
  using ps5_stream_api.fetch_frames [OF assms, of k] by blast

end
