(* ===== verification/Stun.thy ===== *)
theory Stun
  imports Endpoint Codec
begin

text \<open>
  The STUN client, \<^verbatim>\<open>src/Stun.c\<close>, on the socket addresses of re. The re library's STUN transaction and
  main loop are represented by their results: the error codes of the calls and the responses the
  loop delivers before it ends.
\<close>

section \<open>Socket addresses of re\<close>

record sa =
  sa_u :: bytes
  sa_len :: nat

definition EAFNOSUPPORT :: int where "EAFNOSUPPORT = 97"

definition sa_init :: "u16 \<Rightarrow> sa" where
  "sa_init af = \<lparr>sa_u = st16 (replicate 28 0) 0 af, sa_len = 28\<rparr>"

definition sa_set_sa :: "sa \<Rightarrow> bytes \<Rightarrow> (sa \<times> int) option" where
  "sa_set_sa sa s =
     mem_read s 0 2 \<bind> (\<lambda>fam.
     if le16_of fam = rawr_SockAF_IPv4 then do {
       src \<leftarrow> mem_read s 0 16;
       u \<leftarrow> mem_write (sa_u sa) 0 src;
       Some (\<lparr>sa_u = u, sa_len = 16\<rparr>, 0)
     } else if le16_of fam = rawr_SockAF_IPv6 then do {
       src \<leftarrow> mem_read s 0 28;
       u \<leftarrow> mem_write (sa_u sa) 0 src;
       Some (\<lparr>sa_u = u, sa_len = 28\<rparr>, 0)
     } else Some (sa, EAFNOSUPPORT))"

section \<open>The client\<close>

record rawr_StunResponse =
  returnValue :: int
  endpoint :: rawr_Endpoint

record rawr_StunClient =
  udpSock :: bool
  re_stun :: bool
  sa_srv :: sa
  sa_local :: sa

text \<open>A response the STUN stack hands to the handler: error, status code, mapped address if any.\<close>

datatype stun_response = Stun_response (resp_err: int) (resp_scode: nat) (resp_attr: "bytes option")

definition rawr_StunClient_ResponseHandler :: "stun_response \<Rightarrow> rawr_StunResponse \<Rightarrow> rawr_StunResponse option" where
  "rawr_StunClient_ResponseHandler r resp =
     (if resp_err r \<noteq> 0 \<or> resp_scode r > 0 then Some (resp\<lparr>returnValue := rawr_Error\<rparr>)
      else case resp_attr r of
        None \<Rightarrow> Some (resp\<lparr>returnValue := rawr_Error\<rparr>)
      | Some attr \<Rightarrow> do {
          (ep, err) \<leftarrow> rawr_Endpoint_SetSockAddr (endpoint resp) attr;
          Some (if err \<noteq> 0 then resp\<lparr>endpoint := ep, returnValue := rawr_Error\<rparr>
                else resp\<lparr>endpoint := ep, returnValue := rawr_Success\<rparr>)
        })"

text \<open>Outcomes of the allocation, of \<^verbatim>\<open>stun_alloc\<close>, of the local address and of \<^verbatim>\<open>udp_listen\<close>.\<close>

definition rawr_StunClient_Setup :: "bool \<Rightarrow> int \<Rightarrow> (sa + int) \<Rightarrow> int \<Rightarrow> rawr_StunClient handle \<times> int" where
  "rawr_StunClient_Setup mem stun_alloc local listen =
     (if \<not> mem then (Unset, rawr_Error)
      else (let client = \<lparr>udpSock = False, re_stun = False, sa_srv = \<lparr>sa_u = replicate 28 0, sa_len = 0\<rparr>,
                          sa_local = \<lparr>sa_u = replicate 28 0, sa_len = 0\<rparr>\<rparr> in
        if stun_alloc \<noteq> 0 then (Freed, rawr_Error)
        else (let client = client\<lparr>re_stun := True\<rparr> in
          case local of
            Inr err \<Rightarrow> (Freed, rawr_Error)
          | Inl addr \<Rightarrow>
              if listen \<noteq> 0 then (Freed, rawr_Error)
              else (Live (client\<lparr>sa_local := addr, udpSock := True\<rparr>), rawr_Success))))"

definition rawr_StunClient_Cleanup :: "rawr_StunClient handle \<Rightarrow> rawr_StunClient handle option" where
  "rawr_StunClient_Cleanup h = (case h of Live c \<Rightarrow> Some Freed | _ \<Rightarrow> None)"

definition rawr_StunClient_LocalEndpoint :: "rawr_StunClient \<Rightarrow> rawr_Endpoint \<Rightarrow> (rawr_Endpoint \<times> int) option" where
  "rawr_StunClient_LocalEndpoint client out_endpoint =
     map_option (\<lambda>(ep, err). (ep, if err \<noteq> 0 then rawr_Error else rawr_Success))
       (rawr_Endpoint_SetSockAddr out_endpoint (sa_u (sa_local client)))"

text \<open>
  The main loop runs the handler on the first response, which cancels the loop; \<open>loop_err\<close> is what
  the loop returns.
\<close>

fun run_loop :: "stun_response list \<Rightarrow> rawr_StunResponse \<Rightarrow> rawr_StunResponse option" where
  "run_loop [] resp = Some resp"
| "run_loop (r # rs) resp = rawr_StunClient_ResponseHandler r resp"

definition rawr_StunClient_BindingRequest ::
  "int \<Rightarrow> stun_response list \<Rightarrow> int \<Rightarrow> rawr_StunClient \<Rightarrow> rawr_Endpoint \<Rightarrow> rawr_Endpoint \<Rightarrow>
   (rawr_StunClient \<times> rawr_Endpoint \<times> int) option" where
  "rawr_StunClient_BindingRequest request_err responses loop_err client stunServer out_endpoint =
     (let resp = \<lparr>returnValue = rawr_Error, endpoint = replicate sizeof_SockAddr6 0\<rparr>;
          client = client\<lparr>sa_srv := sa_init rawr_SockAF_IPv4\<rparr>
      in do {
        (srv, err) \<leftarrow> sa_set_sa (sa_srv client) (rawr_Endpoint_SockAddr stunServer);
        let client = client\<lparr>sa_srv := srv\<rparr>
        in if err \<noteq> 0 then Some (client, endpoint resp, rawr_Error)
           else if request_err \<noteq> 0 then Some (client, endpoint resp, rawr_Error)
           else do {
             resp \<leftarrow> run_loop responses resp;
             if loop_err \<noteq> 0 then Some (client, endpoint resp, rawr_Error)
             else Some (client, endpoint resp, rawr_Success)
           }
      })"

section \<open>Server addresses\<close>

lemma sa_set_sa_endpoint:
  assumes "ep_ok ep" and "rawr_Endpoint_Is4 ep \<or> rawr_Endpoint_Is6 ep" and "length (sa_u a) = 28"
  shows "\<exists>a'. sa_set_sa a ep = Some (a', 0) \<and> length (sa_u a') = 28 \<and> rawr_Endpoint_IsEqual ep (sa_u a')
           \<and> int (sa_len a') = rawr_Endpoint_Size ep"
proof -
  note len = ep_okD [OF assms(1)]
  have fam: "le16_of (take 2 ep) = rawr_Endpoint_AF ep" by (simp add: rawr_Endpoint_AF_def ld16_def)
  from assms(2) show ?thesis
  proof
    assume four: "rawr_Endpoint_Is4 ep"
    let ?u = "take 16 ep @ drop 16 (sa_u a)"
    have "rawr_Endpoint_AF ?u = rawr_Endpoint_AF ep" "ld16 ?u 2 = ld16 ep 2" "ld32 ?u 4 = ld32 ep 4"
      using len by (auto simp: rawr_Endpoint_AF_def intro!: ld_cong simp: take_drop)
    then show ?thesis
      using four len assms(3) not_Is6_if_Is4 [OF four]
      by (simp add: sa_set_sa_def mem_simps fam patch_def rawr_Endpoint_IsEqual_def rawr_Endpoint_Size_def
          sizeof_SockAddr4_def) (simp add: rawr_Endpoint_Is4_def rawr_Endpoint_Is6_def)
  next
    assume six: "rawr_Endpoint_Is6 ep"
    then have "\<not> rawr_Endpoint_Is4 ep" using not_Is6_if_Is4 by blast
    with six show ?thesis
      using len assms(3)
      by (simp add: sa_set_sa_def mem_simps fam patch_def rawr_Endpoint_IsEqual_def rawr_Endpoint_Size_def
          sizeof_SockAddr6_def rawr_Endpoint_Is6_def rawr_Endpoint_Is4_def)
  qed
qed

text \<open>The endpoint that answers \<open>responses\<close>: the mapped address of a good first response, else zero.\<close>

definition stun_mapped :: "stun_response list \<Rightarrow> rawr_Endpoint \<Rightarrow> bool" where
  "stun_mapped responses ep =
     (case responses of
        Stun_response err scode (Some a) # rs \<Rightarrow>
          if err = 0 \<and> scode = 0 \<and> (rawr_Endpoint_Is4 a \<or> rawr_Endpoint_Is6 a)
          then rawr_Endpoint_IsEqual ep a else ep = replicate 28 0
      | _ \<Rightarrow> ep = replicate 28 0)"

section \<open>Properties\<close>

text \<open>
  (C31) A binding request to a valid server whose calls succeed returns success whatever the server
  answered. The endpoint handed out is the mapped address when a response without error carried
  one of a known family, and all zero bytes otherwise.
\<close>

theorem BindingRequest_result:
  assumes "ep_ok srv" and "rawr_Endpoint_Is4 srv \<or> rawr_Endpoint_Is6 srv"
    and "list_all (\<lambda>r. case resp_attr r of None \<Rightarrow> True | Some a \<Rightarrow> 28 \<le> length a) responses"
  shows "\<exists>client' ep. rawr_StunClient_BindingRequest 0 responses 0 client srv out = Some (client', ep, rawr_Success)
     \<and> rawr_Endpoint_IsEqual srv (sa_u (sa_srv client'))
     \<and> stun_mapped responses ep"
proof -
  let ?z = "replicate 28 0 :: bytes"
  have z: "ep_ok ?z" by (simp add: ep_ok_def sizeof_SockAddr6_def)
  have "length (sa_u (sa_init rawr_SockAF_IPv4)) = 28" by (simp add: sa_init_def)
  then obtain a' where a': "sa_set_sa (sa_init rawr_SockAF_IPv4) srv = Some (a', 0)" "rawr_Endpoint_IsEqual srv (sa_u a')"
    using sa_set_sa_endpoint [OF assms(1,2)] by blast
  have "\<exists>resp'. run_loop responses \<lparr>returnValue = rawr_Error, endpoint = ?z\<rparr> = Some resp'
     \<and> stun_mapped responses (endpoint resp')"
  proof (cases responses)
    case (Cons r rs)
    obtain err scode at where r: "r = Stun_response err scode at" by (cases r)
    show ?thesis
    proof (cases at)
      case (Some a)
      then have "28 \<le> length a" using assms(3) Cons r by simp
      from Endpoint_SetSockAddr_cases [OF z this] show ?thesis
        using Cons r Some by (auto simp: rawr_StunClient_ResponseHandler_def stun_mapped_def split: if_splits)
    qed (use Cons r in \<open>simp add: rawr_StunClient_ResponseHandler_def stun_mapped_def\<close>)
  qed (simp add: stun_mapped_def)
  with a' show ?thesis
    by (auto simp: rawr_StunClient_BindingRequest_def rawr_Endpoint_SockAddr_def Let_def sizeof_SockAddr6_def)
qed

theorem BindingRequest_result_witness:
  "\<exists>client' ep. rawr_StunClient_BindingRequest 0 [Stun_response 110 0 None] 0
      \<lparr>udpSock = True, re_stun = True, sa_srv = \<lparr>sa_u = [], sa_len = 0\<rparr>, sa_local = \<lparr>sa_u = [], sa_len = 0\<rparr>\<rparr>
      (rawr_Endpoint_SetBytes (replicate 28 0) 35 170 178 149 3478) (replicate 28 7) = Some (client', ep, rawr_Success)
     \<and> ep = replicate 28 0"
proof -
  have z: "ep_ok (replicate 28 0)" by (simp add: ep_ok_def sizeof_SockAddr6_def)
  have "ep_ok (rawr_Endpoint_SetBytes (replicate 28 0) 35 170 178 149 3478)"
    "rawr_Endpoint_Is4 (rawr_Endpoint_SetBytes (replicate 28 0) 35 170 178 149 3478)"
    using SetBytes_nth(1) [OF z] SetBytes_fields(1) [OF z]
    by (simp_all add: ep_ok_def rawr_Endpoint_Is4_def sizeof_SockAddr6_def)
  from BindingRequest_result [OF this(1), of "[Stun_response 110 0 None]"] this(2) show ?thesis
    by (fastforce simp: stun_mapped_def)
qed

end
