(* ===== verification/Mbuf.thy ===== *)
theory Mbuf
  imports Bytes
begin

text \<open>
  Memory buffers of re, \<^verbatim>\<open>deps/re/src/mbuf/mbuf.c\<close> and the inline functions of \<^verbatim>\<open>re_mbuf.h\<close>, as far as
  the call and its packets use them. \<open>mb_buf\<close> is the allocated memory, so its length is the field
  \<^verbatim>\<open>size\<close>; positions are natural numbers. \<open>mem n\<close> tells whether an allocation of \<open>n\<close> bytes succeeds; fresh
  memory is zero.
\<close>

section \<open>Operations\<close>

record mbuf =
  mb_buf :: bytes
  mb_pos :: nat
  mb_end :: nat

definition ENOMEM :: int where "ENOMEM = 12"
definition EINVAL :: int where "EINVAL = 22"
definition ERANGE :: int where "ERANGE = 34"
definition EBADMSG :: int where "EBADMSG = 74"
definition EOVERFLOW :: int where "EOVERFLOW = 75"
definition EAUTH :: int where "EAUTH = 217"
definition ENOSR :: int where "ENOSR = 63"
definition ETIMEDOUT :: int where "ETIMEDOUT = 110"
definition EALREADY :: int where "EALREADY = 114"

lemmas errno_defs [rawr_defs] = ENOMEM_def EINVAL_def ERANGE_def EBADMSG_def EOVERFLOW_def EAUTH_def EALREADY_def
  ENOSR_def ETIMEDOUT_def

definition DEFAULT_SIZE :: nat where "DEFAULT_SIZE = 512"

definition mbuf_init :: mbuf where
  "mbuf_init = \<lparr>mb_buf = [], mb_pos = 0, mb_end = 0\<rparr>"

definition mbuf_resize :: "(nat \<Rightarrow> bool) \<Rightarrow> mbuf \<Rightarrow> nat \<Rightarrow> mbuf \<times> int" where
  "mbuf_resize mem mb n =
     (if \<not> mem n then (mb, ENOMEM)
      else (mb\<lparr>mb_buf := take n (mb_buf mb) @ replicate (n - length (mb_buf mb)) 0\<rparr>, 0))"

definition mbuf_alloc :: "(nat \<Rightarrow> bool) \<Rightarrow> nat \<Rightarrow> mbuf option" where
  "mbuf_alloc mem n =
     (case mbuf_resize mem mbuf_init (if n \<noteq> 0 then n else DEFAULT_SIZE) of
        (mb, err) \<Rightarrow> if err \<noteq> 0 then None else Some mb)"

definition mbuf_get_left :: "mbuf \<Rightarrow> nat" where
  "mbuf_get_left mb = (if mb_end mb > mb_pos mb then mb_end mb - mb_pos mb else 0)"

definition mbuf_get_space :: "mbuf \<Rightarrow> nat" where
  "mbuf_get_space mb = (if length (mb_buf mb) > mb_pos mb then length (mb_buf mb) - mb_pos mb else 0)"

definition mbuf_set_pos :: "mbuf \<Rightarrow> nat \<Rightarrow> mbuf" where
  "mbuf_set_pos mb pos = mb\<lparr>mb_pos := pos\<rparr>"

definition mbuf_set_end :: "mbuf \<Rightarrow> nat \<Rightarrow> mbuf" where
  "mbuf_set_end mb e = mb\<lparr>mb_end := e\<rparr>"

definition mbuf_rewind :: "mbuf \<Rightarrow> mbuf" where
  "mbuf_rewind mb = mb\<lparr>mb_pos := 0, mb_end := 0\<rparr>"

definition mbuf_skip_to_end :: "mbuf \<Rightarrow> mbuf" where
  "mbuf_skip_to_end mb = mb\<lparr>mb_pos := mb_end mb\<rparr>"

definition mbuf_trim :: "(nat \<Rightarrow> bool) \<Rightarrow> mbuf \<Rightarrow> mbuf" where
  "mbuf_trim mem mb =
     (if mb_end mb = 0 \<or> mb_end mb = length (mb_buf mb) then mb else fst (mbuf_resize mem mb (mb_end mb)))"

definition mbuf_write_mem :: "(nat \<Rightarrow> bool) \<Rightarrow> mbuf \<Rightarrow> bytes \<Rightarrow> mbuf \<times> int" where
  "mbuf_write_mem mem mb data =
     (let rsize = mb_pos mb + length data;
          dsize = (if length (mb_buf mb) \<noteq> 0 then length (mb_buf mb) * 2 else DEFAULT_SIZE)
      in case (if rsize > length (mb_buf mb) then mbuf_resize mem mb (max rsize dsize) else (mb, 0)) of
           (mb, err) \<Rightarrow>
             if err \<noteq> 0 then (mb, err)
             else (mb\<lparr>mb_buf := patch (mb_buf mb) (mb_pos mb) data, mb_pos := mb_pos mb + length data,
                      mb_end := max (mb_end mb) (mb_pos mb + length data)\<rparr>, 0))"

definition mbuf_write_u8 :: "(nat \<Rightarrow> bool) \<Rightarrow> mbuf \<Rightarrow> u8 \<Rightarrow> mbuf \<times> int" where
  "mbuf_write_u8 mem mb v = mbuf_write_mem mem mb [v]"

definition mbuf_write_u16 :: "(nat \<Rightarrow> bool) \<Rightarrow> mbuf \<Rightarrow> u16 \<Rightarrow> mbuf \<times> int" where
  "mbuf_write_u16 mem mb v = mbuf_write_mem mem mb (le16 v)"

definition mbuf_write_u32 :: "(nat \<Rightarrow> bool) \<Rightarrow> mbuf \<Rightarrow> u32 \<Rightarrow> mbuf \<times> int" where
  "mbuf_write_u32 mem mb v = mbuf_write_mem mem mb (le32 v)"

text \<open>\<open>Inl\<close> is the error code; \<open>None\<close> a read outside the memory, when \<^verbatim>\<open>end\<close> exceeds \<^verbatim>\<open>size\<close>.\<close>

definition mbuf_read_mem :: "mbuf \<Rightarrow> nat \<Rightarrow> (mbuf \<times> (int + bytes)) option" where
  "mbuf_read_mem mb n =
     (if n > mbuf_get_left mb then Some (mb, Inl EOVERFLOW)
      else map_option (\<lambda>bs. (mb\<lparr>mb_pos := mb_pos mb + n\<rparr>, Inr bs)) (mem_read (mb_buf mb) (mb_pos mb) n))"

definition mbuf_read_u8 :: "mbuf \<Rightarrow> (mbuf \<times> u8) option" where
  "mbuf_read_u8 mb =
     map_option (\<lambda>(mb, r). (mb, case r of Inl _ \<Rightarrow> 0 | Inr bs \<Rightarrow> bs ! 0)) (mbuf_read_mem mb 1)"

definition mbuf_read_u16 :: "mbuf \<Rightarrow> (mbuf \<times> u16) option" where
  "mbuf_read_u16 mb =
     map_option (\<lambda>(mb, r). (mb, case r of Inl _ \<Rightarrow> 0 | Inr bs \<Rightarrow> le16_of bs)) (mbuf_read_mem mb 2)"

definition mbuf_read_u32 :: "mbuf \<Rightarrow> (mbuf \<times> u32) option" where
  "mbuf_read_u32 mb =
     map_option (\<lambda>(mb, r). (mb, case r of Inl _ \<Rightarrow> 0 | Inr bs \<Rightarrow> le32_of bs)) (mbuf_read_mem mb 4)"

section \<open>Invariant\<close>

definition mbuf_ok :: "mbuf \<Rightarrow> bool" where
  "mbuf_ok mb \<longleftrightarrow> mb_end mb \<le> length (mb_buf mb)"

text \<open>The bytes from the position to the end, which are those a reader will see.\<close>

definition mbuf_rest :: "mbuf \<Rightarrow> bytes" where
  "mbuf_rest mb = take (mbuf_get_left mb) (drop (mb_pos mb) (mb_buf mb))"

lemma length_mbuf_rest: "mbuf_ok mb \<Longrightarrow> length (mbuf_rest mb) = mbuf_get_left mb"
  by (auto simp: mbuf_rest_def mbuf_ok_def mbuf_get_left_def)

lemma length_resize:
  "mbuf_resize mem mb n = (mb', 0) \<Longrightarrow> length (mb_buf mb') = n \<and> mb_pos mb' = mb_pos mb \<and> mb_end mb' = mb_end mb
     \<and> take (length (mb_buf mb)) (mb_buf mb') = take n (mb_buf mb)"
  by (auto simp: mbuf_resize_def ENOMEM_def min_def split: if_splits)

text \<open>What a write leaves behind: the data at the old position, everything else as it was.\<close>

lemma mbuf_write_mem_cases:
  assumes "mbuf_write_mem mem mb data = (mb', err)"
  obtains "err = ENOMEM" "mb' = mb"
  | m where "err = 0" "length m \<ge> mb_pos mb + length data" "length m \<ge> length (mb_buf mb)"
      "take (length (mb_buf mb)) m = mb_buf mb"
      "mb' = mb\<lparr>mb_buf := patch m (mb_pos mb) data, mb_pos := mb_pos mb + length data,
                mb_end := max (mb_end mb) (mb_pos mb + length data)\<rparr>"
proof (cases "mb_pos mb + length data > length (mb_buf mb)")
  case False
  then show ?thesis
    using assms that(2) [of "mb_buf mb"] by (simp add: mbuf_write_mem_def Let_def)
next
  case True
  let ?n = "max (mb_pos mb + length data) (if length (mb_buf mb) \<noteq> 0 then length (mb_buf mb) * 2 else DEFAULT_SIZE)"
  show ?thesis
  proof (cases "mem ?n")
    case False
    then show ?thesis
      using assms True that(1) by (simp add: mbuf_write_mem_def Let_def mbuf_resize_def ENOMEM_def split: if_splits)
  next
    case m: True
    have n: "length (mb_buf mb) \<le> ?n" "mb_pos mb + length data \<le> ?n" by auto
    show ?thesis
    proof (rule that(2))
      let ?m = "mb_buf mb @ replicate (?n - length (mb_buf mb)) 0"
      show "mb' = mb\<lparr>mb_buf := patch ?m (mb_pos mb) data, mb_pos := mb_pos mb + length data,
                mb_end := max (mb_end mb) (mb_pos mb + length data)\<rparr>" and "err = 0"
        using assms True m n by (simp_all add: mbuf_write_mem_def Let_def mbuf_resize_def)
      show "length ?m \<ge> mb_pos mb + length data" "length ?m \<ge> length (mb_buf mb)"
        "take (length (mb_buf mb)) ?m = mb_buf mb" using n by simp_all
    qed
  qed
qed

lemma mbuf_write_mem_ok: "mbuf_ok mb \<Longrightarrow> mbuf_write_mem mem mb data = (mb', err) \<Longrightarrow> mbuf_ok mb'"
  by (erule mbuf_write_mem_cases) (auto simp: mbuf_ok_def)

text \<open>A writer at the end of the buffer appends to what was written.\<close>

definition mbuf_written :: "mbuf \<Rightarrow> bytes" where
  "mbuf_written mb = take (mb_end mb) (mb_buf mb)"

lemma mbuf_write_append:
  assumes "mbuf_ok mb" and "mb_pos mb = mb_end mb" and "mbuf_write_mem mem mb data = (mb', 0)"
  shows "mbuf_ok mb' \<and> mb_pos mb' = mb_end mb' \<and> mb_end mb' = mb_end mb + length data
       \<and> mbuf_written mb' = mbuf_written mb @ data \<and> length (mb_buf mb) \<le> length (mb_buf mb')"
  using assms(3)
proof (cases rule: mbuf_write_mem_cases)
  case (2 m)
  have "take (mb_end mb) m = take (mb_end mb) (mb_buf mb)"
    using assms(1) 2(4) by (metis mbuf_ok_def min.absorb1 take_take)
  then show ?thesis
    using assms 2 by (simp add: mbuf_ok_def mbuf_written_def patch_def)
qed (simp add: ENOMEM_def)

lemma mbuf_write_fits:
  assumes "mb_pos mb + length data \<le> length (mb_buf mb)"
  shows "mbuf_write_mem mem mb data = (mb\<lparr>mb_buf := patch (mb_buf mb) (mb_pos mb) data,
     mb_pos := mb_pos mb + length data, mb_end := max (mb_end mb) (mb_pos mb + length data)\<rparr>, 0)"
  using assms by (simp add: mbuf_write_mem_def Let_def)

lemma mbuf_read_mem_ok:
  assumes "mbuf_ok mb" and "0 < n"
  shows "mbuf_read_mem mb n =
     (if n > mbuf_get_left mb then Some (mb, Inl EOVERFLOW)
      else Some (mb\<lparr>mb_pos := mb_pos mb + n\<rparr>, Inr (take n (mbuf_rest mb))))"
  using assms by (auto simp: mbuf_read_mem_def mem_read_def mbuf_rest_def mbuf_ok_def mbuf_get_left_def min_def)

lemma mbuf_rest_advance:
  assumes "mbuf_ok mb" and "n \<le> mbuf_get_left mb"
  shows "mbuf_rest (mb\<lparr>mb_pos := mb_pos mb + n\<rparr>) = drop n (mbuf_rest mb)"
    and "mbuf_get_left (mb\<lparr>mb_pos := mb_pos mb + n\<rparr>) = mbuf_get_left mb - n"
    and "mbuf_ok (mb\<lparr>mb_pos := mb_pos mb + n\<rparr>)"
  using assms by (auto simp: mbuf_rest_def mbuf_get_left_def mbuf_ok_def drop_take add.commute)

end
