(* ===== verification/Rtp.thy ===== *)
theory Rtp
  imports Mbuf
begin

text \<open>
  RTP headers, \<^verbatim>\<open>rtp_hdr_encode\<close> and \<^verbatim>\<open>rtp_hdr_decode\<close> of \<^verbatim>\<open>deps/re/src/rtp/rtp.c\<close>, on memory buffers: the bytes
  the encoder appends, the reader as a consumer of the remaining bytes, and their round trip.
\<close>

section \<open>Operations\<close>

record rtp_header =
  hdr_ver :: u8
  hdr_pad :: bool
  hdr_ext :: bool
  hdr_cc :: u8
  hdr_m :: bool
  hdr_pt :: u8
  hdr_seq :: u16
  hdr_ts :: u32
  hdr_ssrc :: u32
  hdr_csrc :: "u32 list"
  hdr_x_type :: u16
  hdr_x_len :: u16

definition RTP_VERSION :: u8 where "RTP_VERSION = 2"
definition RTP_HEADER_SIZE :: nat where "RTP_HEADER_SIZE = 12"

fun write_u32s :: "(nat \<Rightarrow> bool) \<Rightarrow> mbuf \<Rightarrow> int \<Rightarrow> u32 list \<Rightarrow> mbuf \<times> int" where
  "write_u32s mem mb err [] = (mb, err)"
| "write_u32s mem mb err (c # cs) =
     (case mbuf_write_u32 mem mb (htonl c) of (mb, e) \<Rightarrow> write_u32s mem mb (err OR e) cs)"

text \<open>The first two bytes of the header.\<close>

definition hdr_byte0 :: "rtp_header \<Rightarrow> u8" where
  "hdr_byte0 hdr = push_bit 6 (hdr_ver hdr AND 2) OR push_bit 5 (of_bool (hdr_pad hdr) AND 1)
     OR push_bit 4 (of_bool (hdr_ext hdr) AND 1) OR (hdr_cc hdr AND 15)"

definition hdr_byte1 :: "rtp_header \<Rightarrow> u8" where
  "hdr_byte1 hdr = push_bit 7 (of_bool (hdr_m hdr) AND 1) OR (hdr_pt hdr AND 127)"

text \<open>The loop over the contributing sources reads \<^verbatim>\<open>csrc[i]\<close> for \<open>i\<close> below \<^verbatim>\<open>cc\<close>: a fault beyond the array.\<close>

definition rtp_hdr_encode :: "(nat \<Rightarrow> bool) \<Rightarrow> mbuf \<Rightarrow> rtp_header \<Rightarrow> (mbuf \<times> int) option" where
  "rtp_hdr_encode mem mb hdr =
     (case mbuf_write_mem mem mb [hdr_byte0 hdr, hdr_byte1 hdr] of (mb, err) \<Rightarrow>
      case mbuf_write_u16 mem mb (htons (hdr_seq hdr)) of (mb, e) \<Rightarrow>
      (let err = err OR e in
      case mbuf_write_u32 mem mb (htonl (hdr_ts hdr)) of (mb, e) \<Rightarrow>
      (let err = err OR e in
      case mbuf_write_u32 mem mb (htonl (hdr_ssrc hdr)) of (mb, e) \<Rightarrow>
      (let err = err OR e in
      if unat (hdr_cc hdr) > length (hdr_csrc hdr) then None
      else Some (write_u32s mem mb err (take (unat (hdr_cc hdr)) (hdr_csrc hdr)))))))"

fun read_u32s :: "mbuf \<Rightarrow> nat \<Rightarrow> (mbuf \<times> u32 list) option" where
  "read_u32s mb 0 = Some (mb, [])"
| "read_u32s mb (Suc n) =
     (case mbuf_read_u32 mb of None \<Rightarrow> None
      | Some (mb, v) \<Rightarrow> map_option (\<lambda>(mb, vs). (mb, ntohl v # vs)) (read_u32s mb n))"

text \<open>The header extension: its type and length, then its words are skipped.\<close>

definition rtp_ext_decode :: "rtp_header \<Rightarrow> mbuf \<Rightarrow> (rtp_header \<times> mbuf \<times> int) option" where
  "rtp_ext_decode hdr mb =
     (if mbuf_get_left mb < 4 then Some (hdr, mb, EBADMSG)
      else do {
        (mb, ty) \<leftarrow> mbuf_read_u16 mb;
        (mb, len) \<leftarrow> mbuf_read_u16 mb;
        let hdr = hdr\<lparr>hdr_x_type := ntohs ty, hdr_x_len := ntohs len\<rparr>
        in if mbuf_get_left mb < unat (hdr_x_len hdr) * 4 then Some (hdr, mb, EBADMSG)
           else Some (hdr, mb\<lparr>mb_pos := mb_pos mb + unat (hdr_x_len hdr) * 4\<rparr>, 0)
      })"

definition rtp_hdr_decode :: "rtp_header \<Rightarrow> mbuf \<Rightarrow> (rtp_header \<times> mbuf \<times> int) option" where
  "rtp_hdr_decode hdr mb =
     (if mbuf_get_left mb < RTP_HEADER_SIZE then Some (hdr, mb, EBADMSG)
      else do {
        (mb, r) \<leftarrow> mbuf_read_mem mb 2;
        (case r of
           Inl err \<Rightarrow> Some (hdr, mb, err)
         | Inr b \<Rightarrow> do {
             let hdr = hdr\<lparr>hdr_ver := drop_bit 6 (b ! 0) AND 3, hdr_pad := bit (b ! 0) 5, hdr_ext := bit (b ! 0) 4,
                           hdr_cc := (b ! 0) AND 15, hdr_m := bit (b ! 1) 7, hdr_pt := (b ! 1) AND 127\<rparr>
             in do {
               (mb, s) \<leftarrow> mbuf_read_u16 mb;
               (mb, t) \<leftarrow> mbuf_read_u32 mb;
               (mb, ss) \<leftarrow> mbuf_read_u32 mb;
               let hdr = hdr\<lparr>hdr_seq := ntohs s, hdr_ts := ntohl t, hdr_ssrc := ntohl ss\<rparr>
               in if mbuf_get_left mb < unat (hdr_cc hdr) * 4 then Some (hdr, mb, EBADMSG)
                  else do {
                    (mb, cs) \<leftarrow> read_u32s mb (unat (hdr_cc hdr));
                    let hdr = hdr\<lparr>hdr_csrc := cs @ drop (unat (hdr_cc hdr)) (hdr_csrc hdr)\<rparr>
                    in if hdr_ext hdr then rtp_ext_decode hdr mb else Some (hdr, mb, 0)
                  }
             }
           })
      })"

section \<open>Encoding\<close>

definition rtp_hdr_bytes :: "rtp_header \<Rightarrow> bytes" where
  "rtp_hdr_bytes hdr = [hdr_byte0 hdr, hdr_byte1 hdr] @ be16 (hdr_seq hdr) @ be32 (hdr_ts hdr) @ be32 (hdr_ssrc hdr)
     @ concat (map be32 (take (unat (hdr_cc hdr)) (hdr_csrc hdr)))"

text \<open>Appending bytes: \<open>appended mb bs mb'\<close> when \<open>mb'\<close> is \<open>mb\<close> with \<open>bs\<close> written at its end.\<close>

definition appended :: "mbuf \<Rightarrow> bytes \<Rightarrow> mbuf \<Rightarrow> bool" where
  "appended mb bs mb' \<longleftrightarrow> mbuf_ok mb' \<and> mb_pos mb' = mb_end mb' \<and> mbuf_written mb' = mbuf_written mb @ bs
     \<and> mb_end mb' = mb_end mb + length bs"

lemma appended_write:
  assumes "mbuf_ok mb" and "mb_pos mb = mb_end mb" and "mbuf_write_mem mem mb bs = (mb', 0)"
  shows "appended mb bs mb'"
  using mbuf_write_append [OF assms] by (simp add: appended_def)

lemma appended_trans: "appended mb bs mb' \<Longrightarrow> appended mb' cs mb'' \<Longrightarrow> appended mb (bs @ cs) mb''"
  by (simp add: appended_def)

lemma appendedD: "appended mb bs mb' \<Longrightarrow> mbuf_ok mb' \<and> mb_pos mb' = mb_end mb'"
  by (simp add: appended_def)

lemma write_u32s_err: "write_u32s mem mb err cs = (mb', 0) \<Longrightarrow> err = 0"
proof (induction cs arbitrary: mb err)
  case (Cons c cs)
  obtain mb1 e where "mbuf_write_u32 mem mb (htonl c) = (mb1, e)" by fastforce
  with Cons.prems Cons.IH [of mb1 "err OR e"] show ?case by (simp add: or_eq_0_iff)
qed simp

lemma write_u32s_appended:
  assumes "mbuf_ok mb" and "mb_pos mb = mb_end mb" and "write_u32s mem mb err cs = (mb', 0)"
  shows "appended mb (concat (map be32 cs)) mb'"
  using assms
proof (induction cs arbitrary: mb err)
  case Nil
  then show ?case by (simp add: appended_def)
next
  case (Cons c cs)
  obtain mb1 e where w: "mbuf_write_u32 mem mb (htonl c) = (mb1, e)" by fastforce
  with Cons.prems have r: "write_u32s mem mb1 (err OR e) cs = (mb', 0)" by simp
  have "e = 0" using write_u32s_err [OF r] by (simp add: or_eq_0_iff)
  then have a: "appended mb (be32 c) mb1"
    using appended_write [OF Cons.prems(1,2), of mem "le32 (htonl c)" mb1] w by (simp add: mbuf_write_u32_def le_bswap)
  have "appended mb1 (concat (map be32 cs)) mb'"
    by (rule Cons.IH [OF _ _ r]) (use appendedD [OF a] in simp_all)
  with a show ?case using appended_trans by fastforce
qed

lemma rtp_hdr_encode_appended:
  assumes ok: "mbuf_ok mb" "mb_pos mb = mb_end mb" and enc: "rtp_hdr_encode mem mb hdr = Some (mb', 0)"
  shows "appended mb (rtp_hdr_bytes hdr) mb'"
proof -
  obtain mb1 e1 where w1: "mbuf_write_mem mem mb [hdr_byte0 hdr, hdr_byte1 hdr] = (mb1, e1)" by fastforce
  obtain mb2 e2 where w2: "mbuf_write_u16 mem mb1 (htons (hdr_seq hdr)) = (mb2, e2)" by fastforce
  obtain mb3 e3 where w3: "mbuf_write_u32 mem mb2 (htonl (hdr_ts hdr)) = (mb3, e3)" by fastforce
  obtain mb4 e4 where w4: "mbuf_write_u32 mem mb3 (htonl (hdr_ssrc hdr)) = (mb4, e4)" by fastforce
  have w5: "write_u32s mem mb4 (((e1 OR e2) OR e3) OR e4) (take (unat (hdr_cc hdr)) (hdr_csrc hdr)) = (mb', 0)"
    using enc w1 w2 w3 w4 by (simp add: rtp_hdr_encode_def Let_def split: if_splits)
  have z: "e1 = 0" "e2 = 0" "e3 = 0" "e4 = 0" using write_u32s_err [OF w5] by (simp_all add: or_eq_0_iff)
  have a1: "appended mb [hdr_byte0 hdr, hdr_byte1 hdr] mb1" using appended_write [OF ok] w1 z by simp
  have a2: "appended mb1 (be16 (hdr_seq hdr)) mb2"
    using appended_write [of mb1 mem "le16 (htons (hdr_seq hdr))" mb2] appendedD [OF a1] w2 z
    by (simp add: mbuf_write_u16_def le_bswap)
  have a3: "appended mb2 (be32 (hdr_ts hdr)) mb3"
    using appended_write [of mb2 mem "le32 (htonl (hdr_ts hdr))" mb3] appendedD [OF a2] w3 z
    by (simp add: mbuf_write_u32_def le_bswap)
  have a4: "appended mb3 (be32 (hdr_ssrc hdr)) mb4"
    using appended_write [of mb3 mem "le32 (htonl (hdr_ssrc hdr))" mb4] appendedD [OF a3] w4 z
    by (simp add: mbuf_write_u32_def le_bswap)
  have a5: "appended mb4 (concat (map be32 (take (unat (hdr_cc hdr)) (hdr_csrc hdr)))) mb'"
    using write_u32s_appended [OF _ _ w5] appendedD [OF a4] by simp
  show ?thesis
    unfolding rtp_hdr_bytes_def
    using appended_trans [OF a1 appended_trans [OF a2 appended_trans [OF a3 appended_trans [OF a4 a5]]]] by simp
qed

section \<open>Decoding as consuming bytes\<close>

definition advance :: "nat \<Rightarrow> mbuf \<Rightarrow> mbuf" where
  "advance n mb = mb\<lparr>mb_pos := mb_pos mb + n\<rparr>"

lemma advance_simps [simp]:
  "mb_buf (advance n mb) = mb_buf mb" "mb_pos (advance n mb) = mb_pos mb + n" "mb_end (advance n mb) = mb_end mb"
  "advance a (advance b mb) = advance (b + a) mb" "mbuf_ok (advance n mb) = mbuf_ok mb"
  by (simp_all add: advance_def mbuf_ok_def add.assoc)

lemma left_advance [simp]: "mbuf_get_left (advance n mb) = mbuf_get_left mb - n"
  by (auto simp: mbuf_get_left_def)

lemma rest_advance [simp]: "mbuf_rest (advance n mb) = drop n (mbuf_rest mb)"
  by (simp add: mbuf_rest_def drop_take add.commute)

lemma reads:
  assumes "mbuf_ok mb"
  shows "0 < n \<Longrightarrow> n \<le> mbuf_get_left mb \<Longrightarrow> mbuf_read_mem mb n = Some (advance n mb, Inr (take n (mbuf_rest mb)))"
    and "2 \<le> mbuf_get_left mb \<Longrightarrow> mbuf_read_u16 mb = Some (advance 2 mb, le16_of (take 2 (mbuf_rest mb)))"
    and "4 \<le> mbuf_get_left mb \<Longrightarrow> mbuf_read_u32 mb = Some (advance 4 mb, le32_of (take 4 (mbuf_rest mb)))"
  using assms by (simp_all add: mbuf_read_mem_ok advance_def mbuf_read_u16_def mbuf_read_u32_def)

lemma ntoh_le: "ntohs (le16_of bs) = le16_of (rev (le16 (le16_of bs)))" "ntohl (le32_of cs) = le32_of (rev (le32 (le32_of cs)))"
  by (simp_all add: bswap16_def bswap32_def)

lemma ntoh_rest:
  "2 \<le> length bs \<Longrightarrow> ntohs (le16_of (take 2 bs)) = be16_of bs"
  "4 \<le> length bs \<Longrightarrow> ntohl (le32_of (take 4 bs)) = be32_of bs"
  by (simp_all add: ntoh_le be16_of_def be32_of_def)

lemma read_u32s_rest:
  assumes "mbuf_ok mb" and "n * 4 \<le> mbuf_get_left mb"
  shows "read_u32s mb n = Some (advance (n * 4) mb, map (\<lambda>i. be32_of (drop (i * 4) (mbuf_rest mb))) [0..<n])"
  using assms
proof (induction n arbitrary: mb)
  case 0
  then show ?case by (simp add: advance_def)
next
  case (Suc n)
  have "[0..<Suc n] = 0 # map Suc [0..<n]" by (simp only: map_Suc_upt upt_conv_Cons zero_less_Suc)
  moreover have "4 \<le> length (mbuf_rest mb)" using Suc.prems by (simp add: length_mbuf_rest)
  ultimately show ?case
    using Suc reads(3) [OF Suc.prems(1)] Suc.IH [of "advance 4 mb"] ntoh_rest(2) [of "mbuf_rest mb"]
    by (simp add: add.commute comp_def del: upt_Suc)
qed

lemma be32_concat:
  "i < length cs \<Longrightarrow> be32_of (drop (i * 4) (concat (map be32 cs) @ rest)) = cs ! i"
proof (induction cs arbitrary: i)
  case (Cons c cs)
  then show ?case by (cases i) simp_all
qed simp

lemma map_be32_concat: "map (\<lambda>i. be32_of (drop (i * 4) (concat (map be32 cs) @ rest))) [0..<length cs] = cs"
  by (rule nth_equalityI) (simp_all add: be32_concat del: drop_append)

section \<open>Round trip\<close>

text \<open>A header as the call builds it: version 2, no extension, fields within their widths.\<close>

definition hdr_ok :: "rtp_header \<Rightarrow> bool" where
  "hdr_ok hdr \<longleftrightarrow> hdr_ver hdr = RTP_VERSION \<and> \<not> hdr_ext hdr \<and> hdr_cc hdr < 16 \<and> hdr_pt hdr < 128
     \<and> length (hdr_csrc hdr) = 16"

lemma masks: "(15 :: u8) = mask 4" "(127 :: u8) = mask 7" "(3 :: u8) = mask 2"
  by (simp_all add: mask_eq_exp_minus_1)

lemma small_mask:
  fixes x :: u8
  assumes "k < 8" and "x < 2 ^ k"
  shows "x AND mask k = x"
  using assms by (simp add: word_unat_eq_iff unsigned_take_bit_eq word_less_nat_alt unat_pow2 take_bit_nat_eq_self
      flip: take_bit_eq_mask)

lemma bit_low_nibble: "bit (x AND (15 :: u8)) n \<Longrightarrow> n < 4" "bit (x AND (127 :: u8)) n \<Longrightarrow> n < 7"
  by (simp_all add: masks bit_and_iff bit_mask_iff)

lemma bit_pow_u8: "bit ((2 :: u8) ^ 7) n \<longleftrightarrow> n = 7" "bit ((2 :: u8) ^ 5) n \<longleftrightarrow> n = 5"
  using bit_exp_iff [of 7 n, where 'a = u8] bit_exp_iff [of 5 n, where 'a = u8] by auto

lemma ntoh_be [simp]: "ntohs (le16_of (be16 x)) = x" "ntohl (le32_of (be32 y)) = y"
  by (simp_all flip: le_bswap)

lemma hdr_bytes_fields:
  assumes "hdr_ok hdr"
  shows "drop_bit 6 (hdr_byte0 hdr) AND 3 = hdr_ver hdr" "bit (hdr_byte0 hdr) 5 = hdr_pad hdr"
    "bit (hdr_byte0 hdr) 4 = hdr_ext hdr" "hdr_byte0 hdr AND 15 = hdr_cc hdr"
    "bit (hdr_byte1 hdr) 7 = hdr_m hdr" "hdr_byte1 hdr AND 127 = hdr_pt hdr"
proof -
  have c: "hdr_cc hdr AND 15 = hdr_cc hdr" "hdr_pt hdr AND 127 = hdr_pt hdr"
    using small_mask [of 4 "hdr_cc hdr"] small_mask [of 7 "hdr_pt hdr"] assms by (simp_all add: hdr_ok_def masks)
  have cb: "n < 4" if "bit (hdr_cc hdr) n" for n using bit_low_nibble(1) [of "hdr_cc hdr" n] that c by simp
  have pb: "n < 7" if "bit (hdr_pt hdr) n" for n using bit_low_nibble(2) [of "hdr_pt hdr" n] that c by simp
  have b0: "bit (hdr_byte0 hdr) n \<longleftrightarrow> n = 7 \<or> (n = 5 \<and> hdr_pad hdr) \<or> bit (hdr_cc hdr) n" for n
  proof -
    have v: "push_bit 6 (hdr_ver hdr AND 2) = (2 :: u8) ^ 7" using assms by (simp add: hdr_ok_def RTP_VERSION_def)
    have p: "push_bit 5 (of_bool (hdr_pad hdr) AND 1) = (if hdr_pad hdr then (2 :: u8) ^ 5 else 0)" by simp
    have e: "push_bit 4 (of_bool (hdr_ext hdr) AND 1) = (0 :: u8)" using assms by (simp add: hdr_ok_def)
    show ?thesis
      unfolding hdr_byte0_def c v p e by (cases "hdr_pad hdr") (auto simp only: bit_or_iff bit_pow_u8 if_True if_False bit_0_eq bot_fun_def bot_bool_def)
  qed
  have b1: "bit (hdr_byte1 hdr) n \<longleftrightarrow> (n = 7 \<and> hdr_m hdr) \<or> bit (hdr_pt hdr) n" for n
  proof -
    have p: "push_bit 7 (of_bool (hdr_m hdr) AND 1) = (if hdr_m hdr then (2 :: u8) ^ 7 else 0)" by simp
    show ?thesis
      unfolding hdr_byte1_def c p by (cases "hdr_m hdr") (auto simp only: bit_or_iff bit_pow_u8 if_True if_False bit_0_eq bot_fun_def bot_bool_def)
  qed
  show "bit (hdr_byte0 hdr) 5 = hdr_pad hdr" "bit (hdr_byte0 hdr) 4 = hdr_ext hdr"
    using b0 cb [of 5] cb [of 4] assms by (auto simp: hdr_ok_def)
  show "bit (hdr_byte1 hdr) 7 = hdr_m hdr" using b1 pb [of 7] by auto
  have "drop_bit 6 (hdr_byte0 hdr) AND 3 = (2 :: u8)"
  proof (rule bit_eqI)
    fix n
    have "bit (2 :: u8) n \<longleftrightarrow> n = 1" using bit_exp_iff [of 1 n, where 'a = u8] by auto
    then show "bit (drop_bit 6 (hdr_byte0 hdr) AND 3) n = bit (2 :: u8) n"
      using b0 [of "6 + n"] cb [of "6 + n"] by (auto simp: masks bit_and_iff bit_drop_bit_eq bit_mask_iff)
  qed
  then show "drop_bit 6 (hdr_byte0 hdr) AND 3 = hdr_ver hdr" using assms by (simp add: hdr_ok_def RTP_VERSION_def)
  show "hdr_byte0 hdr AND 15 = hdr_cc hdr"
    by (rule bit_eqI) (use b0 cb in \<open>auto simp: masks bit_and_iff bit_mask_iff\<close>)
  show "hdr_byte1 hdr AND 127 = hdr_pt hdr"
    by (rule bit_eqI) (use b1 pb in \<open>auto simp: masks bit_and_iff bit_mask_iff\<close>)
qed

text \<open>Decoding bytes that start with an encoded header.\<close>

lemma decode_hdr_bytes:
  assumes ok: "mbuf_ok mb" and hdr: "hdr_ok hdr" and rest: "mbuf_rest mb = rtp_hdr_bytes hdr @ payload"
    and h0: "length (hdr_csrc h0) = 16"
  shows "rtp_hdr_decode h0 mb = Some (hdr\<lparr>hdr_csrc := take (unat (hdr_cc hdr)) (hdr_csrc hdr) @ drop (unat (hdr_cc hdr)) (hdr_csrc h0),
     hdr_x_type := hdr_x_type h0, hdr_x_len := hdr_x_len h0\<rparr>, advance (12 + 4 * unat (hdr_cc hdr)) mb, 0)"
proof -
  let ?n = "unat (hdr_cc hdr)" and ?cs = "take (unat (hdr_cc hdr)) (hdr_csrc hdr)"
  have n: "?n < 16" using hdr by (simp add: hdr_ok_def word_less_nat_alt)
  have len: "length ?cs = ?n" using hdr n by (simp add: hdr_ok_def)
  have tail: "length (concat (map be32 ?cs)) = 4 * ?n"
    using len by (simp add: length_concat comp_def sum_list_triv)
  have left: "mbuf_get_left mb = 12 + 4 * ?n + length payload"
    using length_mbuf_rest [OF ok] tail by (simp add: rest rtp_hdr_bytes_def)
  have r: "mbuf_rest mb = [hdr_byte0 hdr, hdr_byte1 hdr] @ be16 (hdr_seq hdr) @ be32 (hdr_ts hdr) @ be32 (hdr_ssrc hdr)
      @ concat (map be32 ?cs) @ payload"
    by (simp add: rest rtp_hdr_bytes_def)
  have csrc: "read_u32s (advance 12 mb) ?n = Some (advance (12 + ?n * 4) mb, ?cs)"
    using read_u32s_rest [of "advance 12 mb" ?n] ok left map_be32_concat [of ?cs payload] len by (simp add: r)
  show ?thesis
    using hdr hdr_bytes_fields [OF hdr] left csrc ok
    by (simp add: rtp_hdr_decode_def RTP_HEADER_SIZE_def reads Let_def r hdr_ok_def mult.commute)
qed

section \<open>Safety of decoding\<close>

definition moved :: "mbuf \<Rightarrow> mbuf \<Rightarrow> bool" where
  "moved mb mb' \<longleftrightarrow> (\<exists>n. mb' = advance n mb \<and> n \<le> mbuf_get_left mb)"

lemma moved_refl: "moved mb mb"
  by (auto simp: moved_def advance_def intro!: exI [of _ 0])

lemma moved_trans: "moved a b \<Longrightarrow> moved b c \<Longrightarrow> moved a c"
proof -
  assume "moved a b" "moved b c"
  then obtain n k where "b = advance n a" "n \<le> mbuf_get_left a" "c = advance (n + k) a" "k \<le> mbuf_get_left a - n"
    by (auto simp: moved_def)
  then show "moved a c" unfolding moved_def by (intro exI [of _ "n + k"]) simp
qed

lemma moved_ok: "moved mb mb' \<Longrightarrow> mbuf_ok mb \<Longrightarrow> mbuf_ok mb'"
  by (auto simp: moved_def)

lemma moved_advance: "n \<le> mbuf_get_left mb \<Longrightarrow> moved mb (advance n mb)"
  by (auto simp: moved_def)

text \<open>The bytes a decoded header takes, and the two ways decoding can end.\<close>

definition hdr_size :: "rtp_header \<Rightarrow> nat" where
  "hdr_size h = 12 + 4 * unat (hdr_cc h) + (if hdr_ext h then 4 + 4 * unat (hdr_x_len h) else 0)"

definition ended :: "mbuf \<Rightarrow> nat \<Rightarrow> mbuf \<Rightarrow> int \<Rightarrow> bool" where
  "ended mb n mb' err \<longleftrightarrow> moved mb mb' \<and> (if err = 0 then mb' = advance n mb \<and> n \<le> mbuf_get_left mb else err = EBADMSG)"

lemma ext_decode_ended:
  assumes "mbuf_ok mb"
  shows "\<exists>h mb' err. rtp_ext_decode hdr mb = Some (h, mb', err) \<and> ended mb (4 + 4 * unat (hdr_x_len h)) mb' err
     \<and> hdr_cc h = hdr_cc hdr \<and> hdr_ext h = hdr_ext hdr"
proof -
  have eq: "(advance 4 mb)\<lparr>mb_pos := mb_pos mb + 4 + k\<rparr> = advance (4 + k) mb" for k
    by (simp add: advance_def)
  show ?thesis
    using assms by (auto simp: rtp_ext_decode_def reads Let_def moved_refl moved_advance eq ended_def EBADMSG_def mult.commute)
qed

lemma hdr_decode_ended:
  assumes ok: "mbuf_ok mb"
  shows "\<exists>h mb' err. rtp_hdr_decode hdr mb = Some (h, mb', err) \<and> ended mb (hdr_size h) mb' err"
proof (cases "mbuf_get_left mb < 12")
  case True
  then show ?thesis by (simp add: rtp_hdr_decode_def RTP_HEADER_SIZE_def moved_refl ended_def EBADMSG_def)
next
  case False
  let ?b = "take 2 (mbuf_rest mb)" and ?n = "unat (take 2 (mbuf_rest mb) ! 0 AND 15)"
  have reads2: "mbuf_read_mem mb 2 = Some (advance 2 mb, Inr ?b)" using False ok by (simp add: reads)
  have 12: "moved mb (advance 12 mb)" using False by (simp add: moved_advance)
  show ?thesis
  proof (cases "mbuf_get_left (advance 12 mb) < ?n * 4")
    case True
    then show ?thesis using False ok 12 reads2
      by (simp add: rtp_hdr_decode_def RTP_HEADER_SIZE_def reads Let_def ended_def EBADMSG_def)
  next
    case fits: False
    let ?m = "advance (12 + ?n * 4) mb"
    from fits have n: "moved mb ?m" "12 + ?n * 4 \<le> mbuf_get_left mb" using False by (simp_all add: moved_advance)
    have cs: "read_u32s (advance 12 mb) ?n = Some (?m, map (\<lambda>i. be32_of (drop (i * 4) (mbuf_rest (advance 12 mb)))) [0..<?n])"
      using fits ok by (subst read_u32s_rest) simp_all
    have ext: "\<exists>h' mb' err. rtp_ext_decode h ?m = Some (h', mb', err) \<and> ended mb (hdr_size h') mb' err"
      if "unat (hdr_cc h) = ?n" "hdr_ext h" for h
    proof -
      obtain h' mb' err where e: "rtp_ext_decode h ?m = Some (h', mb', err)" "ended ?m (4 + 4 * unat (hdr_x_len h')) mb' err"
        "hdr_cc h' = hdr_cc h" "hdr_ext h' = hdr_ext h"
        using ext_decode_ended [of ?m h] ok by auto
      moreover have "moved mb mb'" using e(2) moved_trans [OF n(1)] by (simp add: ended_def)
      ultimately show ?thesis using that n(2)
        by (auto simp: ended_def hdr_size_def ac_simps split: if_splits)
    qed
    show ?thesis
      using False fits ok cs reads2 n ext by (auto simp: rtp_hdr_decode_def RTP_HEADER_SIZE_def reads Let_def ended_def hdr_size_def mult.commute)
  qed
qed

section \<open>Encoding into a packet buffer\<close>

lemma hdr_encode_fits:
  assumes "mb_pos mb = 0" and "mb_end mb = 0" and "12 \<le> length (mb_buf mb)" and "hdr_cc hdr = 0"
  shows "rtp_hdr_encode mem mb hdr =
     Some (mb\<lparr>mb_buf := rtp_hdr_bytes hdr @ drop 12 (mb_buf mb), mb_pos := 12, mb_end := 12\<rparr>, 0)"
  using assms
  by (simp add: rtp_hdr_encode_def mbuf_write_u16_def mbuf_write_u32_def mbuf_write_fits Let_def rtp_hdr_bytes_def
      le_bswap) (simp add: patch_def)

lemma length_hdr_bytes: "hdr_cc hdr = 0 \<Longrightarrow> length (rtp_hdr_bytes hdr) = 12"
  by (simp add: rtp_hdr_bytes_def)

section \<open>Properties\<close>

definition demo_hdr :: rtp_header where
  "demo_hdr = \<lparr>hdr_ver = 2, hdr_pad = False, hdr_ext = False, hdr_cc = 0, hdr_m = True, hdr_pt = 0x74, hdr_seq = 1024,
     hdr_ts = 960, hdr_ssrc = 0xdead1ee7, hdr_csrc = replicate 16 0, hdr_x_type = 0, hdr_x_len = 0\<rparr>"

text \<open>
  (C17) Decoding an encoded header gives the header back and leaves the position behind it, for every
  header of version 2 without extension and at most 15 contributing sources.
\<close>

theorem rtp_hdr_roundtrip:
  assumes "mbuf_ok mb" and "mb_pos mb = mb_end mb" and "hdr_ok hdr" and "length (hdr_csrc h0) = 16"
    and "rtp_hdr_encode mem mb hdr = Some (mb', 0)"
  shows "\<exists>h. rtp_hdr_decode h0 (mbuf_set_pos mb' (mb_pos mb)) = Some (h, mb', 0)
     \<and> h = hdr\<lparr>hdr_csrc := take (unat (hdr_cc hdr)) (hdr_csrc hdr) @ drop (unat (hdr_cc hdr)) (hdr_csrc h0),
               hdr_x_type := hdr_x_type h0, hdr_x_len := hdr_x_len h0\<rparr>"
proof -
  have a: "appended mb (rtp_hdr_bytes hdr) mb'" by (rule rtp_hdr_encode_appended [OF assms(1,2,5)])
  let ?m = "mbuf_set_pos mb' (mb_pos mb)"
  have n: "unat (hdr_cc hdr) < 16" using assms(3) by (simp add: hdr_ok_def word_less_nat_alt)
  have len: "length (rtp_hdr_bytes hdr) = 12 + 4 * unat (hdr_cc hdr)"
    using assms(3) n by (simp add: rtp_hdr_bytes_def length_concat comp_def sum_list_triv hdr_ok_def)
  have w: "length (mbuf_written mb) = mb_end mb" using assms(1) by (simp add: mbuf_written_def mbuf_ok_def)
  have "mbuf_rest ?m = drop (mb_end mb) (mbuf_written mb')"
    using a assms(2) len by (simp add: mbuf_rest_def mbuf_set_pos_def mbuf_get_left_def mbuf_written_def appended_def drop_take)
  also have "\<dots> = rtp_hdr_bytes hdr @ []" using a w by (simp add: appended_def)
  finally have rest: "mbuf_rest ?m = rtp_hdr_bytes hdr @ []" .
  have "mbuf_ok ?m" using appendedD [OF a] by (simp add: mbuf_ok_def mbuf_set_pos_def)
  from decode_hdr_bytes [OF this assms(3) rest assms(4)]
  have d: "rtp_hdr_decode h0 ?m = Some (hdr\<lparr>hdr_csrc := take (unat (hdr_cc hdr)) (hdr_csrc hdr) @ drop (unat (hdr_cc hdr)) (hdr_csrc h0),
     hdr_x_type := hdr_x_type h0, hdr_x_len := hdr_x_len h0\<rparr>, advance (12 + 4 * unat (hdr_cc hdr)) ?m, 0)" .
  have "advance (12 + 4 * unat (hdr_cc hdr)) ?m = mb'"
    using a len assms(2) by (cases mb') (simp add: advance_def mbuf_set_pos_def appended_def)
  with d show ?thesis by simp
qed

theorem rtp_hdr_roundtrip_witness:
  "\<exists>mb'. rtp_hdr_encode (\<lambda>_. False) \<lparr>mb_buf = replicate 20 0, mb_pos = 0, mb_end = 0\<rparr> demo_hdr = Some (mb', 0)
     \<and> rtp_hdr_decode demo_hdr (mbuf_set_pos mb' 0) = Some (demo_hdr, mb', 0)"
proof -
  let ?mb = "\<lparr>mb_buf = replicate 20 0, mb_pos = 0, mb_end = 0\<rparr>"
  obtain mb' where e: "rtp_hdr_encode (\<lambda>_. False) ?mb demo_hdr = Some (mb', 0)"
    using hdr_encode_fits [of ?mb demo_hdr "\<lambda>_. False"] by (simp add: demo_hdr_def)
  have h: "hdr_ok demo_hdr" "length (hdr_csrc demo_hdr) = 16" by (simp_all add: hdr_ok_def demo_hdr_def RTP_VERSION_def)
  from rtp_hdr_roundtrip [OF _ _ h e] e show ?thesis by (simp add: mbuf_ok_def demo_hdr_def)
qed

text \<open>
  (C38) Decoding a received packet, whatever its bytes are, never reads outside the buffer, leaves memory and
  end unchanged and never moves the position back or beyond the end. It either fails
  with \<^verbatim>\<open>EBADMSG\<close> or consumes the twelve bytes of the fixed header, four for every source it lists, and the
  extension when the packet has one.
\<close>

theorem rtp_hdr_decode_safe:
  assumes "mbuf_ok mb" and "mb_pos mb \<le> mb_end mb"
  shows "\<exists>h mb' err. rtp_hdr_decode hdr mb = Some (h, mb', err) \<and> mb_buf mb' = mb_buf mb \<and> mb_end mb' = mb_end mb
     \<and> mb_pos mb \<le> mb_pos mb' \<and> mb_pos mb' \<le> mb_end mb'
     \<and> (if err = 0 then mb_pos mb' = mb_pos mb + 12 + 4 * unat (hdr_cc h) + (if hdr_ext h then 4 + 4 * unat (hdr_x_len h) else 0)
        else err = EBADMSG)"
proof -
  obtain h mb' err where d: "rtp_hdr_decode hdr mb = Some (h, mb', err)" "ended mb (hdr_size h) mb' err"
    using hdr_decode_ended [OF assms(1), of hdr] by blast
  have "mb_buf mb' = mb_buf mb \<and> mb_end mb' = mb_end mb \<and> mb_pos mb \<le> mb_pos mb' \<and> mb_pos mb' \<le> mb_end mb'"
    using d(2) assms(2) by (auto simp: ended_def moved_def mbuf_get_left_def split: if_splits)
  moreover have "if err = 0 then mb_pos mb' = mb_pos mb + 12 + 4 * unat (hdr_cc h) + (if hdr_ext h then 4 + 4 * unat (hdr_x_len h) else 0)
      else err = EBADMSG"
    using d(2) by (auto simp: ended_def hdr_size_def)
  ultimately show ?thesis using d(1) by (intro exI [of _ h] exI [of _ mb'] exI [of _ err] conjI) simp_all
qed

theorem rtp_hdr_decode_safe_witness:
  "\<exists>h mb' err. rtp_hdr_decode demo_hdr \<lparr>mb_buf = replicate 14 255, mb_pos = 0, mb_end = 14\<rparr> = Some (h, mb', err)
     \<and> mb_pos mb' \<le> 14 \<and> (err = 0 \<longrightarrow> 12 \<le> mb_pos mb')"
  using rtp_hdr_decode_safe [of "\<lparr>mb_buf = replicate 14 255, mb_pos = 0, mb_end = 14\<rparr>" demo_hdr]
  by (auto simp: mbuf_ok_def split: if_splits)

end
