(* ===== verification/StunAttr.thy ===== *)
theory StunAttr
  imports Stun Rtp
begin

text \<open>
  STUN attributes of re, \<^verbatim>\<open>deps/re/src/stun/attr.c\<close> and \<^verbatim>\<open>addr.c\<close>: encoding and decoding of every type, padding included,
  and that decoding is the inverse of encoding and never reads outside of the packet.
\<close>

section \<open>Socket addresses and memory buffers, continued\<close>

definition sa_zero :: sa where
  "sa_zero = \<lparr>sa_u = replicate 28 0, sa_len = 0\<rparr>"

definition sa_set_in :: "sa \<Rightarrow> u32 \<Rightarrow> u16 \<Rightarrow> sa" where
  "sa_set_in sa addr port =
     \<lparr>sa_u = st16 (st32 (st16 (sa_u sa) 0 rawr_SockAF_IPv4) 4 (htonl addr)) 2 (htons port), sa_len = 16\<rparr>"

definition sa_set_in6 :: "sa \<Rightarrow> bytes \<Rightarrow> u16 \<Rightarrow> sa" where
  "sa_set_in6 sa addr port =
     \<lparr>sa_u = st16 (patch (st16 (sa_u sa) 0 rawr_SockAF_IPv6) 8 (take 16 addr)) 2 (htons port), sa_len = 28\<rparr>"

definition sa_af :: "sa \<Rightarrow> u16" where
  "sa_af sa = ld16 (sa_u sa) 0"

definition sa_in :: "sa \<Rightarrow> u32" where
  "sa_in sa = ntohl (ld32 (sa_u sa) 4)"

definition sa_in6 :: "sa \<Rightarrow> bytes" where
  "sa_in6 sa = take 16 (drop 8 (sa_u sa))"

definition sa_port :: "sa \<Rightarrow> u16" where
  "sa_port sa = (if sa_af sa = rawr_SockAF_IPv4 \<or> sa_af sa = rawr_SockAF_IPv6 then ntohs (ld16 (sa_u sa) 2) else 0)"

text \<open>A C string is the memory it lies in, its terminating null included.\<close>

definition mbuf_write_str :: "(nat \<Rightarrow> bool) \<Rightarrow> mbuf \<Rightarrow> bytes option \<Rightarrow> (mbuf \<times> int) option" where
  "mbuf_write_str mem mb str =
     (case str of None \<Rightarrow> Some (mb, EINVAL) | Some m \<Rightarrow> map_option (mbuf_write_mem mem mb) (cstr m))"

definition mbuf_read_u64 :: "mbuf \<Rightarrow> (mbuf \<times> u64) option" where
  "mbuf_read_u64 mb =
     map_option (\<lambda>(mb, r). (mb, case r of Inl _ \<Rightarrow> 0 | Inr bs \<Rightarrow> le64_of bs)) (mbuf_read_mem mb 8)"

definition mbuf_strdup :: "(nat \<Rightarrow> bool) \<Rightarrow> mbuf \<Rightarrow> nat \<Rightarrow> (mbuf \<times> (int + bytes)) option" where
  "mbuf_strdup mem mb len =
     (if \<not> mem (len + 1) then Some (mb, Inl ENOMEM)
      else map_option (\<lambda>(mb, r). (mb, map_sum id (\<lambda>str. str @ [0]) r)) (mbuf_read_mem mb len))"

text \<open>The loops of \<^verbatim>\<open>sys/endian.c\<close> over the bytes of a 64-bit integer.\<close>

definition sys_htonll :: "u64 \<Rightarrow> u64" where
  "sys_htonll v = fst (foldl (\<lambda>(h, k) p. (h OR push_bit k (ucast p), k - 8)) (0, 56) (le64 v))"

definition sys_ntohll :: "u64 \<Rightarrow> u64" where
  "sys_ntohll v = le64_of (map (\<lambda>k. ucast (drop_bit k v AND 0xff)) [56, 48, 40, 32, 24, 16, 8, 0])"

section \<open>Addresses\<close>

definition STUN_MAGIC_COOKIE :: u32 where "STUN_MAGIC_COOKIE = 0x2112a442"
definition STUN_TID_SIZE :: nat where "STUN_TID_SIZE = 12"
definition STUN_AF_IPv4 :: u8 where "STUN_AF_IPv4 = 1"
definition STUN_AF_IPv6 :: u8 where "STUN_AF_IPv6 = 2"

lemmas stun_consts [rawr_defs] = STUN_MAGIC_COOKIE_def STUN_TID_SIZE_def STUN_AF_IPv4_def STUN_AF_IPv6_def

definition in6_xor_tid :: "bytes \<Rightarrow> bytes \<Rightarrow> bytes" where
  "in6_xor_tid in6 tid = map2 (\<lambda>x y. x XOR y) in6 ([0x21, 0x12, 0xa4, 0x42] @ take STUN_TID_SIZE tid)"

text \<open>
  A row of statements \<^verbatim>\<open>err |= mbuf_write_...\<close>: each of the given objects is written, whether or not the ones before it were. An integer is
  the bytes it has in memory.
\<close>

fun writes :: "(nat \<Rightarrow> bool) \<Rightarrow> mbuf \<times> int \<Rightarrow> bytes list \<Rightarrow> mbuf \<times> int" where
  "writes mem me [] = me"
| "writes mem (mb, err) (d # ds) = (case mbuf_write_mem mem mb d of (mb, e) \<Rightarrow> writes mem (mb, err OR e) ds)"

definition stun_addr_encode :: "(nat \<Rightarrow> bool) \<Rightarrow> mbuf \<Rightarrow> sa \<Rightarrow> bytes option \<Rightarrow> mbuf \<times> int" where
  "stun_addr_encode mem mb addr tid =
     (let port = (case tid of Some _ \<Rightarrow> sa_port addr XOR ucast (drop_bit 16 STUN_MAGIC_COOKIE) | None \<Rightarrow> sa_port addr) in
      if sa_af addr = rawr_SockAF_IPv4 then
        (let addr4 = (case tid of Some _ \<Rightarrow> sa_in addr XOR STUN_MAGIC_COOKIE | None \<Rightarrow> sa_in addr)
         in writes mem (mb, 0) [[0], [STUN_AF_IPv4], le16 (htons port), le32 (htonl addr4)])
      else if sa_af addr = rawr_SockAF_IPv6 then
        (let addr6 = (case tid of Some t \<Rightarrow> in6_xor_tid (sa_in6 addr) t | None \<Rightarrow> sa_in6 addr)
         in writes mem (mb, 0) [[0], [STUN_AF_IPv6], le16 (htons port), addr6])
      else (mb, EAFNOSUPPORT))"

definition stun_addr_decode :: "mbuf \<Rightarrow> sa \<Rightarrow> bytes option \<Rightarrow> (mbuf \<times> (int + sa)) option" where
  "stun_addr_decode mb addr tid =
     (if mbuf_get_left mb < 4 then Some (mb, Inl EBADMSG)
      else do {
        (mb, _) \<leftarrow> mbuf_read_u8 mb;
        (mb, family) \<leftarrow> mbuf_read_u8 mb;
        (mb, p) \<leftarrow> mbuf_read_u16 mb;
        let port = (case tid of Some _ \<Rightarrow> ntohs p XOR ucast (drop_bit 16 STUN_MAGIC_COOKIE) | None \<Rightarrow> ntohs p) in
        if family = STUN_AF_IPv4 then
          (if mbuf_get_left mb < 4 then Some (mb, Inl EBADMSG)
           else do {
             (mb, a) \<leftarrow> mbuf_read_u32 mb;
             let addr4 = (case tid of Some _ \<Rightarrow> ntohl a XOR STUN_MAGIC_COOKIE | None \<Rightarrow> ntohl a)
             in Some (mb, Inr (sa_set_in addr addr4 port))
           })
        else if family = STUN_AF_IPv6 then
          (if mbuf_get_left mb < 16 then Some (mb, Inl EBADMSG)
           else do {
             (mb, r) \<leftarrow> mbuf_read_mem mb 16;
             (case r of
                Inl _ \<Rightarrow> None
              | Inr a \<Rightarrow>
                  (let addr6 = (case tid of Some t \<Rightarrow> in6_xor_tid a t | None \<Rightarrow> a)
                   in Some (mb, Inr (sa_set_in6 addr addr6 port))))
           })
        else Some (mb, Inl EAFNOSUPPORT)
      })"

section \<open>Attributes\<close>

record stun_unknown_attr =
  ua_typev :: "u16 list"
  ua_typec :: nat

text \<open>
  The union of values. \<open>VSelf\<close> is a buffer attribute that is given by the very buffer that is encoded into.
\<close>

datatype stun_value =
    VSa sa | VChangeReq bool bool | VStr bytes | VIntegrity bytes | VErrCode u16 "bytes option" | VUnknown stun_unknown_attr
  | V8 u8 | V16 u16 | V32 u32 | V64 u64 | VMb mbuf | VSelf | VEvenPort bool | VNone

record stun_attr =
  attr_type :: u16
  attr_v :: stun_value

definition STUN_ATTR_MAPPED_ADDR :: u16 where "STUN_ATTR_MAPPED_ADDR = 0x0001"
definition STUN_ATTR_CHANGE_REQ :: u16 where "STUN_ATTR_CHANGE_REQ = 0x0003"
definition STUN_ATTR_USERNAME :: u16 where "STUN_ATTR_USERNAME = 0x0006"
definition STUN_ATTR_MSG_INTEGRITY :: u16 where "STUN_ATTR_MSG_INTEGRITY = 0x0008"
definition STUN_ATTR_ERR_CODE :: u16 where "STUN_ATTR_ERR_CODE = 0x0009"
definition STUN_ATTR_UNKNOWN_ATTR :: u16 where "STUN_ATTR_UNKNOWN_ATTR = 0x000a"
definition STUN_ATTR_CHANNEL_NUMBER :: u16 where "STUN_ATTR_CHANNEL_NUMBER = 0x000c"
definition STUN_ATTR_LIFETIME :: u16 where "STUN_ATTR_LIFETIME = 0x000d"
definition STUN_ATTR_XOR_PEER_ADDR :: u16 where "STUN_ATTR_XOR_PEER_ADDR = 0x0012"
definition STUN_ATTR_DATA :: u16 where "STUN_ATTR_DATA = 0x0013"
definition STUN_ATTR_REALM :: u16 where "STUN_ATTR_REALM = 0x0014"
definition STUN_ATTR_NONCE :: u16 where "STUN_ATTR_NONCE = 0x0015"
definition STUN_ATTR_XOR_RELAY_ADDR :: u16 where "STUN_ATTR_XOR_RELAY_ADDR = 0x0016"
definition STUN_ATTR_REQ_ADDR_FAMILY :: u16 where "STUN_ATTR_REQ_ADDR_FAMILY = 0x0017"
definition STUN_ATTR_EVEN_PORT :: u16 where "STUN_ATTR_EVEN_PORT = 0x0018"
definition STUN_ATTR_REQ_TRANSPORT :: u16 where "STUN_ATTR_REQ_TRANSPORT = 0x0019"
definition STUN_ATTR_DONT_FRAGMENT :: u16 where "STUN_ATTR_DONT_FRAGMENT = 0x001a"
definition STUN_ATTR_XOR_MAPPED_ADDR :: u16 where "STUN_ATTR_XOR_MAPPED_ADDR = 0x0020"
definition STUN_ATTR_RSV_TOKEN :: u16 where "STUN_ATTR_RSV_TOKEN = 0x0022"
definition STUN_ATTR_PRIORITY :: u16 where "STUN_ATTR_PRIORITY = 0x0024"
definition STUN_ATTR_USE_CAND :: u16 where "STUN_ATTR_USE_CAND = 0x0025"
definition STUN_ATTR_PADDING :: u16 where "STUN_ATTR_PADDING = 0x0026"
definition STUN_ATTR_RESP_PORT :: u16 where "STUN_ATTR_RESP_PORT = 0x0027"
definition STUN_ATTR_SOFTWARE :: u16 where "STUN_ATTR_SOFTWARE = 0x8022"
definition STUN_ATTR_ALT_SERVER :: u16 where "STUN_ATTR_ALT_SERVER = 0x8023"
definition STUN_ATTR_FINGERPRINT :: u16 where "STUN_ATTR_FINGERPRINT = 0x8028"
definition STUN_ATTR_CONTROLLED :: u16 where "STUN_ATTR_CONTROLLED = 0x8029"
definition STUN_ATTR_CONTROLLING :: u16 where "STUN_ATTR_CONTROLLING = 0x802a"
definition STUN_ATTR_RESP_ORIGIN :: u16 where "STUN_ATTR_RESP_ORIGIN = 0x802b"
definition STUN_ATTR_OTHER_ADDR :: u16 where "STUN_ATTR_OTHER_ADDR = 0x802c"

lemmas stun_attr_types = STUN_ATTR_MAPPED_ADDR_def STUN_ATTR_CHANGE_REQ_def STUN_ATTR_USERNAME_def STUN_ATTR_MSG_INTEGRITY_def
  STUN_ATTR_ERR_CODE_def STUN_ATTR_UNKNOWN_ATTR_def STUN_ATTR_CHANNEL_NUMBER_def STUN_ATTR_LIFETIME_def STUN_ATTR_XOR_PEER_ADDR_def
  STUN_ATTR_DATA_def STUN_ATTR_REALM_def STUN_ATTR_NONCE_def STUN_ATTR_XOR_RELAY_ADDR_def STUN_ATTR_REQ_ADDR_FAMILY_def
  STUN_ATTR_EVEN_PORT_def STUN_ATTR_REQ_TRANSPORT_def STUN_ATTR_DONT_FRAGMENT_def STUN_ATTR_XOR_MAPPED_ADDR_def STUN_ATTR_RSV_TOKEN_def
  STUN_ATTR_PRIORITY_def STUN_ATTR_USE_CAND_def STUN_ATTR_PADDING_def STUN_ATTR_RESP_PORT_def STUN_ATTR_SOFTWARE_def
  STUN_ATTR_ALT_SERVER_def STUN_ATTR_FINGERPRINT_def STUN_ATTR_CONTROLLED_def STUN_ATTR_CONTROLLING_def STUN_ATTR_RESP_ORIGIN_def
  STUN_ATTR_OTHER_ADDR_def

text \<open>The cases of the two switches over the type; they group the types alike.\<close>

datatype attr_case = KAddr | KXorAddr | KChange | KStr | KIntegrity | KErrCode | KUnknown | K16 | K32 | KMb | K8 | KEven | KNone | K64 | KOther

definition attr_case_of :: "u16 \<Rightarrow> attr_case" where
  "attr_case_of type =
     (if type \<in> {STUN_ATTR_MAPPED_ADDR, STUN_ATTR_ALT_SERVER, STUN_ATTR_RESP_ORIGIN, STUN_ATTR_OTHER_ADDR} then KAddr
      else if type \<in> {STUN_ATTR_XOR_PEER_ADDR, STUN_ATTR_XOR_RELAY_ADDR, STUN_ATTR_XOR_MAPPED_ADDR} then KXorAddr
      else if type = STUN_ATTR_CHANGE_REQ then KChange
      else if type \<in> {STUN_ATTR_USERNAME, STUN_ATTR_REALM, STUN_ATTR_NONCE, STUN_ATTR_SOFTWARE} then KStr
      else if type = STUN_ATTR_MSG_INTEGRITY then KIntegrity
      else if type = STUN_ATTR_ERR_CODE then KErrCode
      else if type = STUN_ATTR_UNKNOWN_ATTR then KUnknown
      else if type \<in> {STUN_ATTR_CHANNEL_NUMBER, STUN_ATTR_RESP_PORT} then K16
      else if type \<in> {STUN_ATTR_LIFETIME, STUN_ATTR_PRIORITY, STUN_ATTR_FINGERPRINT} then K32
      else if type \<in> {STUN_ATTR_DATA, STUN_ATTR_PADDING} then KMb
      else if type \<in> {STUN_ATTR_REQ_ADDR_FAMILY, STUN_ATTR_REQ_TRANSPORT} then K8
      else if type = STUN_ATTR_EVEN_PORT then KEven
      else if type \<in> {STUN_ATTR_DONT_FRAGMENT, STUN_ATTR_USE_CAND} then KNone
      else if type \<in> {STUN_ATTR_RSV_TOKEN, STUN_ATTR_CONTROLLED, STUN_ATTR_CONTROLLING} then K64
      else KOther)"

subsection \<open>Encoding\<close>

text \<open>
  The switch of \<^verbatim>\<open>stun_attr_encode\<close>; a value that is not of the kind its type asks for is read as something it is not.
\<close>

definition attr_value_encode ::
  "(nat \<Rightarrow> bool) \<Rightarrow> mbuf \<Rightarrow> u16 \<Rightarrow> stun_value \<Rightarrow> bytes option \<Rightarrow> (mbuf \<times> int) option" where
  "attr_value_encode mem mb type v tid =
     (case (attr_case_of type, v) of
        (KAddr, VSa addr) \<Rightarrow> Some (stun_addr_encode mem mb addr None)
      | (KXorAddr, VSa addr) \<Rightarrow> Some (stun_addr_encode mem mb addr tid)
      | (KChange, VChangeReq ip port) \<Rightarrow>
          Some (writes mem (mb, 0) [le32 (htonl (push_bit 2 (of_bool ip) OR push_bit 1 (of_bool port)))])
      | (KStr, VStr str) \<Rightarrow> mbuf_write_str mem mb (Some str)
      | (KIntegrity, VIntegrity mi) \<Rightarrow> map_option (\<lambda>bs. writes mem (mb, 0) [bs]) (mem_read mi 0 20)
      | (KErrCode, VErrCode code reason) \<Rightarrow>
          (case writes mem (mb, 0) [le16 0, [ucast (code div 100)], [ucast (code mod 100)]] of (mb, err) \<Rightarrow>
           map_option (\<lambda>(mb, e). (mb, err OR e)) (mbuf_write_str mem mb reason))
      | (KUnknown, VUnknown ua) \<Rightarrow>
          if ua_typec ua > length (ua_typev ua) then None
          else Some (writes mem (mb, 0) (map (\<lambda>t. le16 (htons t)) (take (ua_typec ua) (ua_typev ua))))
      | (K16, V16 n) \<Rightarrow> Some (writes mem (mb, 0) [le16 (htons n), le16 0])
      | (K32, V32 n) \<Rightarrow> Some (writes mem (mb, 0) [le32 (htonl n)])
      | (KMb, VSelf) \<Rightarrow> Some (mb\<lparr>mb_pos := mb_end mb\<rparr>, 0)
      | (KMb, VMb mbd) \<Rightarrow>
          if mb_buf mbd = [] then Some (mb, EINVAL)
          else map_option (\<lambda>bs. writes mem (mb, 0) [bs]) (mem_read (mb_buf mbd) (mb_pos mbd) (mbuf_get_left mbd))
      | (K8, V8 n) \<Rightarrow> Some (writes mem (mb, 0) [[n], [0], le16 0])
      | (KEven, VEvenPort r) \<Rightarrow> Some (writes mem (mb, 0) [[push_bit 7 (of_bool r)]])
      | (KNone, _) \<Rightarrow> Some (mb, 0)
      | (K64, V64 n) \<Rightarrow> Some (writes mem (mb, 0) [le64 (sys_htonll n)])
      | (KOther, _) \<Rightarrow> Some (mb, EINVAL)
      | _ \<Rightarrow> None)"

text \<open>
  The padding loop does not look at the error: when the memory is exhausted it does not end, which is \<open>None\<close>.
\<close>

partial_function (option) stun_pad :: "(nat \<Rightarrow> bool) \<Rightarrow> u8 \<Rightarrow> nat \<Rightarrow> mbuf \<Rightarrow> int \<Rightarrow> (mbuf \<times> int) option" where
  "stun_pad mem padding start mb err =
     (if (mb_pos mb - start) mod 4 \<noteq> 0
      then (case mbuf_write_u8 mem mb padding of (mb, e) \<Rightarrow> stun_pad mem padding start mb (err OR e))
      else Some (mb, err))"

definition stun_attr_encode ::
  "(nat \<Rightarrow> bool) \<Rightarrow> mbuf \<Rightarrow> u16 \<Rightarrow> stun_value \<Rightarrow> bytes option \<Rightarrow> u8 \<Rightarrow> (mbuf \<times> int) option" where
  "stun_attr_encode mem mb type v tid padding =
     (let mb = mb\<lparr>mb_pos := mb_pos mb + 4\<rparr>; start = mb_pos mb in do {
        (mb, err) \<leftarrow> attr_value_encode mem mb type v tid;
        let len = mb_pos mb - start in
        case writes mem (mb\<lparr>mb_pos := start - 4\<rparr>, err) [le16 (htons type), le16 (htons (of_nat len))] of (mb, err) \<Rightarrow>
        stun_pad mem padding start (mb\<lparr>mb_pos := mb_pos mb + len\<rparr>) err
      })"

subsection \<open>Decoding\<close>

definition str_decode :: "(nat \<Rightarrow> bool) \<Rightarrow> mbuf \<Rightarrow> nat \<Rightarrow> (mbuf \<times> (int + bytes)) option" where
  "str_decode mem mb len = (if mbuf_get_left mb < len then Some (mb, Inl EBADMSG) else mbuf_strdup mem mb len)"

text \<open>The loop over the types of an unknown-attributes attribute; the array has eight places.\<close>

fun unknown_decode :: "mbuf \<Rightarrow> nat \<Rightarrow> stun_unknown_attr \<Rightarrow> (mbuf \<times> stun_unknown_attr) option" where
  "unknown_decode mb 0 ua = Some (mb, ua)"
| "unknown_decode mb (Suc n) ua = do {
     (mb, t) \<leftarrow> mbuf_read_u16 mb;
     unknown_decode mb n
       (if ua_typec ua \<ge> 8 then ua
        else ua\<lparr>ua_typev := (ua_typev ua)[ua_typec ua := ntohs t], ua_typec := ua_typec ua + 1\<rparr>)
   }"

definition ua_add :: "u16 \<Rightarrow> stun_unknown_attr \<Rightarrow> stun_unknown_attr" where
  "ua_add type ua =
     (if ua_typec ua < 8 then ua\<lparr>ua_typev := (ua_typev ua)[ua_typec ua := type], ua_typec := ua_typec ua + 1\<rparr> else ua)"

text \<open>The switch of \<^verbatim>\<open>stun_attr_decode\<close> for a value of \<open>len\<close> bytes.\<close>

definition attr_value_decode ::
  "(nat \<Rightarrow> bool) \<Rightarrow> mbuf \<Rightarrow> u16 \<Rightarrow> nat \<Rightarrow> bytes option \<Rightarrow> (mbuf \<times> (int + stun_value)) option" where
  "attr_value_decode mem mb type len tid =
     (case attr_case_of type of
        KAddr \<Rightarrow> map_option (\<lambda>(mb, r). (mb, map_sum id VSa r)) (stun_addr_decode mb sa_zero None)
      | KXorAddr \<Rightarrow> map_option (\<lambda>(mb, r). (mb, map_sum id VSa r)) (stun_addr_decode mb sa_zero tid)
      | KChange \<Rightarrow>
          if len \<noteq> 4 then Some (mb, Inl EBADMSG)
          else map_option (\<lambda>(mb, n). (mb, Inr (VChangeReq (bit (ntohl n) 2) (bit (ntohl n) 1)))) (mbuf_read_u32 mb)
      | KStr \<Rightarrow> map_option (\<lambda>(mb, r). (mb, map_sum id VStr r)) (str_decode mem mb len)
      | KIntegrity \<Rightarrow>
          if len \<noteq> 20 then Some (mb, Inl EBADMSG)
          else map_option (\<lambda>(mb, r). (mb, map_sum id VIntegrity r)) (mbuf_read_mem mb 20)
      | KErrCode \<Rightarrow>
          if len < 4 then Some (mb, Inl EBADMSG)
          else do {
            (mb, c) \<leftarrow> mbuf_read_u8 (mb\<lparr>mb_pos := mb_pos mb + 2\<rparr>);
            (mb, n) \<leftarrow> mbuf_read_u8 mb;
            (mb, r) \<leftarrow> str_decode mem mb (len - 4);
            Some (mb, map_sum id (\<lambda>str. VErrCode (ucast (c AND 7) * 100 + ucast n) (Some str)) r)
          }
      | KUnknown \<Rightarrow>
          map_option (\<lambda>(mb, ua). (mb, Inr (VUnknown ua))) (unknown_decode mb (len div 2) \<lparr>ua_typev = replicate 8 0, ua_typec = 0\<rparr>)
      | K16 \<Rightarrow>
          if len < 2 then Some (mb, Inl EBADMSG)
          else map_option (\<lambda>(mb, n). (mb, Inr (V16 (ntohs n)))) (mbuf_read_u16 mb)
      | K32 \<Rightarrow>
          if len \<noteq> 4 then Some (mb, Inl EBADMSG)
          else map_option (\<lambda>(mb, n). (mb, Inr (V32 (ntohl n)))) (mbuf_read_u32 mb)
      | KMb \<Rightarrow> Some (mb\<lparr>mb_pos := mb_pos mb + len\<rparr>, Inr (VMb (mb\<lparr>mb_end := mb_pos mb + len\<rparr>)))
      | K8 \<Rightarrow>
          if len < 1 then Some (mb, Inl EBADMSG)
          else map_option (\<lambda>(mb, n). (mb, Inr (V8 n))) (mbuf_read_u8 mb)
      | KEven \<Rightarrow>
          if len < 1 then Some (mb, Inl EBADMSG)
          else map_option (\<lambda>(mb, n). (mb, Inr (VEvenPort (bit n 7)))) (mbuf_read_u8 mb)
      | KNone \<Rightarrow> if len > 0 then Some (mb, Inl EBADMSG) else Some (mb, Inr VNone)
      | K64 \<Rightarrow>
          if len \<noteq> 8 then Some (mb, Inl EBADMSG)
          else map_option (\<lambda>(mb, n). (mb, Inr (V64 (sys_ntohll n)))) (mbuf_read_u64 mb)
      | KOther \<Rightarrow> Some (mb\<lparr>mb_pos := mb_pos mb + len\<rparr>, Inr VNone))"

function slurp :: "nat \<Rightarrow> mbuf \<Rightarrow> mbuf" where
  "slurp start mb =
     (if (mb_pos mb - start) mod 4 \<noteq> 0 \<and> mbuf_get_left mb \<noteq> 0 then slurp start (mb\<lparr>mb_pos := mb_pos mb + 1\<rparr>) else mb)"
  by pat_completeness auto

termination
  by (relation "measure (\<lambda>(start, mb). mbuf_get_left mb)") (auto simp: mbuf_get_left_def split: if_splits)

declare slurp.simps [simp del]

text \<open>\<open>mem_attr\<close> is the outcome of the allocation of the attribute, \<open>ua\<close> the caller's list of unknown types, if it has one.\<close>

definition stun_attr_decode ::
  "bool \<Rightarrow> (nat \<Rightarrow> bool) \<Rightarrow> mbuf \<Rightarrow> bytes option \<Rightarrow> stun_unknown_attr option \<Rightarrow>
   (mbuf \<times> stun_unknown_attr option \<times> (int + stun_attr)) option" where
  "stun_attr_decode mem_attr mem mb tid ua =
     (if mbuf_get_left mb < 4 then Some (mb, ua, Inl EBADMSG)
      else if \<not> mem_attr then Some (mb, ua, Inl ENOMEM)
      else do {
        (mb, t) \<leftarrow> mbuf_read_u16 mb;
        (mb, l) \<leftarrow> mbuf_read_u16 mb;
        let type = ntohs t; len = unat (ntohs l) in
        if mbuf_get_left mb < len then Some (mb, ua, Inl EBADMSG)
        else (let start = mb_pos mb in do {
          (mb, r) \<leftarrow> attr_value_decode mem mb type len tid;
          let ua = (if attr_case_of type = KOther \<and> type < 0x8000 then map_option (ua_add type) ua else ua) in
          (case r of
             Inl err \<Rightarrow> Some (mb, ua, Inl err)
           | Inr v \<Rightarrow> Some (slurp start mb, ua, Inr \<lparr>attr_type = type, attr_v = v\<rparr>))
        })
      })"

section \<open>Writing at the position\<close>

text \<open>
  \<open>holds mb off bs\<close>: the bytes \<open>bs\<close> lie at offset \<open>off\<close> of the buffer. \<open>mb_wrote mb bs mb'\<close>: the buffer \<open>mb'\<close> is \<open>mb\<close> after \<open>bs\<close> was written at its position, and
  what lay before and behind is still there.
\<close>

definition holds :: "mbuf \<Rightarrow> nat \<Rightarrow> bytes \<Rightarrow> bool" where
  "holds mb off bs \<longleftrightarrow> bs = [] \<or> off + length bs \<le> length (mb_buf mb) \<and> take (length bs) (drop off (mb_buf mb)) = bs"

definition mb_keeps :: "nat \<Rightarrow> nat \<Rightarrow> mbuf \<Rightarrow> mbuf \<Rightarrow> bool" where
  "mb_keeps a b mb mb' \<longleftrightarrow> (\<forall>off cs. (off + length cs \<le> a \<or> b \<le> off) \<and> holds mb off cs \<longrightarrow> holds mb' off cs)"

definition ends :: "bytes \<Rightarrow> mbuf \<Rightarrow> mbuf \<Rightarrow> bool" where
  "ends bs mb mb' \<longleftrightarrow> mb_end mb \<le> mb_end mb' \<and> mb_end mb' \<le> max (mb_end mb) (mb_pos mb')
     \<and> (bs \<noteq> [] \<longrightarrow> mb_pos mb' \<le> mb_end mb') \<and> (mbuf_ok mb \<longrightarrow> mbuf_ok mb')"

definition mb_wrote :: "mbuf \<Rightarrow> bytes \<Rightarrow> mbuf \<Rightarrow> bool" where
  "mb_wrote mb bs mb' \<longleftrightarrow> mb_pos mb' = mb_pos mb + length bs \<and> holds mb' (mb_pos mb) bs
     \<and> mb_keeps (mb_pos mb) (mb_pos mb') mb mb' \<and> ends bs mb mb'"

lemma holds_Nil [simp]: "holds mb off []"
  by (simp add: holds_def)

lemma holds_upd [simp]: "holds (mb\<lparr>mb_pos := p\<rparr>) = holds mb"
  by (simp add: holds_def fun_eq_iff)

lemma holds_append: "holds mb off (xs @ ys) \<longleftrightarrow> holds mb off xs \<and> holds mb (off + length xs) ys"
proof (cases "xs = [] \<or> ys = []")
  case False
  then show ?thesis
    by (auto simp: holds_def take_add add.commute add.left_commute dest: arg_cong [of _ _ length])
qed auto

lemma holds_take: "holds mb off (xs @ ys) \<Longrightarrow> holds mb off xs"
  by (simp add: holds_append)

lemma mb_keepsD: "mb_keeps a b mb mb' \<Longrightarrow> holds mb off cs \<Longrightarrow> off + length cs \<le> a \<or> b \<le> off \<Longrightarrow> holds mb' off cs"
  unfolding mb_keeps_def by blast

lemma mb_keeps_trans: "mb_keeps a b mb mb1 \<Longrightarrow> mb_keeps b c mb1 mb2 \<Longrightarrow> a \<le> b \<Longrightarrow> b \<le> c \<Longrightarrow> mb_keeps a c mb mb2"
  unfolding mb_keeps_def by (metis order_trans)

lemma wrote_Nil: "mb_wrote mb [] mb"
  by (simp add: mb_wrote_def mb_keeps_def ends_def)

lemma mb_wroteD:
  assumes "mb_wrote mb bs mb'"
  shows "mb_pos mb' = mb_pos mb + length bs" "holds mb' (mb_pos mb) bs" "mb_keeps (mb_pos mb) (mb_pos mb') mb mb'" "ends bs mb mb'"
  using assms unfolding mb_wrote_def by blast+

lemma wrote_trans:
  assumes "mb_wrote mb xs mb1" and "mb_wrote mb1 ys mb2"
  shows "mb_wrote mb (xs @ ys) mb2"
proof -
  note 1 = mb_wroteD [OF assms(1)] and 2 = mb_wroteD [OF assms(2)]
  have "holds mb2 (mb_pos mb) xs" using mb_keepsD [OF 2(3) 1(2)] 1(1) by simp
  then have h: "holds mb2 (mb_pos mb) (xs @ ys)" using 1(1) 2(2) by (simp add: holds_append)
  have k: "mb_keeps (mb_pos mb) (mb_pos mb2) mb mb2" using mb_keeps_trans [OF 1(3) 2(3)] 1(1) 2(1) by simp
  have "ends (xs @ ys) mb mb2" using 1(1,4) 2(1,4) by (cases "ys = []") (auto simp: ends_def)
  then show ?thesis using h k 1(1) 2(1) by (simp add: mb_wrote_def)
qed

lemma holds_grown:
  assumes "holds mb off cs" and "take (length (mb_buf mb)) m = mb_buf mb" and "length (mb_buf mb) \<le> length m"
    and "p + length bs \<le> length m" and "off + length cs \<le> p \<or> p + length bs \<le> off"
  shows "cs = [] \<or> off + length cs \<le> length m \<and> take (length cs) (drop off (patch m p bs)) = cs"
proof (cases "cs = []")
  case False
  then have cs: "off + length cs \<le> length (mb_buf mb)" "take (length cs) (drop off (mb_buf mb)) = cs"
    using assms(1) by (simp_all add: holds_def)
  have "take (length cs) (drop off m) = take (length cs) (drop off (take (length (mb_buf mb)) m))"
    using cs(1) by (simp add: drop_take)
  then have "take (length cs) (drop off m) = cs" using assms(2) cs(2) by simp
  then show ?thesis using assms(3-5) cs(1) take_drop_patch [of p bs m off "length cs"] by simp
qed simp

lemma wrote_write:
  assumes "\<forall>n. mem n"
  obtains mb' where "mbuf_write_mem mem mb bs = (mb', 0)" "mb_wrote mb bs mb'"
proof -
  obtain mb' err where w: "mbuf_write_mem mem mb bs = (mb', err)" by fastforce
  then have err: "err = 0"
    using assms by (auto simp: mbuf_write_mem_def mbuf_resize_def Let_def split: if_splits)
  from w show ?thesis
  proof (cases rule: mbuf_write_mem_cases)
    case (2 m)
    have "mb_keeps (mb_pos mb) (mb_pos mb') mb mb'"
      unfolding mb_keeps_def
    proof (intro allI impI)
      fix off cs assume "(off + length cs \<le> mb_pos mb \<or> mb_pos mb' \<le> off) \<and> holds mb off cs"
      then show "holds mb' off cs"
        using holds_grown [of mb off cs m "mb_pos mb" bs] 2 by (simp add: holds_def)
    qed
    moreover have "holds mb' (mb_pos mb) bs" using 2 by (simp add: holds_def patch_def)
    moreover have "ends bs mb mb'" using 2 by (auto simp: ends_def mbuf_ok_def)
    ultimately show ?thesis using w err 2 by (intro that [of mb']) (simp_all add: mb_wrote_def)
  qed (simp add: err ENOMEM_def)
qed

lemma writes_wrote:
  assumes "\<forall>n. mem n"
  obtains mb' where "writes mem (mb, err) ds = (mb', err)" "mb_wrote mb (concat ds) mb'"
proof (induction ds arbitrary: mb thesis)
  case Nil
  then show ?case using wrote_Nil by simp
next
  case (Cons d ds)
  obtain mb1 where 1: "mbuf_write_mem mem mb d = (mb1, 0)" "mb_wrote mb d mb1" by (rule wrote_write [OF assms])
  obtain mb2 where 2: "writes mem (mb1, err) ds = (mb2, err)" "mb_wrote mb1 (concat ds) mb2" by (rule Cons.IH)
  show ?case by (rule Cons.prems [of mb2]) (use 1 2 wrote_trans in simp_all)
qed

lemma mbuf_ok_pos [simp]: "mbuf_ok (mb\<lparr>mb_pos := p\<rparr>) = mbuf_ok mb"
  by (simp add: mbuf_ok_def)

lemma mb_keeps_pos [simp]: "mb_keeps a b (mb\<lparr>mb_pos := p\<rparr>) mb' = mb_keeps a b mb mb'" "mb_keeps a b mb (mb'\<lparr>mb_pos := p\<rparr>) = mb_keeps a b mb mb'"
  by (simp_all add: mb_keeps_def)

text \<open>A header that is left out at first and written when what follows it is there.\<close>

lemma wrote_around:
  assumes "mb_wrote (mb\<lparr>mb_pos := mb_pos mb + length H\<rparr>) V mb1" and "mb_wrote (mb1\<lparr>mb_pos := mb_pos mb\<rparr>) H mb2" and "H \<noteq> []"
  shows "mb_wrote mb (H @ V) (mb2\<lparr>mb_pos := mb_pos mb2 + length V\<rparr>)"
proof -
  note 1 = mb_wroteD [OF assms(1), simplified] and 2 = mb_wroteD [OF assms(2), simplified]
  have "holds mb2 (mb_pos mb + length H) V" using mb_keepsD [OF 2(3) 1(2)] 2(1) by simp
  then have h: "holds mb2 (mb_pos mb) (H @ V)" using 2(2) by (simp add: holds_append)
  have k: "mb_keeps (mb_pos mb) (mb_pos mb2 + length V) mb mb2"
    unfolding mb_keeps_def
  proof (intro allI impI)
    fix off cs assume a: "(off + length cs \<le> mb_pos mb \<or> mb_pos mb2 + length V \<le> off) \<and> holds mb off cs"
    then have "holds mb1 off cs" using mb_keepsD [OF 1(3), of off cs] 1(1) 2(1) by auto
    then show "holds mb2 off cs" using mb_keepsD [OF 2(3)] a 2(1) by auto
  qed
  have "ends (H @ V) mb (mb2\<lparr>mb_pos := mb_pos mb2 + length V\<rparr>)"
    using 1(1,4) 2(1,4) assms(3) by (cases "V = []") (auto simp: ends_def)
  then show ?thesis using h k 2(1) by (simp add: mb_wrote_def)
qed

lemma writes_append: "writes mem me (xs @ ys) = writes mem (writes mem me xs) ys"
  by (induction mem me xs rule: writes.induct) (simp_all split: prod.splits)

definition padding_of :: "nat \<Rightarrow> nat" where
  "padding_of n = (4 - n mod 4) mod 4"

lemma padding_of_0: "padding_of n = 0 \<longleftrightarrow> n mod 4 = 0"
proof -
  have "n mod 4 < 4" by simp
  then consider "n mod 4 = 0" | "n mod 4 = 1" | "n mod 4 = 2" | "n mod 4 = 3" by linarith
  then show ?thesis by cases (simp_all add: padding_of_def)
qed

lemma padding_of_Suc: "n mod 4 \<noteq> 0 \<Longrightarrow> padding_of n = Suc (padding_of (Suc n))"
proof -
  assume "n mod 4 \<noteq> 0"
  moreover have "n mod 4 < 4" by simp
  ultimately consider "n mod 4 = 1" | "n mod 4 = 2" | "n mod 4 = 3" by linarith
  then show ?thesis by cases (simp_all add: padding_of_def mod_Suc)
qed

lemma pad_wrote:
  assumes "\<forall>n. mem n" and "start \<le> mb_pos mb"
  obtains mb' where "stun_pad mem padding start mb err = Some (mb', err)"
    "mb_wrote mb (replicate (padding_of (mb_pos mb - start)) padding) mb'"
  using assms(2)
proof (induction "padding_of (mb_pos mb - start)" arbitrary: mb thesis)
  case 0
  then have z: "(mb_pos mb - start) mod 4 = 0" using padding_of_0 by metis
  then have "stun_pad mem padding start mb err = Some (mb, err)" by (subst stun_pad.simps) simp
  then show ?case using 0 wrote_Nil by (metis replicate_0)
next
  case (Suc k)
  then have z: "(mb_pos mb - start) mod 4 \<noteq> 0" using padding_of_0 by (metis nat.distinct(1))
  obtain mb1 where 1: "mbuf_write_mem mem mb [padding] = (mb1, 0)" "mb_wrote mb [padding] mb1" by (rule wrote_write [OF assms(1)])
  have p: "mb_pos mb1 = Suc (mb_pos mb)" using mb_wroteD(1) [OF 1(2)] by simp
  then have k: "k = padding_of (mb_pos mb1 - start)"
    using Suc.hyps(2) padding_of_Suc [OF z] Suc.prems(2) by (simp add: Suc_diff_le)
  obtain mb2 where 2: "stun_pad mem padding start mb1 err = Some (mb2, err)" "mb_wrote mb1 (replicate k padding) mb2"
    using Suc.hyps(1) [OF k] p Suc.prems(2) k by auto
  have "stun_pad mem padding start mb err = Some (mb2, err)"
    by (subst stun_pad.simps) (use z 1 2 in \<open>simp add: mbuf_write_u8_def\<close>)
  moreover have "mb_wrote mb (replicate (padding_of (mb_pos mb - start)) padding) mb2"
    using wrote_trans [OF 1(2) 2(2)] Suc.hyps(2) by (metis append_Cons append_Nil replicate_Suc)
  ultimately show ?case by (rule Suc.prems(1))
qed

text \<open>A padding byte that cannot be written is tried for ever.\<close>

lemma pad_hangs:
  assumes "(mb_pos mb - start) mod 4 \<noteq> 0" and "fst (mbuf_write_u8 mem mb padding) = mb"
  shows "stun_pad mem padding start mb err = None"
proof -
  have "\<not> ((mb_pos mb - start) mod 4 \<noteq> 0 \<and> fst (mbuf_write_u8 mem mb padding) = mb)" if "stun_pad mem padding start mb err = Some y" for y
    by (rule stun_pad.raw_induct [where P = "\<lambda>mem padding start mb err y. \<not> ((mb_pos mb - start) mod 4 \<noteq> 0 \<and> fst (mbuf_write_u8 mem mb padding) = mb)", OF _ that])
      (fastforce split: if_splits prod.splits)
  then show ?thesis using assms by (cases "stun_pad mem padding start mb err") auto
qed

section \<open>Encoding\<close>

text \<open>Addresses and strings as a client makes them, and which values go with which types.\<close>

definition sa_canon :: "sa \<Rightarrow> bool" where
  "sa_canon s \<longleftrightarrow> s = sa_set_in sa_zero (sa_in s) (sa_port s) \<or> s = sa_set_in6 sa_zero (sa_in6 s) (sa_port s)"

definition str_ok :: "bytes \<Rightarrow> bool" where
  "str_ok m \<longleftrightarrow> m \<noteq> [] \<and> List.last m = 0 \<and> 0 \<notin> set (butlast m)"

definition value_ok :: "u16 \<Rightarrow> stun_value \<Rightarrow> bool" where
  "value_ok type v =
     (case (attr_case_of type, v) of
        (KAddr, VSa addr) \<Rightarrow> sa_canon addr | (KXorAddr, VSa addr) \<Rightarrow> sa_canon addr | (KChange, VChangeReq ip port) \<Rightarrow> True
      | (KStr, VStr str) \<Rightarrow> str_ok str | (KIntegrity, VIntegrity mi) \<Rightarrow> length mi = 20
      | (KErrCode, VErrCode code (Some reason)) \<Rightarrow> code < 800 \<and> str_ok reason
      | (KUnknown, VUnknown ua) \<Rightarrow>
          length (ua_typev ua) = 8 \<and> ua_typec ua \<le> 8 \<and> drop (ua_typec ua) (ua_typev ua) = replicate (8 - ua_typec ua) 0
      | (K16, V16 n) \<Rightarrow> True | (K32, V32 n) \<Rightarrow> True | (K8, V8 n) \<Rightarrow> True | (K64, V64 n) \<Rightarrow> True
      | (KMb, VMb mbd) \<Rightarrow> mbuf_ok mbd \<and> mb_pos mbd \<le> mb_end mbd \<and> mb_buf mbd \<noteq> []
      | (KEven, VEvenPort r) \<Rightarrow> True | (KNone, VNone) \<Rightarrow> True | _ \<Rightarrow> False)"

definition addr_chunks :: "sa \<Rightarrow> bytes option \<Rightarrow> bytes list" where
  "addr_chunks addr tid =
     (let port = (case tid of Some _ \<Rightarrow> sa_port addr XOR ucast (drop_bit 16 STUN_MAGIC_COOKIE) | None \<Rightarrow> sa_port addr) in
      if sa_af addr = rawr_SockAF_IPv4
      then [[0], [STUN_AF_IPv4], be16 port, be32 (case tid of Some _ \<Rightarrow> sa_in addr XOR STUN_MAGIC_COOKIE | None \<Rightarrow> sa_in addr)]
      else [[0], [STUN_AF_IPv6], be16 port, (case tid of Some t \<Rightarrow> in6_xor_tid (sa_in6 addr) t | None \<Rightarrow> sa_in6 addr)])"

definition value_chunks :: "bytes option \<Rightarrow> u16 \<Rightarrow> stun_value \<Rightarrow> bytes list" where
  "value_chunks tid type v =
     (case v of
        VSa addr \<Rightarrow> addr_chunks addr (if attr_case_of type = KAddr then None else tid)
      | VChangeReq ip port \<Rightarrow> [be32 (push_bit 2 (of_bool ip) OR push_bit 1 (of_bool port))]
      | VStr str \<Rightarrow> [butlast str] | VIntegrity mi \<Rightarrow> [mi]
      | VErrCode code reason \<Rightarrow> [le16 0, [ucast (code div 100)], [ucast (code mod 100)], butlast (the reason)]
      | VUnknown ua \<Rightarrow> map be16 (take (ua_typec ua) (ua_typev ua))
      | V8 n \<Rightarrow> [[n], [0], le16 0] | V16 n \<Rightarrow> [be16 n, le16 0] | V32 n \<Rightarrow> [be32 n] | V64 n \<Rightarrow> [rev (le64 n)]
      | VMb mbd \<Rightarrow> [mbuf_rest mbd] | VEvenPort r \<Rightarrow> [[push_bit 7 (of_bool r)]] | VSelf \<Rightarrow> [] | VNone \<Rightarrow> [])"

definition attr_bytes :: "bytes option \<Rightarrow> u8 \<Rightarrow> u16 \<Rightarrow> stun_value \<Rightarrow> bytes" where
  "attr_bytes tid padding type v =
     (let V = concat (value_chunks tid type v)
      in be16 type @ be16 (of_nat (length V)) @ V @ replicate (padding_of (length V)) padding)"

lemma str_ok_cstr: "str_ok m \<Longrightarrow> cstr m = Some (butlast m)"
  unfolding str_ok_def by (metis append_butlast_last_id cstr_append)

lemma af_distinct [simp]: "rawr_SockAF_IPv4 \<noteq> rawr_SockAF_IPv6" "rawr_SockAF_IPv6 \<noteq> rawr_SockAF_IPv4"
  by (simp_all add: rawr_SockAF_IPv4_def rawr_SockAF_IPv6_def)

lemma length_sa_zero [simp]: "length (sa_u sa_zero) = 28"
  by (simp add: sa_zero_def)

lemma sa_set_u:
  "sa_u (sa_set_in sa_zero a p) = le16 rawr_SockAF_IPv4 @ be16 p @ be32 a @ replicate 20 0"
  "length b = 16 \<Longrightarrow> sa_u (sa_set_in6 sa_zero b p) = le16 rawr_SockAF_IPv6 @ be16 p @ replicate 4 0 @ b @ replicate 4 0"
  by (simp_all add: sa_set_in_def sa_set_in6_def sa_zero_def st16_def st32_def patch_def le_bswap)

lemma sa_set_in_fields [simp]:
  "sa_af (sa_set_in sa_zero a p) = rawr_SockAF_IPv4" "sa_in (sa_set_in sa_zero a p) = a" "sa_port (sa_set_in sa_zero a p) = p"
  by (simp_all add: sa_af_def sa_in_def sa_port_def sa_set_u ld16_def ld32_def)

lemma sa_set_in6_fields [simp]:
  assumes "length a = 16"
  shows "sa_af (sa_set_in6 sa_zero a p) = rawr_SockAF_IPv6" "sa_in6 (sa_set_in6 sa_zero a p) = a" "sa_port (sa_set_in6 sa_zero a p) = p"
  using assms by (simp_all add: sa_af_def sa_in6_def sa_port_def sa_set_u ld16_def)

lemma sa_canon_cases:
  assumes "sa_canon s"
  obtains a p where "s = sa_set_in sa_zero a p" | b p where "length b = 16" "s = sa_set_in6 sa_zero b p"
proof -
  from assms consider "s = sa_set_in sa_zero (sa_in s) (sa_port s)" | "s = sa_set_in6 sa_zero (sa_in6 s) (sa_port s)"
    by (auto simp: sa_canon_def)
  then show ?thesis
  proof cases
    case 2
    have "length (sa_u (sa_set_in6 sa_zero x p)) = 28" for x p
      by (simp add: sa_set_in6_def st16_def patch_def sa_zero_def) 
    then have "length (sa_u s) = 28" using 2 by metis
    then have "length (sa_in6 s) = 16" by (simp add: sa_in6_def)
    then show ?thesis using 2 that(2) by blast
  qed (rule that(1))
qed

lemma length8: "length bs = 8 \<Longrightarrow> \<exists>a b c d e f g h. bs = [a, b, c, d, e, f, g, h]"
  by (auto simp: numeral_eq_Suc length_Suc_conv)

lemma ucast_push_bit_u8: "k \<le> 24 \<Longrightarrow> ucast (push_bit k (ucast x :: u32)) = push_bit k (ucast (x :: u8) :: u64)"
  by (rule bit_word_eqI) (auto simp: bit_simps dest: bit_u8D)

lemma le64_of_8:
  "le64_of [i, g, f, e, d, c, b, a] = push_bit 56 (ucast a) OR push_bit 48 (ucast b) OR push_bit 40 (ucast c) OR push_bit 32 (ucast d)
     OR push_bit 24 (ucast e) OR push_bit 16 (ucast f) OR push_bit 8 (ucast g) OR ucast i"
proof -
  have 4: "take 4 [i, g, f, e, d, c, b, a] = [i, g, f, e]" "drop 4 [i, g, f, e, d, c, b, a] = [d, c, b, a]" by simp_all
  have q: "ucast (ucast x :: u32) = (ucast x :: u64)" for x :: u8 using ucast_push_bit_u8 [of 0 x] by simp
  show ?thesis
    unfolding le64_of_def 4 le32_of_def
    by (simp add: unsigned_or_eq ucast_push_bit_u8 q push_bit_or or.assoc or.commute or.left_commute)
qed

lemma sys_htonll_rev: "sys_htonll v = le64_of (rev (le64 v))"
proof -
  obtain a b c d e f g i where "le64 v = [a, b, c, d, e, f, g, i]" using length8 [of "le64 v"] by auto
  then show ?thesis by (simp add: sys_htonll_def le64_of_8 or.assoc)
qed

lemma sys_ntohll_rev: "sys_ntohll v = le64_of (rev (le64 v))"
proof -
  have m: "(0xff :: u64) = mask 8" by (simp add: mask_eq_exp_minus_1)
  have "map (\<lambda>k. ucast (drop_bit k v AND 0xff)) [56, 48, 40, 32, 24, 16, 8, 0] = rev (le64 v)"
    unfolding le64_def le32_def m
    by simp (intro conjI; rule bit_word_eqI; auto simp: bit_simps)
  then show ?thesis by (simp add: sys_ntohll_def)
qed

lemma le64_sys_htonll: "le64 (sys_htonll v) = rev (le64 v)"
  by (simp add: sys_htonll_rev)

lemma sys_ntohll_htonll: "sys_ntohll (le64_of (rev (le64 v))) = v"
  by (simp add: sys_ntohll_rev)

lemma addr_encode_writes: "sa_canon s \<Longrightarrow> stun_addr_encode mem mb s tid = writes mem (mb, 0) (addr_chunks s tid)"
  by (erule sa_canon_cases) (simp_all add: stun_addr_encode_def addr_chunks_def Let_def le_bswap split: option.splits)

lemma read_mbuf_rest:
  "mbuf_ok d \<Longrightarrow> mb_pos d \<le> mb_end d \<Longrightarrow> mem_read (mb_buf d) (mb_pos d) (mbuf_get_left d) = Some (mbuf_rest d)"
  by (simp add: mem_read_def mbuf_rest_def mbuf_ok_def mbuf_get_left_def)

lemma value_encode_writes:
  assumes "value_ok type v"
  shows "attr_value_encode mem mb type v tid = Some (writes mem (mb, 0) (value_chunks tid type v))"
proof (cases v)
  case (VErrCode code reason)
  then obtain m where "attr_case_of type = KErrCode" "reason = Some m" "str_ok m"
    using assms by (auto simp: value_ok_def split: attr_case.splits option.splits)
  then show ?thesis
    using VErrCode writes_append [of mem "(mb, 0)" "[le16 0, [ucast (code div 100)], [ucast (code mod 100)]]" "[butlast m]"]
    by (simp add: attr_value_encode_def value_chunks_def mbuf_write_str_def str_ok_cstr split: prod.splits)
next
  case (VMb d)
  then show ?thesis
    using assms read_mbuf_rest [of d] by (simp add: value_ok_def attr_value_encode_def value_chunks_def split: attr_case.splits)
qed (use assms in \<open>simp_all add: value_ok_def attr_value_encode_def value_chunks_def addr_encode_writes le_bswap le64_sys_htonll
    mbuf_write_str_def str_ok_cstr mem_read_def split: attr_case.splits prod.splits\<close>)

lemma be16_nonempty: "be16 x \<noteq> []"
  by (simp add: be16_def le16_def)

lemma attr_encode_wrote:
  assumes "\<forall>n. mem n" and "value_ok type v"
  obtains mb' where "stun_attr_encode mem mb type v tid padding = Some (mb', 0)" "mb_wrote mb (attr_bytes tid padding type v) mb'"
proof -
  let ?V = "concat (value_chunks tid type v)" and ?mb0 = "mb\<lparr>mb_pos := mb_pos mb + 4\<rparr>"
  let ?H = "be16 type @ be16 (of_nat (length ?V))"
  obtain mb1 where 1: "writes mem (?mb0, 0) (value_chunks tid type v) = (mb1, 0)" "mb_wrote ?mb0 ?V mb1"
    by (rule writes_wrote [OF assms(1)])
  have p1: "mb_pos mb1 = mb_pos mb + 4 + length ?V" using mb_wroteD(1) [OF 1(2)] by simp
  obtain mb2 where 2: "writes mem (mb1\<lparr>mb_pos := mb_pos mb\<rparr>, 0) [le16 (htons type), le16 (htons (of_nat (length ?V)))] = (mb2, 0)"
    "mb_wrote (mb1\<lparr>mb_pos := mb_pos mb\<rparr>) ?H mb2"
    using writes_wrote [OF assms(1), of "mb1\<lparr>mb_pos := mb_pos mb\<rparr>" 0 "[le16 (htons type), le16 (htons (of_nat (length ?V)))]"]
    by (auto simp: le_bswap)
  have w: "mb_wrote mb (?H @ ?V) (mb2\<lparr>mb_pos := mb_pos mb2 + length ?V\<rparr>)"
    by (rule wrote_around) (use 1(2) 2(2) be16_nonempty in simp_all)
  have p2: "mb_pos mb2 = mb_pos mb + 4" using mb_wroteD(1) [OF 2(2)] by simp
  obtain mb3 where 3: "stun_pad mem padding (mb_pos mb + 4) (mb2\<lparr>mb_pos := mb_pos mb2 + length ?V\<rparr>) 0 = Some (mb3, 0)"
    "mb_wrote (mb2\<lparr>mb_pos := mb_pos mb2 + length ?V\<rparr>) (replicate (padding_of (length ?V)) padding) mb3"
    using pad_wrote [OF assms(1), of "mb_pos mb + 4" "mb2\<lparr>mb_pos := mb_pos mb2 + length ?V\<rparr>" padding 0] p2 by auto
  show ?thesis
  proof (rule that [of mb3])
    show "stun_attr_encode mem mb type v tid padding = Some (mb3, 0)"
      using 1(1) 2(1) 3(1) p1 by (simp add: stun_attr_encode_def Let_def value_encode_writes [OF assms(2)] le_bswap)
    show "mb_wrote mb (attr_bytes tid padding type v) mb3"
      using wrote_trans [OF w 3(2)] by (simp add: attr_bytes_def Let_def)
  qed
qed

section \<open>Decoding\<close>

text \<open>A decoded buffer attribute refers to the packet; what it shows is the same.\<close>

definition same_value :: "stun_value \<Rightarrow> stun_value \<Rightarrow> bool" where
  "same_value v w = (case (v, w) of (VMb a, VMb b) \<Rightarrow> mbuf_rest a = mbuf_rest b | _ \<Rightarrow> v = w)"

lemma same_value_refl [simp]: "same_value v v"
  by (simp add: same_value_def split: stun_value.splits)

definition mbuf_in :: "mbuf \<Rightarrow> bool" where
  "mbuf_in mb \<longleftrightarrow> mbuf_ok mb \<and> mb_pos mb \<le> mb_end mb"

lemma mbuf_in_advance [simp]: "n \<le> mbuf_get_left mb \<Longrightarrow> mbuf_in mb \<Longrightarrow> mbuf_in (advance n mb)"
  by (auto simp: mbuf_in_def mbuf_get_left_def split: if_splits)

lemma length_rest_in: "mbuf_in mb \<Longrightarrow> length (mbuf_rest mb) = mbuf_get_left mb"
  by (simp add: mbuf_in_def length_mbuf_rest)

lemma reads_in:
  assumes "mbuf_in mb"
  shows "n \<le> mbuf_get_left mb \<Longrightarrow> mbuf_read_mem mb n = Some (advance n mb, Inr (take n (mbuf_rest mb)))"
    and "1 \<le> mbuf_get_left mb \<Longrightarrow> mbuf_read_u8 mb = Some (advance 1 mb, mbuf_rest mb ! 0)"
    and "2 \<le> mbuf_get_left mb \<Longrightarrow> mbuf_read_u16 mb = Some (advance 2 mb, le16_of (take 2 (mbuf_rest mb)))"
    and "4 \<le> mbuf_get_left mb \<Longrightarrow> mbuf_read_u32 mb = Some (advance 4 mb, le32_of (take 4 (mbuf_rest mb)))"
    and "8 \<le> mbuf_get_left mb \<Longrightarrow> mbuf_read_u64 mb = Some (advance 8 mb, le64_of (take 8 (mbuf_rest mb)))"
proof -
  have r: "n \<le> mbuf_get_left mb \<Longrightarrow> mbuf_read_mem mb n = Some (advance n mb, Inr (take n (mbuf_rest mb)))" for n
    using assms by (auto simp: mbuf_read_mem_def mem_read_def mbuf_rest_def mbuf_in_def mbuf_ok_def mbuf_get_left_def advance_def min_def
        split: if_splits)
  show "n \<le> mbuf_get_left mb \<Longrightarrow> mbuf_read_mem mb n = Some (advance n mb, Inr (take n (mbuf_rest mb)))" for n by (rule r)
  show "1 \<le> mbuf_get_left mb \<Longrightarrow> mbuf_read_u8 mb = Some (advance 1 mb, mbuf_rest mb ! 0)"
    "2 \<le> mbuf_get_left mb \<Longrightarrow> mbuf_read_u16 mb = Some (advance 2 mb, le16_of (take 2 (mbuf_rest mb)))"
    "4 \<le> mbuf_get_left mb \<Longrightarrow> mbuf_read_u32 mb = Some (advance 4 mb, le32_of (take 4 (mbuf_rest mb)))"
    "8 \<le> mbuf_get_left mb \<Longrightarrow> mbuf_read_u64 mb = Some (advance 8 mb, le64_of (take 8 (mbuf_rest mb)))"
    using r [of 1] r [of 2] r [of 4] r [of 8] by (simp_all add: mbuf_read_u8_def mbuf_read_u16_def mbuf_read_u32_def mbuf_read_u64_def)
qed

lemma slurp_advance:
  assumes "start \<le> mb_pos mb"
  shows "slurp start mb = advance (min (padding_of (mb_pos mb - start)) (mbuf_get_left mb)) mb"
  using assms
proof (induction start mb rule: slurp.induct)
  case (1 start mb)
  show ?case
  proof (cases "(mb_pos mb - start) mod 4 \<noteq> 0 \<and> mbuf_get_left mb \<noteq> 0")
    case True
    let ?mb = "advance 1 mb"
    have "slurp start ?mb = advance (min (padding_of (mb_pos ?mb - start)) (mbuf_get_left ?mb)) ?mb"
      using 1(1) [OF True] 1(2) by (simp add: advance_def)
    moreover have "slurp start mb = slurp start ?mb" using True by (subst slurp.simps) (simp add: advance_def)
    moreover have "padding_of (mb_pos mb - start) = Suc (padding_of (Suc (mb_pos mb) - start))"
      using padding_of_Suc [of "mb_pos mb - start"] True 1(2) by (simp add: Suc_diff_le)
    ultimately show ?thesis using True by (cases "mbuf_get_left mb") simp_all
  next
    case False
    then have "min (padding_of (mb_pos mb - start)) (mbuf_get_left mb) = 0"
      using padding_of_0 [of "mb_pos mb - start"] by (auto simp: mod_eq_0_iff_dvd)
    moreover have "slurp start mb = mb" using False by (subst slurp.simps) auto
    ultimately show ?thesis by (simp add: advance_def)
  qed
qed

lemma xor_twice: "(x XOR y) XOR y = (x :: 'a::len word)"
  by (simp add: xor.assoc)

lemma in6_xor_twice: "length a = 16 \<Longrightarrow> length tid = 12 \<Longrightarrow> in6_xor_tid (in6_xor_tid a tid) tid = a"
  by (rule nth_equalityI) (simp_all add: in6_xor_tid_def STUN_TID_SIZE_def xor.assoc)

lemma length_in6_xor [simp]: "length a = 16 \<Longrightarrow> length tid = 12 \<Longrightarrow> length (in6_xor_tid a tid) = 16"
  by (simp add: in6_xor_tid_def STUN_TID_SIZE_def)

lemma addr_decode_chunks:
  assumes "sa_canon s" and "mbuf_in mb" and "mbuf_rest mb = concat (addr_chunks s tid) @ tail" and "\<And>t. tid = Some t \<Longrightarrow> length t = 12"
  shows "stun_addr_decode mb sa_zero tid = Some (advance (length (concat (addr_chunks s tid))) mb, Inr s)"
proof -
  have left: "mbuf_get_left mb = length (concat (addr_chunks s tid)) + length tail"
    using length_rest_in [OF assms(2)] assms(3) by simp
  from assms(1) show ?thesis
  proof (cases rule: sa_canon_cases)
    case (1 a p)
    then show ?thesis
      using left assms(2,3)
      by (simp add: stun_addr_decode_def addr_chunks_def reads_in Let_def xor_twice rawr_defs split: option.splits)
  next
    case (2 b p)
    then show ?thesis
      using left assms(2-4)
      by (cases tid) (simp_all add: stun_addr_decode_def addr_chunks_def reads_in Let_def xor_twice in6_xor_twice STUN_AF_IPv4_def STUN_AF_IPv6_def)
  qed
qed

lemma unknown_decode_rest:
  assumes "mbuf_in mb" and "mbuf_rest mb = concat (map be16 ts) @ tail" and "ua_typec ua + length ts \<le> 8" and "length (ua_typev ua) = 8"
  shows "unknown_decode mb (length ts) ua = Some (advance (2 * length ts) mb,
     ua\<lparr>ua_typev := take (ua_typec ua) (ua_typev ua) @ ts @ drop (ua_typec ua + length ts) (ua_typev ua), ua_typec := ua_typec ua + length ts\<rparr>)"
  using assms
proof (induction ts arbitrary: mb ua)
  case Nil
  then show ?case by (simp add: advance_def)
next
  case (Cons t ts)
  have left: "2 \<le> mbuf_get_left mb" using length_rest_in [OF Cons.prems(1)] Cons.prems(2) by simp
  let ?ua = "ua\<lparr>ua_typev := (ua_typev ua)[ua_typec ua := t], ua_typec := ua_typec ua + 1\<rparr>"
  have IH: "unknown_decode (advance 2 mb) (length ts) ?ua = Some (advance (2 * length ts) (advance 2 mb),
     ?ua\<lparr>ua_typev := take (ua_typec ?ua) (ua_typev ?ua) @ ts @ drop (ua_typec ?ua + length ts) (ua_typev ?ua), ua_typec := ua_typec ?ua + length ts\<rparr>)"
    by (rule Cons.IH) (use Cons.prems left in simp_all)
  have tk: "take (Suc (ua_typec ua)) ((ua_typev ua)[ua_typec ua := t]) = take (ua_typec ua) (ua_typev ua) @ [t]"
    using Cons.prems(3,4) by (simp add: take_Suc_conv_app_nth)
  show ?case
    using IH left Cons.prems tk by (simp add: reads_in drop_update_cancel)
qed

lemma err_code_split:
  assumes "code < (800 :: u16)"
  shows "ucast ((ucast (code div 100) :: u8) AND 7) * 100 + ucast (ucast (code mod 100) :: u8) = code"
proof -
  have c: "unat code < 800" using assms by (simp add: word_less_nat_alt)
  have d: "unat (ucast (code div 100) :: u8) = unat code div 100" "unat (ucast (code mod 100) :: u8) = unat code mod 100"
    using c by (simp_all add: unsigned_ucast_eq unat_div unat_mod take_bit_nat_eq_self)
  have "(ucast (code div 100) :: u8) < 2 ^ 3" using d(1) c by (simp add: word_less_nat_alt)
  then have "(ucast (code div 100) :: u8) AND mask 3 = ucast (code div 100)" by (intro small_mask) simp_all
  then have a: "(ucast (code div 100) :: u8) AND 7 = ucast (code div 100)" by (simp add: mask_eq_exp_minus_1)
  have u: "unat (ucast x :: u16) = unat x" for x :: u8
    using unsigned_less [of x, where 'a = nat] by (simp add: unsigned_ucast_eq take_bit_nat_eq_self)
  have "unat code div 100 * 100 + unat code mod 100 = unat code" by simp
  then show ?thesis
    unfolding a word_unat_eq_iff using c d by (simp add: unat_word_ariths u)
qed

lemma padding_of_small [simp]: "padding_of 0 = 0" "padding_of 1 = 3" "padding_of (Suc 0) = 3" "padding_of 2 = 2" "padding_of 4 = 0"
  by (simp_all add: padding_of_def)

lemma value_decode:
  assumes "value_ok type v" and "mbuf_in mb" and rest: "mbuf_rest mb = concat (value_chunks tid type v) @ tail"
    and mem: "\<forall>n. mem n" and tid: "\<And>t. tid = Some t \<Longrightarrow> length t = 12"
  obtains k w where "attr_value_decode mem mb type (length (concat (value_chunks tid type v))) tid = Some (advance k mb, Inr w)"
    "same_value v w" "k \<le> length (concat (value_chunks tid type v))"
    "k + padding_of k = length (concat (value_chunks tid type v)) + padding_of (length (concat (value_chunks tid type v)))"
proof -
  have left: "mbuf_get_left mb = length (concat (value_chunks tid type v)) + length tail"
    using length_rest_in [OF assms(2)] rest by simp
  note defs = value_ok_def attr_value_decode_def value_chunks_def
  show ?thesis
  proof (cases v)
    case (VSa s)
    then have c: "attr_case_of type = KAddr \<or> attr_case_of type = KXorAddr" "sa_canon s"
      using assms(1) by (auto simp: value_ok_def split: attr_case.splits)
    let ?tid = "if attr_case_of type = KAddr then None else tid"
    have "stun_addr_decode mb sa_zero ?tid = Some (advance (length (concat (addr_chunks s ?tid))) mb, Inr s)"
      by (rule addr_decode_chunks [OF c(2) assms(2)]) (use VSa rest tid in \<open>auto simp: value_chunks_def split: if_splits\<close>)
    then show ?thesis
      using VSa c by (intro that [of "length (concat (addr_chunks s ?tid))" v]) (auto simp: defs)
  next
    case (VErrCode code reason)
    then obtain m where c: "attr_case_of type = KErrCode" "reason = Some m" "str_ok m" "code < 800"
      using assms(1) by (auto simp: value_ok_def split: attr_case.splits option.splits)
    have m: "butlast m @ [0] = m" using c(3) unfolding str_ok_def by (metis append_butlast_last_id)
    have a: "mb\<lparr>mb_pos := Suc (Suc (mb_pos mb))\<rparr> = advance 2 mb" by (simp add: advance_def)
    have r: "mbuf_rest mb = [0, 0, ucast (code div 100), ucast (code mod 100)] @ butlast m @ tail"
      using rest c VErrCode by (simp add: value_chunks_def le16_def)
    have l: "mbuf_get_left mb = 4 + length (butlast m) + length tail" using left c VErrCode by (simp add: value_chunks_def)
    have "attr_value_decode mem mb type (4 + length (butlast m)) tid = Some (advance (4 + length (butlast m)) mb, Inr (VErrCode code (Some m)))"
      using c assms(2) r l mem m err_code_split [OF c(4)]
      by (simp add: attr_value_decode_def a reads_in str_decode_def mbuf_strdup_def)
    moreover have "length (concat (value_chunks tid type v)) = 4 + length (butlast m)" using VErrCode c(2) by (simp add: value_chunks_def)
    ultimately show ?thesis
      using VErrCode c by (intro that [of "4 + length (butlast m)" v]) simp_all
  next
    case (VUnknown ua)
    then have c: "attr_case_of type = KUnknown" "length (ua_typev ua) = 8" "ua_typec ua \<le> 8"
      "drop (ua_typec ua) (ua_typev ua) = replicate (8 - ua_typec ua) 0"
      using assms(1) by (auto simp: value_ok_def split: attr_case.splits)
    let ?ts = "take (ua_typec ua) (ua_typev ua)"
    have l: "length (concat (map be16 ?ts)) = 2 * ua_typec ua"
      using c(2,3) by (simp add: length_concat comp_def sum_list_triv)
    have "unknown_decode mb (length ?ts) \<lparr>ua_typev = replicate 8 0, ua_typec = 0\<rparr> = Some (advance (2 * length ?ts) mb,
        \<lparr>ua_typev = ?ts @ drop (length ?ts) (replicate 8 0), ua_typec = length ?ts\<rparr>)"
      using unknown_decode_rest [OF assms(2), of ?ts tail "\<lparr>ua_typev = replicate 8 0, ua_typec = 0\<rparr>"] rest VUnknown c by (simp add: value_chunks_def)
    moreover have "?ts @ drop (length ?ts) (replicate 8 0) = ua_typev ua" using c by (metis append_take_drop_id drop_replicate length_take min.absorb2)
    ultimately have "unknown_decode mb (ua_typec ua) \<lparr>ua_typev = replicate 8 0, ua_typec = 0\<rparr> = Some (advance (2 * ua_typec ua) mb, ua)"
      using c by simp
    then show ?thesis using VUnknown c(1) l by (intro that [of "2 * ua_typec ua" v]) (simp_all add: defs)
  next
    case (VStr m)
    then have c: "attr_case_of type = KStr" "str_ok m" using assms(1) by (auto simp: value_ok_def split: attr_case.splits)
    have "butlast m @ [0] = m" using c(2) unfolding str_ok_def by (metis append_butlast_last_id)
    then show ?thesis
      using VStr c left rest mem assms(2) by (intro that [of "length (butlast m)" v]) (simp_all add: defs str_decode_def mbuf_strdup_def reads_in)
  next
    case (VMb d)
    then have c: "attr_case_of type = KMb" using assms(1) by (auto simp: value_ok_def split: attr_case.splits)
    let ?w = "mb\<lparr>mb_end := mb_pos mb + length (mbuf_rest d)\<rparr>"
    have "mbuf_rest ?w = take (length (mbuf_rest d)) (mbuf_rest mb)"
      using left VMb assms(2) by (auto simp: value_chunks_def mbuf_rest_def mbuf_get_left_def mbuf_in_def min_def split: if_splits)
    then show ?thesis
      using VMb c rest by (intro that [of "length (mbuf_rest d)" "VMb ?w"]) (simp_all add: defs same_value_def advance_def)
  next
    case (V16 n)
    then have c: "attr_case_of type = K16" using assms(1) by (auto simp: value_ok_def split: attr_case.splits)
    then show ?thesis using V16 rest left assms(2) by (intro that [of 2 v]) (simp_all add: defs reads_in)
  next
    case (V8 n)
    then have c: "attr_case_of type = K8" using assms(1) by (auto simp: value_ok_def split: attr_case.splits)
    then show ?thesis using V8 rest left assms(2) by (intro that [of 1 v]) (simp_all add: defs reads_in)
  next
    case (VChangeReq a b)
    then have c: "attr_case_of type = KChange" using assms(1) by (auto simp: value_ok_def split: attr_case.splits)
    then show ?thesis
      using VChangeReq rest left assms(2) by (intro that [of 4 v]) (simp_all add: defs reads_in bit_simps)
  next
    case (VEvenPort r)
    then have c: "attr_case_of type = KEven" using assms(1) by (auto simp: value_ok_def split: attr_case.splits)
    then show ?thesis
      using VEvenPort rest left assms(2) by (intro that [of 1 v]) (simp_all add: defs reads_in bit_simps)
  next
    case VNone
    then have c: "attr_case_of type = KNone" using assms(1) by (auto simp: value_ok_def split: attr_case.splits)
    then show ?thesis using VNone by (intro that [of 0 v]) (simp_all add: defs advance_def)
  next
    case VSelf
    then show ?thesis using assms(1) by (auto simp: value_ok_def split: attr_case.splits)
  qed (use assms(1,2) rest left sys_ntohll_htonll in \<open>auto simp: defs reads_in split: attr_case.splits intro!: that\<close>)
qed

lemma attr_decode_bytes:
  assumes "value_ok type v" and "mbuf_in mb" and rest: "mbuf_rest mb = attr_bytes tid padding type v @ tail"
    and mem: "\<forall>n. mem n" and tid: "\<And>t. tid = Some t \<Longrightarrow> length t = 12" and short: "length (concat (value_chunks tid type v)) < 65536"
  obtains w where "stun_attr_decode True mem mb tid ua =
      Some (advance (length (attr_bytes tid padding type v)) mb, ua, Inr \<lparr>attr_type = type, attr_v = w\<rparr>)" "same_value v w"
proof -
  let ?V = "concat (value_chunks tid type v)"
  have r: "mbuf_rest mb = be16 type @ be16 (of_nat (length ?V)) @ ?V @ replicate (padding_of (length ?V)) padding @ tail"
    using rest by (simp add: attr_bytes_def Let_def)
  have left: "mbuf_get_left mb = 4 + length ?V + padding_of (length ?V) + length tail"
    using length_rest_in [OF assms(2)] r by simp
  have len: "unat (of_nat (length ?V) :: u16) = length ?V" using short by (simp add: unat_of_nat take_bit_nat_eq_self)
  have other: "attr_case_of type \<noteq> KOther" using assms(1) by (auto simp: value_ok_def split: stun_value.splits)
  obtain k w where d: "attr_value_decode mem (advance 4 mb) type (length ?V) tid = Some (advance k (advance 4 mb), Inr w)"
    and w: "same_value v w" and k: "k \<le> length ?V" "k + padding_of k = length ?V + padding_of (length ?V)"
    by (rule value_decode [OF assms(1), of "advance 4 mb" tid "replicate (padding_of (length ?V)) padding @ tail" mem])
      (use assms(2) r left mem tid in simp_all)
  have s: "slurp (mb_pos mb + 4) (advance (4 + k) mb) = advance (4 + k + padding_of k) mb"
    using slurp_advance [of "mb_pos mb + 4" "advance (4 + k) mb"] left k by simp
  have n: "length (attr_bytes tid padding type v) = 4 + k + padding_of k"
    using k(2) by (simp add: attr_bytes_def Let_def)
  show ?thesis
    by (rule that [OF _ w]) (use d s n r left len other assms(2) in \<open>simp add: stun_attr_decode_def reads_in Let_def\<close>)
qed

section \<open>Safety of decoding\<close>

lemma addr_decode_safe:
  assumes "mbuf_in mb"
  shows "\<exists>mb' r. stun_addr_decode mb s tid = Some (mb', r) \<and> moved mb mb'"
proof (cases "mbuf_get_left mb < 4")
  case False
  then have 4: "moved mb (advance 4 mb)" "mbuf_in (advance 4 mb)" using assms by (simp_all add: moved_advance)
  then show ?thesis
    using assms False by (auto simp: stun_addr_decode_def reads_in Let_def moved_advance)
qed (auto simp: stun_addr_decode_def moved_refl)

lemma str_decode_safe:
  assumes "mbuf_in mb" and "len \<le> mbuf_get_left mb"
  shows "\<exists>mb' r. str_decode mem mb len = Some (mb', r) \<and> moved mb mb'"
  using assms by (auto simp: str_decode_def mbuf_strdup_def reads_in moved_refl moved_advance)

lemma unknown_decode_safe:
  "mbuf_in mb \<Longrightarrow> 2 * n \<le> mbuf_get_left mb \<Longrightarrow> \<exists>ua'. unknown_decode mb n ua = Some (advance (2 * n) mb, ua')"
proof (induction n arbitrary: mb ua)
  case 0
  then show ?case by (simp add: advance_def)
next
  case (Suc n)
  then show ?case using Suc.IH [of "advance 2 mb"] by (simp add: reads_in)
qed

lemma value_decode_safe:
  assumes "mbuf_in mb" and "len \<le> mbuf_get_left mb"
  shows "\<exists>mb' r. attr_value_decode mem mb type len tid = Some (mb', r) \<and> moved mb mb'"
proof -
  have l: "mb\<lparr>mb_pos := mb_pos mb + k\<rparr> = advance k mb" for k by (simp add: advance_def)
  have 2: "mb\<lparr>mb_pos := Suc (Suc (mb_pos mb))\<rparr> = advance 2 mb" by (simp add: advance_def)
  show ?thesis
  proof (cases "attr_case_of type")
    case KAddr
    then show ?thesis using addr_decode_safe [OF assms(1), of sa_zero None] by (auto simp: attr_value_decode_def)
  next
    case KXorAddr
    then show ?thesis using addr_decode_safe [OF assms(1), of sa_zero tid] by (auto simp: attr_value_decode_def)
  next
    case KStr
    then show ?thesis using str_decode_safe [OF assms, of mem] by (auto simp: attr_value_decode_def)
  next
    case KErrCode
    show ?thesis
    proof (cases "len < 4")
      case False
      then obtain mb' r where "str_decode mem (advance 4 mb) (len - 4) = Some (mb', r)" "moved (advance 4 mb) mb'"
        using str_decode_safe [of "advance 4 mb" "len - 4" mem] assms by (auto simp: diff_le_mono)
      moreover have "moved mb (advance 4 mb)" using False assms by (simp add: moved_advance)
      ultimately show ?thesis
        using KErrCode False assms moved_trans by (fastforce simp: attr_value_decode_def 2 reads_in)
    qed (use KErrCode in \<open>simp add: attr_value_decode_def moved_refl\<close>)
  next
    case KUnknown
    then show ?thesis
      using unknown_decode_safe [OF assms(1), of "len div 2"] assms(2) by (fastforce simp: attr_value_decode_def intro!: moved_advance)
  qed (use assms in \<open>auto simp: attr_value_decode_def reads_in l moved_refl moved_advance\<close>)
qed

text \<open>The bytes an attribute takes at least; the check of a message relies on them.\<close>

definition attr_cost :: "u16 \<Rightarrow> nat" where
  "attr_cost type = (if type = STUN_ATTR_MSG_INTEGRITY then 24 else if type = STUN_ATTR_FINGERPRINT then 8 else 4)"

lemma value_decode_cost:
  assumes "mbuf_in mb" and "len \<le> mbuf_get_left mb" and "attr_value_decode mem mb type len tid = Some (mb', Inr v)"
  shows "mb_pos mb + attr_cost type \<le> mb_pos mb' + 4"
proof -
  have m: "mb_pos mb \<le> mb_pos mb'"
    using value_decode_safe [OF assms(1,2), of mem type tid] assms(3) by (auto simp: moved_def)
  have c: "attr_case_of STUN_ATTR_MSG_INTEGRITY = KIntegrity" "attr_case_of STUN_ATTR_FINGERPRINT = K32"
    "STUN_ATTR_FINGERPRINT \<noteq> STUN_ATTR_MSG_INTEGRITY"
    by (simp_all add: attr_case_of_def stun_attr_types)
  show ?thesis
    using assms m c by (auto simp: attr_cost_def attr_value_decode_def reads_in split: if_splits)
qed

lemma attr_decode_safe:
  assumes "mbuf_in mb"
  shows "\<exists>mb' ua' r. stun_attr_decode ma mem mb tid ua = Some (mb', ua', r) \<and> moved mb mb' \<and> (case r of Inl _ \<Rightarrow> True | Inr a \<Rightarrow> mb_pos mb + attr_cost (attr_type a) \<le> mb_pos mb')"
proof (cases "mbuf_get_left mb < 4 \<or> \<not> ma")
  case True
  then show ?thesis by (auto simp: stun_attr_decode_def moved_refl)
next
  case False
  then have left: "4 \<le> mbuf_get_left mb" "ma" by auto
  let ?t = "ntohs (le16_of (take 2 (mbuf_rest mb)))" and ?l = "unat (ntohs (le16_of (take 2 (drop 2 (mbuf_rest mb)))))"
  have 4: "moved mb (advance 4 mb)" "mbuf_in (advance 4 mb)" using assms left(1) by (simp_all add: moved_advance)
  show ?thesis
  proof (cases "mbuf_get_left mb - 4 < ?l")
    case True
    then show ?thesis using left assms 4 by (simp add: stun_attr_decode_def reads_in Let_def)
  next
    case fits: False
    obtain mb' r where d: "attr_value_decode mem (advance 4 mb) ?t ?l tid = Some (mb', r)" "moved (advance 4 mb) mb'"
      using value_decode_safe [OF 4(2), of ?l mem ?t tid] fits by auto
    have s: "slurp (mb_pos mb + 4) mb' = advance (min (padding_of (mb_pos mb' - (mb_pos mb + 4))) (mbuf_get_left mb')) mb'"
      using d(2) by (intro slurp_advance) (auto simp: moved_def)
    have "moved mb' (slurp (mb_pos mb + 4) mb')" unfolding s by (simp add: moved_advance)
    then have m: "moved mb (slurp (mb_pos mb + 4) mb')" "moved mb mb'" "mb_pos mb' \<le> mb_pos (slurp (mb_pos mb + 4) mb')"
      using d(2) 4(1) moved_trans s by (blast, blast, simp)
    have c: "mb_pos mb + attr_cost ?t \<le> mb_pos mb'" if "r = Inr v" for v
      using value_decode_cost [OF 4(2) _ d(1) [unfolded that]] fits by simp
    show ?thesis
      using d(1) left assms fits m c by (cases r) (fastforce simp: stun_attr_decode_def reads_in Let_def)+
  qed
qed

end
