(* ===== verification/Crc32.thy ===== *)
theory Crc32
  imports Bytes
begin

text \<open>
  The CRC-32 of re, \<^verbatim>\<open>deps/re/src/crc32/crc32.c\<close>, which STUN uses for its fingerprint: the loop over the table
  of the source is the division by the polynomial, bit by bit.
\<close>

section \<open>Operations\<close>

definition crc32_tab :: "u32 list" where
  "crc32_tab = [
     0x00000000, 0x77073096, 0xee0e612c, 0x990951ba, 0x076dc419, 0x706af48f, 0xe963a535, 0x9e6495a3,
     0x0edb8832, 0x79dcb8a4, 0xe0d5e91e, 0x97d2d988, 0x09b64c2b, 0x7eb17cbd, 0xe7b82d07, 0x90bf1d91,
     0x1db71064, 0x6ab020f2, 0xf3b97148, 0x84be41de, 0x1adad47d, 0x6ddde4eb, 0xf4d4b551, 0x83d385c7,
     0x136c9856, 0x646ba8c0, 0xfd62f97a, 0x8a65c9ec, 0x14015c4f, 0x63066cd9, 0xfa0f3d63, 0x8d080df5,
     0x3b6e20c8, 0x4c69105e, 0xd56041e4, 0xa2677172, 0x3c03e4d1, 0x4b04d447, 0xd20d85fd, 0xa50ab56b,
     0x35b5a8fa, 0x42b2986c, 0xdbbbc9d6, 0xacbcf940, 0x32d86ce3, 0x45df5c75, 0xdcd60dcf, 0xabd13d59,
     0x26d930ac, 0x51de003a, 0xc8d75180, 0xbfd06116, 0x21b4f4b5, 0x56b3c423, 0xcfba9599, 0xb8bda50f,
     0x2802b89e, 0x5f058808, 0xc60cd9b2, 0xb10be924, 0x2f6f7c87, 0x58684c11, 0xc1611dab, 0xb6662d3d,
     0x76dc4190, 0x01db7106, 0x98d220bc, 0xefd5102a, 0x71b18589, 0x06b6b51f, 0x9fbfe4a5, 0xe8b8d433,
     0x7807c9a2, 0x0f00f934, 0x9609a88e, 0xe10e9818, 0x7f6a0dbb, 0x086d3d2d, 0x91646c97, 0xe6635c01,
     0x6b6b51f4, 0x1c6c6162, 0x856530d8, 0xf262004e, 0x6c0695ed, 0x1b01a57b, 0x8208f4c1, 0xf50fc457,
     0x65b0d9c6, 0x12b7e950, 0x8bbeb8ea, 0xfcb9887c, 0x62dd1ddf, 0x15da2d49, 0x8cd37cf3, 0xfbd44c65,
     0x4db26158, 0x3ab551ce, 0xa3bc0074, 0xd4bb30e2, 0x4adfa541, 0x3dd895d7, 0xa4d1c46d, 0xd3d6f4fb,
     0x4369e96a, 0x346ed9fc, 0xad678846, 0xda60b8d0, 0x44042d73, 0x33031de5, 0xaa0a4c5f, 0xdd0d7cc9,
     0x5005713c, 0x270241aa, 0xbe0b1010, 0xc90c2086, 0x5768b525, 0x206f85b3, 0xb966d409, 0xce61e49f,
     0x5edef90e, 0x29d9c998, 0xb0d09822, 0xc7d7a8b4, 0x59b33d17, 0x2eb40d81, 0xb7bd5c3b, 0xc0ba6cad,
     0xedb88320, 0x9abfb3b6, 0x03b6e20c, 0x74b1d29a, 0xead54739, 0x9dd277af, 0x04db2615, 0x73dc1683,
     0xe3630b12, 0x94643b84, 0x0d6d6a3e, 0x7a6a5aa8, 0xe40ecf0b, 0x9309ff9d, 0x0a00ae27, 0x7d079eb1,
     0xf00f9344, 0x8708a3d2, 0x1e01f268, 0x6906c2fe, 0xf762575d, 0x806567cb, 0x196c3671, 0x6e6b06e7,
     0xfed41b76, 0x89d32be0, 0x10da7a5a, 0x67dd4acc, 0xf9b9df6f, 0x8ebeeff9, 0x17b7be43, 0x60b08ed5,
     0xd6d6a3e8, 0xa1d1937e, 0x38d8c2c4, 0x4fdff252, 0xd1bb67f1, 0xa6bc5767, 0x3fb506dd, 0x48b2364b,
     0xd80d2bda, 0xaf0a1b4c, 0x36034af6, 0x41047a60, 0xdf60efc3, 0xa867df55, 0x316e8eef, 0x4669be79,
     0xcb61b38c, 0xbc66831a, 0x256fd2a0, 0x5268e236, 0xcc0c7795, 0xbb0b4703, 0x220216b9, 0x5505262f,
     0xc5ba3bbe, 0xb2bd0b28, 0x2bb45a92, 0x5cb36a04, 0xc2d7ffa7, 0xb5d0cf31, 0x2cd99e8b, 0x5bdeae1d,
     0x9b64c2b0, 0xec63f226, 0x756aa39c, 0x026d930a, 0x9c0906a9, 0xeb0e363f, 0x72076785, 0x05005713,
     0x95bf4a82, 0xe2b87a14, 0x7bb12bae, 0x0cb61b38, 0x92d28e9b, 0xe5d5be0d, 0x7cdcefb7, 0x0bdbdf21,
     0x86d3d2d4, 0xf1d4e242, 0x68ddb3f8, 0x1fda836e, 0x81be16cd, 0xf6b9265b, 0x6fb077e1, 0x18b74777,
     0x88085ae6, 0xff0f6a70, 0x66063bca, 0x11010b5c, 0x8f659eff, 0xf862ae69, 0x616bffd3, 0x166ccf45,
     0xa00ae278, 0xd70dd2ee, 0x4e048354, 0x3903b3c2, 0xa7672661, 0xd06016f7, 0x4969474d, 0x3e6e77db,
     0xaed16a4a, 0xd9d65adc, 0x40df0b66, 0x37d83bf0, 0xa9bcae53, 0xdebb9ec5, 0x47b2cf7f, 0x30b5ffe9,
     0xbdbdf21c, 0xcabac28a, 0x53b39330, 0x24b4a3a6, 0xbad03605, 0xcdd70693, 0x54de5729, 0x23d967bf,
     0xb3667a2e, 0xc4614ab8, 0x5d681b02, 0x2a6f2b94, 0xb40bbe37, 0xc30c8ea1, 0x5a05df1b, 0x2d02ef8d]"

definition crc32_step :: "u32 \<Rightarrow> u8 \<Rightarrow> u32" where
  "crc32_step crc b = crc32_tab ! unat ((crc XOR ucast b) AND 0xff) XOR drop_bit 8 crc"

definition crc32_re :: "u32 \<Rightarrow> bytes \<Rightarrow> u32" where
  "crc32_re crc buf = foldl crc32_step (NOT crc) buf XOR NOT 0"

section \<open>Division bit by bit\<close>

text \<open>
  One step of the shift register with the polynomial of the source in reflected order, the register after a byte, and the checksum of a message.
\<close>

definition crc_shift :: "u32 \<Rightarrow> u32" where
  "crc_shift c = drop_bit 1 c XOR (if bit c 0 then 0xEDB88320 else 0)"

definition crc_division :: "u32 \<Rightarrow> bytes \<Rightarrow> u32" where
  "crc_division crc buf = NOT (foldl (\<lambda>c b. (crc_shift ^^ 8) (c XOR ucast b)) (NOT crc) buf)"

lemma shift_xor: "crc_shift (x XOR y) = crc_shift x XOR crc_shift y"
  by (auto simp: crc_shift_def bit_xor_iff ac_simps simp del: bit_0)

lemma shifts_xor: "(crc_shift ^^ n) (x XOR y) = (crc_shift ^^ n) x XOR (crc_shift ^^ n) y"
  by (induction n) (simp_all add: shift_xor)

lemma shifts_high: "n \<le> k \<Longrightarrow> (crc_shift ^^ n) (push_bit k x) = drop_bit n (push_bit k x)"
proof (induction n)
  case (Suc n)
  have "\<not> bit (drop_bit n (push_bit k x)) 0"
    using Suc.prems by (simp add: bit_drop_bit_eq bit_push_bit_iff del: bit_0)
  then show ?case using Suc by (simp add: crc_shift_def del: bit_0)
qed simp

lemma push_bit_drop_bit_drop: "drop_bit n (push_bit n (drop_bit n x)) = drop_bit n (x :: u32)"
  by (rule bit_eqI) (auto simp: bit_simps dest: bit_imp_le_length)

lemma split_low: "x = (x AND mask 8) XOR push_bit 8 (drop_bit 8 (x :: u32))"
  by (rule bit_eqI) (auto simp: bit_simps)

text \<open>
  The table holds what eight shifts make of a byte. It is made of the eight entries at the powers of two: since shifting is linear, each
  half of the table is the half before it with one entry added.
\<close>

fun doubled :: "u32 list \<Rightarrow> u32 list" where
  "doubled [] = [0]"
| "doubled (x # xs) = doubled xs @ map (\<lambda>y. x XOR y) (doubled xs)"

definition crc_basis :: "u32 list" where
  "crc_basis = [0xedb88320, 0x76dc4190, 0x3b6e20c8, 0x1db71064, 0x0edb8832, 0x076dc419, 0xee0e612c, 0x77073096]"

lemma length_doubled: "length (doubled xs) = 2 ^ length xs"
  by (induction xs) simp_all

lemma split_free: "2 ^ k AND take_bit k (x :: u32) = 0"
  by (rule bit_eqI) (auto simp: bit_simps)

lemma doubled_shifts:
  "k \<le> 8 \<Longrightarrow> xs = map (\<lambda>i. (crc_shift ^^ 8) (2 ^ i)) (rev [0..<k]) \<Longrightarrow> i < 2 ^ k \<Longrightarrow> doubled xs ! i = (crc_shift ^^ 8) (of_nat i)"
proof (induction k arbitrary: xs i)
  case 0
  have "(crc_shift ^^ n) 0 = 0" for n by (induction n) (simp_all add: crc_shift_def)
  with 0 show ?case by simp
next
  case (Suc k)
  let ?ys = "map (\<lambda>i. (crc_shift ^^ 8) (2 ^ i)) (rev [0..<k])"
  have len: "length (doubled ?ys) = 2 ^ k" by (simp add: length_doubled)
  show ?case
  proof (cases "i < 2 ^ k")
    case True
    then show ?thesis using Suc len by (simp add: nth_append)
  next
    case False
    then have i: "i - 2 ^ k < 2 ^ k" "2 ^ k \<le> i" using Suc.prems(3) by auto
    have "2 ^ k AND (of_nat (i - 2 ^ k) :: u32) = 0"
      using split_free [of k "of_nat (i - 2 ^ k)"] i(1) by (simp add: take_bit_of_nat take_bit_nat_eq_self)
    then have "(of_nat i :: u32) = 2 ^ k XOR of_nat (i - 2 ^ k)"
      using i(2) disjunctive_add_eq_xor [of "2 ^ k" "of_nat (i - 2 ^ k) :: u32"] by simp
    then have "(crc_shift ^^ 8) (of_nat i) = (crc_shift ^^ 8) (2 ^ k) XOR (crc_shift ^^ 8) (of_nat (i - 2 ^ k))"
      by (simp only: shifts_xor)
    moreover have "doubled ?ys ! (i - 2 ^ k) = (crc_shift ^^ 8) (of_nat (i - 2 ^ k))"
      using Suc.IH [OF _ refl i(1)] Suc.prems(1) by simp
    ultimately show ?thesis using Suc.prems(2) i len by (simp only: nth_append) (simp add: nth_append del: of_nat_diff)
  qed
qed

lemma shifts_8: "(crc_shift ^^ 8) x = crc_shift (crc_shift (crc_shift (crc_shift (crc_shift (crc_shift (crc_shift (crc_shift x)))))))"
  by (simp add: eval_nat_numeral)

lemma crc_basis_shifts: "crc_basis = map (\<lambda>i. (crc_shift ^^ 8) (2 ^ i)) (rev [0..<8])"
  unfolding shifts_8 by (simp add: crc_basis_def crc_shift_def upt_rec)

lemma crc32_tab_doubled: "crc32_tab = doubled crc_basis"
  by (simp add: crc32_tab_def crc_basis_def)

lemma crc32_tab_nth: "i < 256 \<Longrightarrow> crc32_tab ! i = (crc_shift ^^ 8) (of_nat i)"
  using doubled_shifts [of 8 crc_basis i] by (simp add: crc32_tab_doubled crc_basis_shifts)

lemma crc32_step_shifts: "crc32_step c b = (crc_shift ^^ 8) (c XOR ucast b)"
proof -
  let ?x = "c XOR ucast b"
  have m: "(0xff :: u32) = mask 8" by (simp add: mask_eq_exp_minus_1)
  have "unat (?x AND mask 8) < 256"
    using take_bit_nat_less_exp [of 8 "unat ?x"] unsigned_take_bit_eq [of 8 ?x, where 'a = nat]
    by (simp only: take_bit_eq_mask [symmetric]) simp
  then have "crc32_tab ! unat (?x AND mask 8) = (crc_shift ^^ 8) (?x AND mask 8)" by (simp add: crc32_tab_nth)
  moreover have "drop_bit 8 ?x = drop_bit 8 c" by (rule bit_eqI) (auto simp: bit_simps dest: bit_u8D)
  ultimately have "crc32_step c b = (crc_shift ^^ 8) (?x AND mask 8) XOR (crc_shift ^^ 8) (push_bit 8 (drop_bit 8 ?x))"
    unfolding crc32_step_def m by (subst shifts_high) (simp_all add: push_bit_drop_bit_drop)
  also have "\<dots> = (crc_shift ^^ 8) ?x" unfolding shifts_xor [symmetric] using split_low [of ?x] by simp
  finally show ?thesis .
qed

section \<open>Properties\<close>

text \<open>
  (C20) The table-driven loop computes the remainder of the division by the polynomial, bit by bit, for every message and every initial value;
  a message may be processed in parts.
\<close>

theorem crc32_re_division:
  "crc32_re crc buf = crc_division crc buf \<and> crc32_re crc (buf @ buf') = crc32_re (crc32_re crc buf) buf'"
proof -
  have n: "x XOR NOT 0 = NOT x" for x :: u32 by (rule bit_eqI) (simp add: bit_simps)
  have "crc32_step = (\<lambda>c b. (crc_shift ^^ 8) (c XOR ucast b))" by (simp add: fun_eq_iff crc32_step_shifts)
  then show ?thesis by (simp add: crc32_re_def crc_division_def n)
qed

end
