(* ===== verification/StunMsg.thy ===== *)
theory StunMsg
  imports StunAttr Crc32
begin

text \<open>
  STUN messages of re, \<^verbatim>\<open>deps/re/src/stun/hdr.c\<close> and \<^verbatim>\<open>msg.c\<close>: encoding with message integrity and fingerprint, decoding and the two checks.
  A message that is encoded is decoded to what it was made of and passes the checks; decoding and checking
  whatever arrives stays inside the packet. \<open>hmac\<close> is HMAC-SHA1 with its result of 20 bytes.
\<close>

section \<open>Operations\<close>

definition STUN_HEADER_SIZE :: nat where "STUN_HEADER_SIZE = 20"
definition MI_SIZE :: nat where "MI_SIZE = 24"
definition FP_SIZE :: nat where "FP_SIZE = 8"
definition EPROTO :: int where "EPROTO = 71"

definition STUN_CLASS_REQUEST :: u16 where "STUN_CLASS_REQUEST = 0"
definition STUN_CLASS_INDICATION :: u16 where "STUN_CLASS_INDICATION = 1"
definition STUN_CLASS_SUCCESS_RESP :: u16 where "STUN_CLASS_SUCCESS_RESP = 2"
definition STUN_CLASS_ERROR_RESP :: u16 where "STUN_CLASS_ERROR_RESP = 3"
definition STUN_METHOD_BINDING :: u16 where "STUN_METHOD_BINDING = 1"

lemmas stun_sizes [rawr_defs] = STUN_HEADER_SIZE_def MI_SIZE_def FP_SIZE_def EPROTO_def STUN_CLASS_REQUEST_def STUN_CLASS_INDICATION_def
  STUN_CLASS_SUCCESS_RESP_def STUN_CLASS_ERROR_RESP_def STUN_METHOD_BINDING_def

definition STUN_TYPE :: "u16 \<Rightarrow> u16 \<Rightarrow> u16" where
  "STUN_TYPE method cls = push_bit 2 (method AND 0x0f80) OR push_bit 1 (method AND 0x0070) OR push_bit 0 (method AND 0x000f)
     OR push_bit 7 (cls AND 0x2) OR push_bit 4 (cls AND 0x1)"

definition STUN_CLASS :: "u16 \<Rightarrow> u16" where
  "STUN_CLASS type = (drop_bit 7 type OR drop_bit 4 type) AND 0x3"

definition STUN_METHOD :: "u16 \<Rightarrow> u16" where
  "STUN_METHOD type = drop_bit 2 (type AND 0x3e00) OR drop_bit 1 (type AND 0x00e0) OR (type AND 0x000f)"

record stun_hdr =
  sh_type :: u16
  sh_len :: u16
  sh_cookie :: u32
  sh_tid :: bytes

definition stun_hdr_encode :: "(nat \<Rightarrow> bool) \<Rightarrow> mbuf \<Rightarrow> stun_hdr \<Rightarrow> mbuf \<times> int" where
  "stun_hdr_encode mem mb hdr =
     writes mem (mb, 0) [le16 (htons (sh_type hdr AND 0x3fff)), le16 (htons (sh_len hdr)), le32 (htonl (sh_cookie hdr)), sh_tid hdr]"

definition stun_hdr_decode :: "mbuf \<Rightarrow> (mbuf \<times> (int + stun_hdr)) option" where
  "stun_hdr_decode mb =
     (if mbuf_get_left mb < STUN_HEADER_SIZE then Some (mb, Inl EBADMSG)
      else do {
        (mb, t) \<leftarrow> mbuf_read_u16 mb;
        if ntohs t AND 0xc000 \<noteq> 0 then Some (mb, Inl EBADMSG)
        else do {
          (mb, l) \<leftarrow> mbuf_read_u16 mb;
          if ntohs l AND 0x3 \<noteq> 0 then Some (mb, Inl EBADMSG)
          else do {
            (mb, c) \<leftarrow> mbuf_read_u32 mb;
            (mb, r) \<leftarrow> mbuf_read_mem mb STUN_TID_SIZE;
            (case r of
               Inl _ \<Rightarrow> None
             | Inr tid \<Rightarrow>
                 if mbuf_get_left mb < unat (ntohs l) then Some (mb, Inl EBADMSG)
                 else Some (mb, Inr \<lparr>sh_type = ntohs t, sh_len = ntohs l, sh_cookie = ntohl c, sh_tid = tid\<rparr>))
          }
        }
      })"

record stun_msg =
  msg_hdr :: stun_hdr
  msg_attrl :: "stun_attr list"
  msg_mb :: mbuf
  msg_start :: nat

definition fingerprint :: "bytes \<Rightarrow> u32" where
  "fingerprint buf = crc32_re 0 buf XOR 0x5354554e"

text \<open>
  The loop over the attributes. The difference \<^verbatim>\<open>mbuf_get_left(mb) - extra\<close> is unsigned: it is large when an attribute reaches behind the
  length in the header. \<open>memo i\<close> is the outcome of the allocation of the attribute with number \<open>i\<close>.
\<close>

partial_function (option) decode_attrs ::
  "(nat \<Rightarrow> bool) \<Rightarrow> (nat \<Rightarrow> bool) \<Rightarrow> bytes \<Rightarrow> nat \<Rightarrow> mbuf \<Rightarrow> stun_unknown_attr option \<Rightarrow> stun_attr list \<Rightarrow>
   (mbuf \<times> stun_unknown_attr option \<times> stun_attr list \<times> int) option" where
  "decode_attrs memo mem tid extra mb ua attrl =
     (if mbuf_get_left mb < extra \<or> mbuf_get_left mb - extra \<ge> 4 then do {
        (mb, ua, r) \<leftarrow> stun_attr_decode (memo (length attrl)) mem mb (Some tid) ua;
        (case r of
           Inl err \<Rightarrow> Some (mb, ua, attrl, err)
         | Inr attr \<Rightarrow> decode_attrs memo mem tid extra mb ua (attrl @ [attr]))
      } else Some (mb, ua, attrl, 0))"

definition stun_msg_decode ::
  "bool \<Rightarrow> (nat \<Rightarrow> bool) \<Rightarrow> (nat \<Rightarrow> bool) \<Rightarrow> mbuf \<Rightarrow> stun_unknown_attr option \<Rightarrow>
   (mbuf \<times> stun_unknown_attr option \<times> (int + stun_msg)) option" where
  "stun_msg_decode mem_msg memo mem mb ua =
     (let start = mb_pos mb in do {
        (mb, r) \<leftarrow> stun_hdr_decode mb;
        (case r of
           Inl err \<Rightarrow> Some (mb\<lparr>mb_pos := start\<rparr>, ua, Inl err)
         | Inr hdr \<Rightarrow>
             if \<not> mem_msg then Some (mb\<lparr>mb_pos := start\<rparr>, ua, Inl ENOMEM)
             else (let ua = map_option (\<lambda>u. u\<lparr>ua_typec := 0\<rparr>) ua;
                       extra = mbuf_get_left mb - unat (sh_len hdr) in do {
               (mb, ua, attrl, err) \<leftarrow> decode_attrs memo mem (sh_tid hdr) extra mb ua [];
               let mb = mb\<lparr>mb_pos := start\<rparr> in
               if err \<noteq> 0 then Some (mb, ua, Inl err)
               else Some (mb, ua, Inr \<lparr>msg_hdr = hdr, msg_attrl = attrl, msg_mb = mb, msg_start = start\<rparr>)
             }))
      })"

definition stun_msg_type :: "stun_msg \<Rightarrow> u16" where "stun_msg_type msg = sh_type (msg_hdr msg)"
definition stun_msg_class :: "stun_msg \<Rightarrow> u16" where "stun_msg_class msg = STUN_CLASS (sh_type (msg_hdr msg))"
definition stun_msg_method :: "stun_msg \<Rightarrow> u16" where "stun_msg_method msg = STUN_METHOD (sh_type (msg_hdr msg))"
definition stun_msg_tid :: "stun_msg \<Rightarrow> bytes" where "stun_msg_tid msg = sh_tid (msg_hdr msg)"
definition stun_msg_mcookie :: "stun_msg \<Rightarrow> bool" where "stun_msg_mcookie msg \<longleftrightarrow> STUN_MAGIC_COOKIE = sh_cookie (msg_hdr msg)"

definition stun_msg_attr :: "stun_msg \<Rightarrow> u16 \<Rightarrow> stun_attr option" where
  "stun_msg_attr msg type = List.find (\<lambda>attr. attr_type attr = type) (msg_attrl msg)"

text \<open>The first attribute a handler accepts.\<close>

definition stun_msg_attr_apply :: "stun_msg \<Rightarrow> (stun_attr \<Rightarrow> bool) \<Rightarrow> stun_attr option" where
  "stun_msg_attr_apply msg h = List.find h (msg_attrl msg)"

text \<open>The attributes a caller passes: a type and a value each, and an attribute without a value is left out.\<close>

fun encode_attrs ::
  "(nat \<Rightarrow> bool) \<Rightarrow> bytes \<Rightarrow> u8 \<Rightarrow> mbuf \<Rightarrow> int \<Rightarrow> (u16 \<times> stun_value option) list \<Rightarrow> (mbuf \<times> int) option" where
  "encode_attrs mem tid padding mb err [] = Some (mb, err)"
| "encode_attrs mem tid padding mb err ((type, None) # attrs) = encode_attrs mem tid padding mb err attrs"
| "encode_attrs mem tid padding mb err ((type, Some v) # attrs) = do {
     (mb, e) \<leftarrow> stun_attr_encode mem mb type v (Some tid) padding;
     encode_attrs mem tid padding mb (err OR e) attrs
   }"

text \<open>Message integrity: the digest of all that was written so far, under a header that counts the attribute to come.\<close>

definition encode_mi ::
  "(bytes \<Rightarrow> bytes \<Rightarrow> bytes) \<Rightarrow> (nat \<Rightarrow> bool) \<Rightarrow> nat \<Rightarrow> u8 \<Rightarrow> bytes \<Rightarrow> stun_hdr \<Rightarrow> mbuf \<Rightarrow> int \<Rightarrow> (mbuf \<times> int) option" where
  "encode_mi hmac mem start padding key hdr mb err =
     (let mb = mb\<lparr>mb_pos := start\<rparr> in do {
        data \<leftarrow> mem_read (mb_buf mb) (mb_pos mb) (mbuf_get_left mb);
        guard (MI_SIZE \<le> mb_pos mb + STUN_HEADER_SIZE + unat (sh_len hdr));
        (mb, e) \<leftarrow> stun_attr_encode mem (mb\<lparr>mb_pos := mb_pos mb + STUN_HEADER_SIZE + unat (sh_len hdr) - MI_SIZE\<rparr>)
           STUN_ATTR_MSG_INTEGRITY (VIntegrity (hmac key data)) None padding;
        Some (mb, err OR e)
      })"

definition encode_fp :: "(nat \<Rightarrow> bool) \<Rightarrow> nat \<Rightarrow> u8 \<Rightarrow> stun_hdr \<Rightarrow> mbuf \<Rightarrow> int \<Rightarrow> (mbuf \<times> int) option" where
  "encode_fp mem start padding hdr mb err =
     (let hdr = hdr\<lparr>sh_len := of_nat (mb_pos mb - start - STUN_HEADER_SIZE + FP_SIZE)\<rparr> in
      case stun_hdr_encode mem (mb\<lparr>mb_pos := start\<rparr>) hdr of (mb, e) \<Rightarrow>
      (let err = err OR e; mb = mb\<lparr>mb_pos := start\<rparr> in do {
        data \<leftarrow> mem_read (mb_buf mb) (mb_pos mb) (mbuf_get_left mb);
        guard (FP_SIZE \<le> mb_pos mb + STUN_HEADER_SIZE + unat (sh_len hdr));
        (mb, e) \<leftarrow> stun_attr_encode mem (mb\<lparr>mb_pos := mb_pos mb + STUN_HEADER_SIZE + unat (sh_len hdr) - FP_SIZE\<rparr>)
           STUN_ATTR_FINGERPRINT (V32 (fingerprint data)) None padding;
        Some (mb, err OR e)
      }))"

definition stun_msg_vencode ::
  "(bytes \<Rightarrow> bytes \<Rightarrow> bytes) \<Rightarrow> (nat \<Rightarrow> bool) \<Rightarrow> mbuf \<Rightarrow> u16 \<Rightarrow> u16 \<Rightarrow> bytes \<Rightarrow> (u16 \<times> bytes option) option \<Rightarrow> bytes option \<Rightarrow> bool \<Rightarrow> u8 \<Rightarrow>
   (u16 \<times> stun_value option) list \<Rightarrow> (mbuf \<times> int) option" where
  "stun_msg_vencode hmac mem mb method cls tid ec key fp padding attrs =
     (let start = mb_pos mb;
          mi = (case key of None \<Rightarrow> 0 | Some _ \<Rightarrow> MI_SIZE) in do {
        tid \<leftarrow> mem_read tid 0 STUN_TID_SIZE;
        (mb, err) \<leftarrow> (case ec of
           None \<Rightarrow> Some (mb\<lparr>mb_pos := mb_pos mb + STUN_HEADER_SIZE\<rparr>, 0)
         | Some (code, reason) \<Rightarrow>
             stun_attr_encode mem (mb\<lparr>mb_pos := mb_pos mb + STUN_HEADER_SIZE\<rparr>) STUN_ATTR_ERR_CODE (VErrCode code reason) None padding);
        (mb, err) \<leftarrow> encode_attrs mem tid padding mb err attrs;
        let hdr = \<lparr>sh_type = STUN_TYPE method cls, sh_len = of_nat (mb_pos mb - start - STUN_HEADER_SIZE + mi),
                   sh_cookie = STUN_MAGIC_COOKIE, sh_tid = tid\<rparr> in
        case stun_hdr_encode mem (mb\<lparr>mb_pos := start\<rparr>) hdr of (mb, e) \<Rightarrow> do {
          let err = err OR e;
          guard (mi \<le> mb_pos mb + unat (sh_len hdr));
          let mb = mb\<lparr>mb_pos := mb_pos mb + unat (sh_len hdr) - mi\<rparr>;
          (mb, err) \<leftarrow> (case key of None \<Rightarrow> Some (mb, err) | Some k \<Rightarrow> encode_mi hmac mem start padding k hdr mb err);
          if fp then encode_fp mem start padding hdr mb err else Some (mb, err)
        }
      })"

text \<open>
  The checks. The header of a message with a fingerprint is rewritten for the time of the digest. The number of bytes that
  are read is an \<^verbatim>\<open>int\<close>; below zero it would be a huge number.
\<close>

definition check_read :: "stun_msg \<Rightarrow> int \<Rightarrow> bytes option" where
  "check_read msg n = (if n < 0 then None else mem_read (mb_buf (msg_mb msg)) (mb_pos (msg_mb msg)) (nat n))"

definition set_len :: "(nat \<Rightarrow> bool) \<Rightarrow> u16 \<Rightarrow> stun_msg \<Rightarrow> stun_msg" where
  "set_len mem len msg =
     (let hdr = (msg_hdr msg)\<lparr>sh_len := len\<rparr>; mb = fst (stun_hdr_encode mem (msg_mb msg) hdr)
      in msg\<lparr>msg_hdr := hdr, msg_mb := mb\<lparr>mb_pos := mb_pos mb - STUN_HEADER_SIZE\<rparr>\<rparr>)"

definition stun_msg_chk_mi ::
  "(bytes \<Rightarrow> bytes \<Rightarrow> bytes) \<Rightarrow> (nat \<Rightarrow> bool) \<Rightarrow> stun_msg \<Rightarrow> bytes \<Rightarrow> (stun_msg \<times> int) option" where
  "stun_msg_chk_mi hmac mem msg key =
     (case stun_msg_attr msg STUN_ATTR_MSG_INTEGRITY of
        None \<Rightarrow> Some (msg, EPROTO)
      | Some mi \<Rightarrow>
          (let msg = msg\<lparr>msg_mb := (msg_mb msg)\<lparr>mb_pos := msg_start msg\<rparr>\<rparr>;
               fp = stun_msg_attr msg STUN_ATTR_FINGERPRINT \<noteq> None;
               msg = (if fp then set_len mem (sh_len (msg_hdr msg) - of_nat FP_SIZE) msg else msg) in do {
             data \<leftarrow> check_read msg (int STUN_HEADER_SIZE + uint (sh_len (msg_hdr msg)) - int MI_SIZE);
             let msg = (if fp then set_len mem (sh_len (msg_hdr msg) + of_nat FP_SIZE) msg else msg) in
             (case attr_v mi of
                VIntegrity v \<Rightarrow> Some (msg, if v \<noteq> hmac key data then EBADMSG else 0)
              | _ \<Rightarrow> None)
           }))"

definition stun_msg_chk_fingerprint :: "stun_msg \<Rightarrow> (stun_msg \<times> int) option" where
  "stun_msg_chk_fingerprint msg =
     (case stun_msg_attr msg STUN_ATTR_FINGERPRINT of
        None \<Rightarrow> Some (msg, EPROTO)
      | Some fp \<Rightarrow>
          (let msg = msg\<lparr>msg_mb := (msg_mb msg)\<lparr>mb_pos := msg_start msg\<rparr>\<rparr> in do {
             data \<leftarrow> check_read msg (int STUN_HEADER_SIZE + uint (sh_len (msg_hdr msg)) - int FP_SIZE);
             (case attr_v fp of
                V32 v \<Rightarrow> Some (msg, if fingerprint data \<noteq> v then EBADMSG else 0)
              | _ \<Rightarrow> None)
           }))"

section \<open>Message types\<close>

lemma type_masks: "(0x0f80 :: u16) = push_bit 7 (mask 5)" "(0x0070 :: u16) = push_bit 4 (mask 3)" "(0x000f :: u16) = mask 4"
  "(0x2 :: u16) = push_bit 1 (mask 1)" "(0x1 :: u16) = mask 1" "(0x3 :: u16) = mask 2" "(0x3e00 :: u16) = push_bit 9 (mask 5)"
  "(0x00e0 :: u16) = push_bit 5 (mask 3)" "(0x3fff :: u16) = mask 14" "(0xc000 :: u16) = push_bit 14 (mask 2)" "(0xfff :: u16) = mask 12"
  by (simp_all add: mask_eq_exp_minus_1 push_bit_eq_mult)

lemma bits_type:
  "bit (STUN_TYPE m c) 0 = bit m 0"
  "bit (STUN_TYPE m c) 1 = bit m 1"
  "bit (STUN_TYPE m c) 2 = bit m 2"
  "bit (STUN_TYPE m c) 3 = bit m 3"
  "bit (STUN_TYPE m c) 4 = bit c 0"
  "bit (STUN_TYPE m c) 5 = bit m 4"
  "bit (STUN_TYPE m c) 6 = bit m 5"
  "bit (STUN_TYPE m c) 7 = bit m 6"
  "bit (STUN_TYPE m c) 8 = bit c 1"
  "bit (STUN_TYPE m c) 9 = bit m 7"
  "bit (STUN_TYPE m c) 10 = bit m 8"
  "bit (STUN_TYPE m c) 11 = bit m 9"
  "bit (STUN_TYPE m c) 12 = bit m 10"
  "bit (STUN_TYPE m c) 13 = bit m 11"
  "bit (STUN_TYPE m c) 14 = False"
  "bit (STUN_TYPE m c) 15 = False"
  unfolding STUN_TYPE_def type_masks by (simp_all add: bit_simps mult.commute [of m 2] bit_double_iff del: bit_0)

lemma u16_eqI:
  assumes "list_all (\<lambda>n. bit x n = bit y n \<and> bit x (n + 8) = bit y (n + 8)) [0, 1, 2, 3, 4, 5, 6, 7]" (is "list_all _ ?ns")
  shows "x = (y :: u16)"
proof (rule bit_word_eqI)
  fix n assume n: "n < LENGTH(16)"
  have "k \<in> set ?ns" if "k < 8" for k :: nat using that by (simp, presburger)
  then have "\<forall>k<8. bit x k = bit y k \<and> bit x (k + 8) = bit y (k + 8)" using assms by (metis (mono_tags, lifting) list.pred_set)
  then show "bit x n = bit y n" using n by (cases "n < 8") (auto dest: spec [of _ "n - 8"])
qed

lemma method_type: "STUN_METHOD (STUN_TYPE m c) = m AND 0xfff"
  unfolding STUN_METHOD_def type_masks
  by (rule u16_eqI) (simp add: bit_simps bits_type bits_type(2) [unfolded One_nat_def] del: bit_0)

lemma class_type: "STUN_CLASS (STUN_TYPE m c) = (c AND 3) OR of_bool (bit m 6) OR push_bit 1 (of_bool (bit m 4))"
  unfolding STUN_CLASS_def type_masks
  by (rule u16_eqI) (auto simp: bit_simps bits_type bits_type(2) [unfolded One_nat_def] simp del: bit_0)

lemma type_range: "STUN_TYPE m c AND 0x3fff = STUN_TYPE m c" "STUN_TYPE m c AND 0xc000 = 0"
  unfolding type_masks
  by (rule u16_eqI, simp add: bit_simps bits_type bits_type(2) [unfolded One_nat_def] del: bit_0)+

lemma u16_below:
  assumes "x < (2 ^ k :: u16)" and "k < 16" and b: "bit x n"
  shows "n < k"
proof -
  have "unat x < 2 ^ k" using assms(1,2) by (simp add: word_less_nat_alt unat_pow2)
  then have "take_bit k (unat x) = unat x" by (rule take_bit_nat_eq_self)
  then have "take_bit k x = x" by (simp add: word_unat_eq_iff unsigned_take_bit_eq)
  then show ?thesis using b by (metis bit_take_bit_iff)
qed

lemma small_method:
  assumes "m < (16 :: u16)"
  shows "m AND 0xfff = m" "\<not> bit m 4" "\<not> bit m 6"
proof -
  have b: "bit m n \<Longrightarrow> n < 4" for n using u16_below [of m 4 n] assms by simp
  then show "\<not> bit m 4" "\<not> bit m 6" by fastforce+
  show "m AND 0xfff = m" unfolding type_masks
    by (rule bit_word_eqI) (use b in \<open>force simp: bit_simps\<close>)
qed

lemma small_class: "c < (4 :: u16) \<Longrightarrow> c AND 3 = c"
  unfolding type_masks by (rule bit_word_eqI) (use u16_below [of c 2] in \<open>auto simp: bit_simps\<close>)

section \<open>Headers\<close>

definition hdr_bytes :: "u16 \<Rightarrow> nat \<Rightarrow> bytes \<Rightarrow> bytes" where
  "hdr_bytes type n tid = be16 type @ be16 (of_nat n) @ be32 STUN_MAGIC_COOKIE @ tid"

lemma length_hdr_bytes' [simp]: "length tid = 12 \<Longrightarrow> length (hdr_bytes type n tid) = 20"
  by (simp add: hdr_bytes_def)

lemma hdr_encode_wrote:
  assumes "\<forall>n. mem n" and "type AND 0x3fff = type"
  obtains mb' where "stun_hdr_encode mem mb \<lparr>sh_type = type, sh_len = of_nat n, sh_cookie = STUN_MAGIC_COOKIE, sh_tid = tid\<rparr> = (mb', 0)"
    "mb_wrote mb (hdr_bytes type n tid) mb'"
  using writes_wrote [OF assms(1), of mb 0 "[le16 (htons type), le16 (htons (of_nat n)), le32 (htonl STUN_MAGIC_COOKIE), tid]"] assms(2)
  by (auto simp: stun_hdr_encode_def hdr_bytes_def le_bswap)

lemma hdr_decode_bytes:
  assumes "mbuf_in mb" and rest: "mbuf_rest mb = hdr_bytes type n tid @ tail" and "length tid = 12" and "type AND 0xc000 = 0"
    and "n < 65536" and "4 dvd n" and "n \<le> length tail"
  shows "stun_hdr_decode mb = Some (advance 20 mb, Inr \<lparr>sh_type = type, sh_len = of_nat n, sh_cookie = STUN_MAGIC_COOKIE, sh_tid = tid\<rparr>)"
proof -
  have left: "mbuf_get_left mb = 20 + length tail" using length_rest_in [OF assms(1)] rest assms(3) by simp
  have "take_bit 2 (of_nat n :: u16) = of_nat (take_bit 2 n)" by (rule take_bit_of_nat)
  also have "take_bit 2 n = 0" using assms(6) by (simp add: take_bit_eq_mod)
  finally have "take_bit 2 (of_nat n :: u16) = 0" by (simp del: take_bit_of_nat)
  then have l: "(of_nat n :: u16) AND 3 = 0" by (simp add: take_bit_eq_mask mask_eq_exp_minus_1)
  have u: "unat (of_nat n :: u16) = n" using assms(5) by (simp add: unat_of_nat take_bit_nat_eq_self)
  have r: "mbuf_rest mb = be16 type @ be16 (of_nat n) @ be32 STUN_MAGIC_COOKIE @ tid @ tail" using rest by (simp add: hdr_bytes_def)
  show ?thesis
    unfolding stun_hdr_decode_def STUN_HEADER_SIZE_def STUN_TID_SIZE_def
    using assms(1,3,4,7) left l u r by (simp add: reads_in)
qed

text \<open>A header that is written again over the old one.\<close>

lemma wrote_rehead:
  assumes "mb_wrote mb (H @ V) mb1" and "mb_wrote (mb1\<lparr>mb_pos := mb_pos mb\<rparr>) H' mb2" and "length H' = length H" and "H \<noteq> []"
  shows "mb_wrote mb (H' @ V) (mb2\<lparr>mb_pos := mb_pos mb2 + length V\<rparr>)"
proof -
  note 1 = mb_wroteD [OF assms(1)] and 2 = mb_wroteD [OF assms(2), simplified]
  have "holds mb1 (mb_pos mb + length H') V" using 1(2) assms(3) by (simp add: holds_append)
  from mb_keepsD [OF 2(3) this] have "holds mb2 (mb_pos mb + length H') V" using 2(1) by simp
  then have h: "holds mb2 (mb_pos mb) (H' @ V)" using 2(2) by (simp add: holds_append)
  have k: "mb_keeps (mb_pos mb) (mb_pos mb2 + length V) mb mb2"
    unfolding mb_keeps_def
  proof (intro allI impI)
    fix off cs assume a: "(off + length cs \<le> mb_pos mb \<or> mb_pos mb2 + length V \<le> off) \<and> holds mb off cs"
    then have "holds mb1 off cs" using mb_keepsD [OF 1(3), of off cs] 1(1) 2(1) assms(3) by auto
    then show "holds mb2 off cs" using mb_keepsD [OF 2(3)] a 2(1) by auto
  qed
  have "ends (H' @ V) mb (mb2\<lparr>mb_pos := mb_pos mb2 + length V\<rparr>)"
    using 1(1,4) 2(1,4) assms(3,4) by (auto simp: ends_def)
  then show ?thesis using h k 2(1) by (simp add: mb_wrote_def)
qed

text \<open>What was written from the start of a fresh part of the buffer is what a reader finds there.\<close>

lemma wrote_read:
  assumes "mb_wrote mb bs mb'" and "bs \<noteq> []" and "mb_end mb \<le> mb_pos mb"
  shows "mb_end mb' = mb_pos mb + length bs" "mbuf_get_left (mb'\<lparr>mb_pos := mb_pos mb\<rparr>) = length bs"
    "mem_read (mb_buf mb') (mb_pos mb) (length bs) = Some bs" "mbuf_rest (mb'\<lparr>mb_pos := mb_pos mb\<rparr>) = bs"
proof -
  note 1 = mb_wroteD [OF assms(1)]
  show e: "mb_end mb' = mb_pos mb + length bs" using 1(1,4) assms(2,3) by (auto simp: ends_def)
  then show l: "mbuf_get_left (mb'\<lparr>mb_pos := mb_pos mb\<rparr>) = length bs" by (simp add: mbuf_get_left_def)
  show "mem_read (mb_buf mb') (mb_pos mb) (length bs) = Some bs" using 1(2) assms(2) by (simp add: holds_def mem_read_def)
  then show "mbuf_rest (mb'\<lparr>mb_pos := mb_pos mb\<rparr>) = bs" using l by (simp add: mbuf_rest_def mem_read_def split: if_splits)
qed

section \<open>Attributes of a message\<close>

definition msg_attrs :: "(u16 \<times> bytes option) option \<Rightarrow> (u16 \<times> stun_value option) list \<Rightarrow> (u16 \<times> stun_value) list" where
  "msg_attrs ec attrs =
     (case ec of None \<Rightarrow> [] | Some (code, reason) \<Rightarrow> [(STUN_ATTR_ERR_CODE, VErrCode code reason)])
     @ map (\<lambda>(type, v). (type, the v)) (filter (\<lambda>(type, v). v \<noteq> None) attrs)"

definition attrs_bytes :: "bytes \<Rightarrow> u8 \<Rightarrow> (u16 \<times> stun_value) list \<Rightarrow> bytes" where
  "attrs_bytes tid padding A = concat (map (\<lambda>(type, v). attr_bytes (Some tid) padding type v) A)"

lemma encode_attrs_wrote:
  assumes "\<forall>n. mem n" and "list_all (\<lambda>(type, v). value_ok type v) (map (\<lambda>(type, v). (type, the v)) (filter (\<lambda>(type, v). v \<noteq> None) attrs))"
  obtains mb' where "encode_attrs mem tid padding mb 0 attrs = Some (mb', 0)"
    "mb_wrote mb (attrs_bytes tid padding (map (\<lambda>(type, v). (type, the v)) (filter (\<lambda>(type, v). v \<noteq> None) attrs))) mb'"
  using assms(2)
proof (induction attrs arbitrary: mb thesis)
  case Nil
  then show ?case using wrote_Nil by (simp add: attrs_bytes_def)
next
  case (Cons a attrs)
  obtain type v where a: "a = (type, v)" by (cases a)
  show ?case
  proof (cases v)
    case None
    then show ?thesis using Cons a by auto
  next
    case (Some w)
    then have "value_ok type w" using Cons.prems(2) a by simp
    from attr_encode_wrote [OF assms(1) this] obtain mb1
      where 1: "stun_attr_encode mem mb type w (Some tid) padding = Some (mb1, 0)" "mb_wrote mb (attr_bytes (Some tid) padding type w) mb1" by metis
    obtain mb2 where 2: "encode_attrs mem tid padding mb1 0 attrs = Some (mb2, 0)"
      "mb_wrote mb1 (attrs_bytes tid padding (map (\<lambda>(type, v). (type, the v)) (filter (\<lambda>(type, v). v \<noteq> None) attrs))) mb2"
      using Cons.IH [of mb1] Cons.prems(2) a Some by auto
    show ?thesis
      by (rule Cons.prems(1) [of mb2]) (use 1 2 a Some wrote_trans [OF 1(2) 2(2)] in \<open>simp_all add: attrs_bytes_def\<close>)
  qed
qed

lemma padded: "4 dvd n + padding_of n"
proof -
  have "n mod 4 < 4" by simp
  then consider "n mod 4 = 0" | "n mod 4 = 1" | "n mod 4 = 2" | "n mod 4 = 3" by linarith
  then show ?thesis by cases (simp add: padding_of_def, presburger?)+
qed

lemma length_attr_bytes: "4 dvd length (attr_bytes tid padding type v)" "4 \<le> length (attr_bytes tid padding type v)"
proof -
  let ?n = "length (concat (value_chunks tid type v))"
  have "length (attr_bytes tid padding type v) = 4 + (?n + padding_of ?n)" by (simp add: attr_bytes_def Let_def)
  then show "4 dvd length (attr_bytes tid padding type v)" "4 \<le> length (attr_bytes tid padding type v)"
    using dvd_add [OF dvd_refl padded [of ?n]] by (simp_all only:)
qed

lemma attrs_bytes_dvd: "4 dvd length (attrs_bytes tid padding A)"
  by (induction A) (auto simp: attrs_bytes_def length_attr_bytes)

text \<open>What is decoded for the attributes \<open>A\<close>.\<close>

definition decoded :: "(u16 \<times> stun_value) list \<Rightarrow> stun_attr list \<Rightarrow> bool" where
  "decoded A attrl \<longleftrightarrow> list_all2 (\<lambda>(type, v) attr. attr_type attr = type \<and> same_value v (attr_v attr)) A attrl"

lemma decode_attrs_bytes:
  assumes mem: "\<forall>n. mem n" "\<forall>n. memo n" and tid: "length tid = 12"
    and "mbuf_in mb" and "mbuf_rest mb = attrs_bytes tid padding A"
    and "list_all (\<lambda>(type, v). value_ok type v \<and> length (concat (value_chunks (Some tid) type v)) < 65536) A"
  shows "\<exists>ws. decode_attrs memo mem tid 0 mb ua attrl = Some (advance (length (attrs_bytes tid padding A)) mb, ua, attrl @ ws, 0)
    \<and> decoded A ws"
  using assms(4-)
proof (induction A arbitrary: mb attrl)
  case Nil
  then have "mbuf_get_left mb = 0" using length_rest_in [of mb] by (simp add: attrs_bytes_def)
  then have "decode_attrs memo mem tid 0 mb ua attrl = Some (advance 0 mb, ua, attrl @ [], 0)"
    by (subst decode_attrs.simps) (simp add: advance_def)
  then show ?case by (simp add: attrs_bytes_def decoded_def)
next
  case (Cons a A)
  obtain type v where a: "a = (type, v)" by (cases a)
  let ?a = "attr_bytes (Some tid) padding type v" and ?r = "attrs_bytes tid padding A"
  have r: "mbuf_rest mb = ?a @ ?r" using Cons.prems(2) a by (simp add: attrs_bytes_def)
  have left: "mbuf_get_left mb = length ?a + length ?r" using length_rest_in [OF Cons.prems(1)] r by simp
  obtain w where w: "stun_attr_decode True mem mb (Some tid) ua = Some (advance (length ?a) mb, ua, Inr \<lparr>attr_type = type, attr_v = w\<rparr>)"
    "same_value v w"
    by (rule attr_decode_bytes [of type v mb "Some tid" padding ?r mem ua]) (use Cons.prems a r mem tid in auto)
  obtain ws where ws: "decode_attrs memo mem tid 0 (advance (length ?a) mb) ua (attrl @ [\<lparr>attr_type = type, attr_v = w\<rparr>]) =
      Some (advance (length ?r) (advance (length ?a) mb), ua, (attrl @ [\<lparr>attr_type = type, attr_v = w\<rparr>]) @ ws, 0)" "decoded A ws"
    using Cons.IH [of "advance (length ?a) mb" "attrl @ [\<lparr>attr_type = type, attr_v = w\<rparr>]"] Cons.prems(1,3) r left by auto
  have "decode_attrs memo mem tid 0 mb ua attrl =
      Some (advance (length ?a + length ?r) mb, ua, attrl @ \<lparr>attr_type = type, attr_v = w\<rparr> # ws, 0)"
    by (subst decode_attrs.simps) (use w(1) ws(1) mem(2) left length_attr_bytes(2) [of "Some tid" padding type v] in simp)
  then show ?case
    using w(2) ws(2) a by (intro exI [of _ "\<lparr>attr_type = type, attr_v = w\<rparr> # ws"]) (simp add: attrs_bytes_def decoded_def)
qed

section \<open>Encoded messages\<close>

text \<open>The bytes of a message with the attributes \<open>A\<close>.\<close>

definition mi_attr :: "(bytes \<Rightarrow> bytes \<Rightarrow> bytes) \<Rightarrow> u16 \<Rightarrow> bytes \<Rightarrow> bytes option \<Rightarrow> bytes \<Rightarrow> (u16 \<times> stun_value) list" where
  "mi_attr hmac type tid key B =
     (case key of None \<Rightarrow> [] | Some k \<Rightarrow> [(STUN_ATTR_MSG_INTEGRITY, VIntegrity (hmac k (hdr_bytes type (length B + MI_SIZE) tid @ B)))])"

definition fp_attr :: "u16 \<Rightarrow> bytes \<Rightarrow> bool \<Rightarrow> bytes \<Rightarrow> (u16 \<times> stun_value) list" where
  "fp_attr type tid fp B = (if fp then [(STUN_ATTR_FINGERPRINT, V32 (fingerprint (hdr_bytes type (length B + FP_SIZE) tid @ B)))] else [])"

definition sent_attrs ::
  "(bytes \<Rightarrow> bytes \<Rightarrow> bytes) \<Rightarrow> u16 \<Rightarrow> bytes \<Rightarrow> bytes option \<Rightarrow> bool \<Rightarrow> u8 \<Rightarrow> (u16 \<times> stun_value) list \<Rightarrow> (u16 \<times> stun_value) list" where
  "sent_attrs hmac type tid key fp padding A =
     (let A = A @ mi_attr hmac type tid key (attrs_bytes tid padding A)
      in A @ fp_attr type tid fp (attrs_bytes tid padding A))"

lemma attrs_bytes_append: "attrs_bytes tid padding (A @ A') = attrs_bytes tid padding A @ attrs_bytes tid padding A'"
  by (simp add: attrs_bytes_def)

lemma attr_bytes_tid: "\<not> (\<exists>s. v = VSa s) \<Longrightarrow> attr_bytes t padding type v = attr_bytes t' padding type v"
  by (cases v) (simp_all add: attr_bytes_def value_chunks_def)

lemma special_ok:
  "length mi = 20 \<Longrightarrow> value_ok STUN_ATTR_MSG_INTEGRITY (VIntegrity mi)" "value_ok STUN_ATTR_FINGERPRINT (V32 n)"
  by (simp_all add: value_ok_def attr_case_of_def stun_attr_types)

lemma special_length:
  "length mi = 20 \<Longrightarrow> length (attr_bytes t padding STUN_ATTR_MSG_INTEGRITY (VIntegrity mi)) = MI_SIZE"
  "length (attr_bytes t padding STUN_ATTR_FINGERPRINT (V32 n)) = FP_SIZE"
  by (simp_all add: attr_bytes_def value_chunks_def MI_SIZE_def FP_SIZE_def padding_of_def)

lemma mi_wrote:
  assumes "\<forall>n. mem n" and "\<forall>k d. length (hmac k d) = 20" and "mb_wrote mb0 (hdr_bytes type (length B + MI_SIZE) tid @ B) mb"
    and "mb_end mb0 \<le> mb_pos mb0" and "length tid = 12" and "length B + MI_SIZE < 65536"
    and "hdr = \<lparr>sh_type = type, sh_len = of_nat (length B + MI_SIZE), sh_cookie = STUN_MAGIC_COOKIE, sh_tid = tid\<rparr>"
  obtains mb' where "encode_mi hmac mem (mb_pos mb0) padding key hdr mb 0 = Some (mb', 0)"
    "mb_wrote mb (attrs_bytes tid padding (mi_attr hmac type tid (Some key) B)) mb'"
proof -
  let ?H = "hdr_bytes type (length B + MI_SIZE) tid @ B"
  have H: "length ?H = 20 + length B" "?H \<noteq> []" using assms(5) by (simp_all add: hdr_bytes_def be16_nonempty)
  note r = wrote_read [OF assms(3) H(2) assms(4)]
  have u: "unat (sh_len hdr) = length B + MI_SIZE" using assms(6,7) by (simp add: unat_of_nat take_bit_nat_eq_self del: of_nat_add)
  have p: "mb_pos mb = mb_pos mb0 + 20 + length B" using mb_wroteD(1) [OF assms(3)] H(1) by simp
  have e: "mb\<lparr>mb_pos := mb_pos mb0 + STUN_HEADER_SIZE + unat (sh_len hdr) - MI_SIZE\<rparr> = mb"
    using p u by (simp add: STUN_HEADER_SIZE_def)
  obtain mb' where 1: "stun_attr_encode mem mb STUN_ATTR_MSG_INTEGRITY (VIntegrity (hmac key ?H)) None padding = Some (mb', 0)"
    "mb_wrote mb (attr_bytes None padding STUN_ATTR_MSG_INTEGRITY (VIntegrity (hmac key ?H))) mb'"
    by (rule attr_encode_wrote [OF assms(1) special_ok(1) [OF assms(2) [rule_format]]])
  have g: "MI_SIZE \<le> mb_pos mb0 + STUN_HEADER_SIZE + unat (sh_len hdr)" using u by simp
  show ?thesis
  proof (rule that [of mb'])
    show "encode_mi hmac mem (mb_pos mb0) padding key hdr mb 0 = Some (mb', 0)"
      using r(2,3) e g 1(1) by (simp add: encode_mi_def Let_def)
    show "mb_wrote mb (attrs_bytes tid padding (mi_attr hmac type tid (Some key) B)) mb'"
      using 1(2) attr_bytes_tid [of "VIntegrity (hmac key ?H)" None padding STUN_ATTR_MSG_INTEGRITY "Some tid"]
      by (simp add: attrs_bytes_def mi_attr_def)
  qed
qed

lemma fp_wrote:
  assumes "\<forall>n. mem n" and "type AND 0x3fff = type" and "mb_wrote mb0 (hdr_bytes type n tid @ B) mb"
    and "mb_end mb0 \<le> mb_pos mb0" and "length tid = 12" and "length B + FP_SIZE < 65536"
    and "hdr = \<lparr>sh_type = type, sh_len = l, sh_cookie = STUN_MAGIC_COOKIE, sh_tid = tid\<rparr>"
  obtains mb' where "encode_fp mem (mb_pos mb0) padding hdr mb 0 = Some (mb', 0)"
    "mb_wrote mb0 (hdr_bytes type (length B + FP_SIZE) tid @ B @ attrs_bytes tid padding (fp_attr type tid True B)) mb'"
proof -
  let ?H = "hdr_bytes type (length B + FP_SIZE) tid"
  have p: "mb_pos mb - mb_pos mb0 - STUN_HEADER_SIZE + FP_SIZE = length B + FP_SIZE"
    using mb_wroteD(1) [OF assms(3)] assms(5) by (simp add: STUN_HEADER_SIZE_def)
  let ?hdr = "\<lparr>sh_type = type, sh_len = of_nat (length B + FP_SIZE), sh_cookie = STUN_MAGIC_COOKIE, sh_tid = tid\<rparr>"
  obtain mb1 where 1: "stun_hdr_encode mem (mb\<lparr>mb_pos := mb_pos mb0\<rparr>) ?hdr = (mb1, 0)" "mb_wrote (mb\<lparr>mb_pos := mb_pos mb0\<rparr>) ?H mb1"
    by (rule hdr_encode_wrote [OF assms(1,2)])
  let ?mb = "mb1\<lparr>mb_pos := mb_pos mb1 + length B\<rparr>"
  have w: "mb_wrote mb0 (?H @ B) ?mb"
    by (rule wrote_rehead [OF assms(3) 1(2)]) (use assms(5) in \<open>simp_all add: hdr_bytes_def be16_nonempty\<close>)
  have ne: "?H @ B \<noteq> []" by (simp add: hdr_bytes_def be16_nonempty)
  note r = wrote_read [OF w ne assms(4)]
  have q: "mb_pos mb1 = mb_pos mb0 + 20" using mb_wroteD(1) [OF 1(2)] assms(5) by simp
  have u: "unat (of_nat (length B + FP_SIZE) :: u16) = length B + FP_SIZE"
    using assms(6) by (simp add: unat_of_nat take_bit_nat_eq_self del: of_nat_add)
  obtain mb2 where 2: "stun_attr_encode mem ?mb STUN_ATTR_FINGERPRINT (V32 (fingerprint (?H @ B))) None padding = Some (mb2, 0)"
    "mb_wrote ?mb (attr_bytes None padding STUN_ATTR_FINGERPRINT (V32 (fingerprint (?H @ B)))) mb2"
    by (rule attr_encode_wrote [OF assms(1) special_ok(2)])
  have e: "mb1\<lparr>mb_pos := mb_pos mb0 + STUN_HEADER_SIZE + unat (of_nat (length B + FP_SIZE) :: u16) - FP_SIZE\<rparr> = ?mb"
    using q unfolding u by (simp add: STUN_HEADER_SIZE_def)
  have g: "FP_SIZE \<le> mb_pos mb0 + STUN_HEADER_SIZE + unat (of_nat (length B + FP_SIZE) :: u16)" unfolding u by simp
  show ?thesis
  proof (rule that [of mb2])
    show "encode_fp mem (mb_pos mb0) padding hdr mb 0 = Some (mb2, 0)"
      using r(2,3) e g 1(1) 2(1) p assms(7) by (simp add: encode_fp_def Let_def del: of_nat_add)
    show "mb_wrote mb0 (?H @ B @ attrs_bytes tid padding (fp_attr type tid True B)) mb2"
      using wrote_trans [OF w 2(2)] attr_bytes_tid [of "V32 (fingerprint (?H @ B))" None padding STUN_ATTR_FINGERPRINT "Some tid"]
      by (simp add: attrs_bytes_def fp_attr_def)
  qed
qed

text \<open>A message to be encoded: well-formed attributes that are not those the encoder adds, and that fit into the length field.\<close>

definition msg_ok :: "bytes \<Rightarrow> u8 \<Rightarrow> (u16 \<times> stun_value) list \<Rightarrow> bool" where
  "msg_ok tid padding A \<longleftrightarrow> length tid = 12 \<and> length (attrs_bytes tid padding A) + MI_SIZE + FP_SIZE < 65536
     \<and> list_all (\<lambda>(type, v). value_ok type v \<and> type \<noteq> STUN_ATTR_MSG_INTEGRITY \<and> type \<noteq> STUN_ATTR_FINGERPRINT) A"

definition msg_bytes :: "(bytes \<Rightarrow> bytes \<Rightarrow> bytes) \<Rightarrow> u16 \<Rightarrow> bytes \<Rightarrow> bytes option \<Rightarrow> bool \<Rightarrow> u8 \<Rightarrow> (u16 \<times> stun_value) list \<Rightarrow> bytes" where
  "msg_bytes hmac type tid key fp padding A =
     (let B = attrs_bytes tid padding (sent_attrs hmac type tid key fp padding A) in hdr_bytes type (length B) tid @ B)"

lemma length_mi_attr: "(\<And>k d. length (hmac k d) = 20) \<Longrightarrow> length (attrs_bytes tid padding (mi_attr hmac type tid key B)) = (case key of None \<Rightarrow> 0 | Some _ \<Rightarrow> MI_SIZE)"
  by (cases key) (simp_all add: attrs_bytes_def mi_attr_def special_length)

lemma length_fp_attr: "length (attrs_bytes tid padding (fp_attr type tid fp B)) = (if fp then FP_SIZE else 0)"
  by (simp add: attrs_bytes_def fp_attr_def special_length)

lemma all_attrs_wrote:
  assumes "\<forall>n. mem n" and "list_all (\<lambda>(type, v). value_ok type v) (msg_attrs ec attrs)"
  obtains mb1 err mb2 where "(case ec of None \<Rightarrow> Some (mb, 0) | Some (code, reason) \<Rightarrow>
       stun_attr_encode mem mb STUN_ATTR_ERR_CODE (VErrCode code reason) None padding) = Some (mb1, err)"
    "encode_attrs mem tid padding mb1 err attrs = Some (mb2, 0)" "mb_wrote mb (attrs_bytes tid padding (msg_attrs ec attrs)) mb2"
proof -
  let ?A = "map (\<lambda>(type, v). (type, the v)) (filter (\<lambda>(type, v). v \<noteq> None) attrs)"
  have ok: "list_all (\<lambda>(type, v). value_ok type v) ?A" using assms(2) by (auto simp: msg_attrs_def)
  show ?thesis
  proof (cases ec)
    case None
    obtain mb2 where "encode_attrs mem tid padding mb 0 attrs = Some (mb2, 0)" "mb_wrote mb (attrs_bytes tid padding ?A) mb2"
      by (rule encode_attrs_wrote [OF assms(1) ok])
    then show ?thesis using None by (intro that [of mb 0 mb2]) (simp_all add: msg_attrs_def)
  next
    case (Some e)
    obtain code reason where e: "e = (code, reason)" by (cases e)
    have "value_ok STUN_ATTR_ERR_CODE (VErrCode code reason)" using assms(2) Some e by (simp add: msg_attrs_def)
    then obtain mb1 where 1: "stun_attr_encode mem mb STUN_ATTR_ERR_CODE (VErrCode code reason) None padding = Some (mb1, 0)"
      "mb_wrote mb (attr_bytes None padding STUN_ATTR_ERR_CODE (VErrCode code reason)) mb1"
      by (rule attr_encode_wrote [OF assms(1)])
    obtain mb2 where 2: "encode_attrs mem tid padding mb1 0 attrs = Some (mb2, 0)" "mb_wrote mb1 (attrs_bytes tid padding ?A) mb2"
      by (rule encode_attrs_wrote [OF assms(1) ok])
    have "mb_wrote mb (attrs_bytes tid padding (msg_attrs ec attrs)) mb2"
      using wrote_trans [OF 1(2) 2(2)] Some e
        attr_bytes_tid [of "VErrCode code reason" None padding STUN_ATTR_ERR_CODE "Some tid"] by (simp add: attrs_bytes_def msg_attrs_def)
    then show ?thesis using 1(1) 2(1) Some e by (intro that [of mb1 0 mb2]) simp_all
  qed
qed

lemma vencode_wrote:
  assumes mem: "\<forall>n. mem n" and hmac: "\<forall>k d. length (hmac k d) = 20" and ok: "msg_ok tid padding (msg_attrs ec attrs)"
    and fresh: "mb_end mb \<le> mb_pos mb"
  obtains mb' where "stun_msg_vencode hmac mem mb method cls tid ec key fp padding attrs = Some (mb', 0)"
    "mb_wrote mb (msg_bytes hmac (STUN_TYPE method cls) tid key fp padding (msg_attrs ec attrs)) mb'"
proof -
  let ?A = "msg_attrs ec attrs" and ?ty = "STUN_TYPE method cls" and ?mi = "case key of None \<Rightarrow> 0 | Some _ \<Rightarrow> MI_SIZE"
  let ?B = "attrs_bytes tid padding ?A"
  have tid: "length tid = 12" and small: "length ?B + MI_SIZE + FP_SIZE < 65536" and A: "list_all (\<lambda>(type, v). value_ok type v) ?A"
    using ok by (auto simp: msg_ok_def list.pred_set)
  have rt: "mem_read tid 0 STUN_TID_SIZE = Some tid" using tid by (simp add: mem_read_def STUN_TID_SIZE_def)
  obtain mb1 err mb2 where a: "(case ec of None \<Rightarrow> Some (mb\<lparr>mb_pos := mb_pos mb + STUN_HEADER_SIZE\<rparr>, 0) | Some (code, reason) \<Rightarrow>
       stun_attr_encode mem (mb\<lparr>mb_pos := mb_pos mb + STUN_HEADER_SIZE\<rparr>) STUN_ATTR_ERR_CODE (VErrCode code reason) None padding) = Some (mb1, err)"
    "encode_attrs mem tid padding mb1 err attrs = Some (mb2, 0)" "mb_wrote (mb\<lparr>mb_pos := mb_pos mb + STUN_HEADER_SIZE\<rparr>) ?B mb2"
    by (rule all_attrs_wrote [OF mem A])
  let ?n = "length ?B + ?mi"
  have n: "mb_pos mb2 - mb_pos mb - STUN_HEADER_SIZE + ?mi = ?n" using mb_wroteD(1) [OF a(3)] by simp
  have u: "unat (of_nat ?n :: u16) = ?n"
    using small by (cases key) (simp_all add: unat_of_nat take_bit_nat_eq_self del: of_nat_add)
  let ?hdr = "\<lparr>sh_type = ?ty, sh_len = of_nat ?n, sh_cookie = STUN_MAGIC_COOKIE, sh_tid = tid\<rparr>"
  obtain mb3 where h: "stun_hdr_encode mem (mb2\<lparr>mb_pos := mb_pos mb\<rparr>) ?hdr = (mb3, 0)" "mb_wrote (mb2\<lparr>mb_pos := mb_pos mb\<rparr>) (hdr_bytes ?ty ?n tid) mb3"
    by (rule hdr_encode_wrote [OF mem type_range(1)])
  let ?mb = "mb3\<lparr>mb_pos := mb_pos mb3 + length ?B\<rparr>"
  have w: "mb_wrote mb (hdr_bytes ?ty ?n tid @ ?B) ?mb"
    by (rule wrote_around [OF _ h(2)]) (use a(3) tid in \<open>simp_all add: STUN_HEADER_SIZE_def hdr_bytes_def be16_nonempty\<close>)
  have e: "mb3\<lparr>mb_pos := mb_pos mb3 + unat (of_nat ?n :: u16) - ?mi\<rparr> = ?mb" unfolding u by simp
  have g: "?mi \<le> mb_pos mb3 + unat (of_nat ?n :: u16)" unfolding u by simp
  let ?M = "attrs_bytes tid padding (mi_attr hmac ?ty tid key ?B)"
  obtain mb4 where m: "(case key of None \<Rightarrow> Some (?mb, 0) | Some k \<Rightarrow> encode_mi hmac mem (mb_pos mb) padding k ?hdr ?mb 0) = Some (mb4, 0)"
    "mb_wrote mb (hdr_bytes ?ty ?n tid @ ?B @ ?M) mb4"
  proof (cases key)
    case None
    then show ?thesis using w by (intro that [of ?mb]) (simp_all add: mi_attr_def attrs_bytes_def)
  next
    case (Some k)
    have w': "mb_wrote mb (hdr_bytes ?ty (length ?B + MI_SIZE) tid @ ?B) ?mb" using w Some by simp
    obtain mb4 where "encode_mi hmac mem (mb_pos mb) padding k ?hdr ?mb 0 = Some (mb4, 0)" "mb_wrote ?mb ?M mb4"
      using mi_wrote [OF mem hmac w' fresh tid, where hdr = ?hdr and padding = padding and key = k] small Some by auto
    then show ?thesis using Some wrote_trans [OF w] by (intro that [of mb4]) simp_all
  qed
  have lM: "length (?B @ ?M) = ?n" using length_mi_attr [of hmac tid padding ?ty key ?B] hmac by simp
  obtain mb5 where f: "(if fp then encode_fp mem (mb_pos mb) padding ?hdr mb4 0 else Some (mb4, 0)) = Some (mb5, 0)"
    "mb_wrote mb (msg_bytes hmac ?ty tid key fp padding ?A) mb5"
  proof (cases fp)
    case False
    then show ?thesis
      using m(2) lM by (intro that [of mb4]) (simp_all add: msg_bytes_def sent_attrs_def fp_attr_def Let_def attrs_bytes_append)
  next
    case True
    have "length (?B @ ?M) + FP_SIZE < 65536" using lM small by (cases key) simp_all
    then obtain mb5 where "encode_fp mem (mb_pos mb) padding ?hdr mb4 0 = Some (mb5, 0)"
      "mb_wrote mb (hdr_bytes ?ty (length (?B @ ?M) + FP_SIZE) tid @ (?B @ ?M) @ attrs_bytes tid padding (fp_attr ?ty tid True (?B @ ?M))) mb5"
      using fp_wrote [OF mem type_range(1) m(2) fresh tid, where hdr = ?hdr and padding = padding] by auto
    then show ?thesis
      using True length_fp_attr [of tid padding ?ty True "?B @ ?M"]
      by (intro that [of mb5]) (simp_all add: msg_bytes_def sent_attrs_def Let_def attrs_bytes_append add.assoc)
  qed
  show ?thesis
  proof (rule that [OF _ f(2)])
    show "stun_msg_vencode hmac mem mb method cls tid ec key fp padding attrs = Some (mb5, 0)"
      using rt a(1,2) n h(1) e g m(1) f(1) by (cases key; cases fp) (simp_all add: stun_msg_vencode_def Let_def del: of_nat_add)
  qed
qed

section \<open>Decoding and checking encoded messages\<close>

lemma sent_ok:
  assumes "msg_ok tid padding A" and "\<forall>k d. length (hmac k d) = 20"
  shows "list_all (\<lambda>(type, v). value_ok type v \<and> length (concat (value_chunks (Some tid) type v)) < 65536) (sent_attrs hmac type tid key fp padding A)"
    and "length (attrs_bytes tid padding (sent_attrs hmac type tid key fp padding A)) < 65536"
proof -
  let ?S = "sent_attrs hmac type tid key fp padding A"
  show small: "length (attrs_bytes tid padding ?S) < 65536"
    using assms length_mi_attr [of hmac tid padding type key "attrs_bytes tid padding A"] length_fp_attr
    by (cases key) (simp_all add: msg_ok_def sent_attrs_def Let_def attrs_bytes_append)
  have "value_ok t v" if "(t, v) \<in> set ?S" for t v
    using that assms special_ok by (auto simp: sent_attrs_def Let_def mi_attr_def fp_attr_def msg_ok_def list.pred_set split: option.splits if_splits)
  moreover have "length (concat (value_chunks (Some tid) t v)) < 65536" if "(t, v) \<in> set ?S" for t v
  proof -
    have "length (attr_bytes (Some tid) padding t v) \<le> length (attrs_bytes tid padding ?S)"
      using that by (auto simp: attrs_bytes_def length_concat intro!: member_le_sum_list image_eqI [of _ _ "(t, v)"])
    then show ?thesis using small by (simp add: attr_bytes_def Let_def)
  qed
  ultimately show "list_all (\<lambda>(type, v). value_ok type v \<and> length (concat (value_chunks (Some tid) type v)) < 65536) ?S"
    by (auto simp: list.pred_set)
qed

lemma decode_msg_bytes:
  assumes mem: "\<forall>n. mem n" "\<forall>n. memo n" and hmac: "\<forall>k d. length (hmac k d) = 20" and ok: "msg_ok tid padding A"
    and "mbuf_in mb" and "mbuf_rest mb = msg_bytes hmac (STUN_TYPE method cls) tid key fp padding A"
  obtains ws where "stun_msg_decode True memo mem mb ua = Some (mb, map_option (\<lambda>u. u\<lparr>ua_typec := 0\<rparr>) ua, Inr
      \<lparr>msg_hdr = \<lparr>sh_type = STUN_TYPE method cls,
          sh_len = of_nat (length (attrs_bytes tid padding (sent_attrs hmac (STUN_TYPE method cls) tid key fp padding A))),
          sh_cookie = STUN_MAGIC_COOKIE, sh_tid = tid\<rparr>, msg_attrl = ws, msg_mb = mb, msg_start = mb_pos mb\<rparr>)"
    "decoded (sent_attrs hmac (STUN_TYPE method cls) tid key fp padding A) ws"
proof -
  let ?S = "sent_attrs hmac (STUN_TYPE method cls) tid key fp padding A"
  let ?B = "attrs_bytes tid padding ?S"
  have tid: "length tid = 12" using ok by (simp add: msg_ok_def)
  note S = sent_ok [OF ok hmac, of "STUN_TYPE method cls" key fp]
  have r: "mbuf_rest mb = hdr_bytes (STUN_TYPE method cls) (length ?B) tid @ ?B" using assms(6) by (simp add: msg_bytes_def Let_def)
  have left: "mbuf_get_left mb = 20 + length ?B" using length_rest_in [OF assms(5)] r tid by simp
  have h: "stun_hdr_decode mb = Some (advance 20 mb, Inr \<lparr>sh_type = STUN_TYPE method cls, sh_len = of_nat (length ?B),
      sh_cookie = STUN_MAGIC_COOKIE, sh_tid = tid\<rparr>)"
    by (rule hdr_decode_bytes [OF assms(5) r tid]) (use S(2) attrs_bytes_dvd in \<open>simp_all add: type_range\<close>)
  have u: "unat (of_nat (length ?B) :: u16) = length ?B" using S(2) by (simp add: unat_of_nat take_bit_nat_eq_self)
  obtain ws where ws: "decode_attrs memo mem tid 0 (advance 20 mb) (map_option (\<lambda>u. u\<lparr>ua_typec := 0\<rparr>) ua) [] =
      Some (advance (length ?B) (advance 20 mb), map_option (\<lambda>u. u\<lparr>ua_typec := 0\<rparr>) ua, [] @ ws, 0)" "decoded ?S ws"
    using decode_attrs_bytes [OF mem tid, of "advance 20 mb" padding ?S "map_option (\<lambda>u. u\<lparr>ua_typec := 0\<rparr>) ua" "[]"] S(1) assms(5) r left tid by auto
  have p: "(advance k mb)\<lparr>mb_pos := mb_pos mb\<rparr> = mb" for k by (simp add: advance_def)
  show ?thesis
    by (rule that [OF _ ws(2)]) (use h u ws(1) left p in \<open>simp add: stun_msg_decode_def Let_def\<close>)
qed

lemma decoded_find:
  assumes "decoded A ws"
  shows "case List.find (\<lambda>(t, v). t = type) A of None \<Rightarrow> List.find (\<lambda>attr. attr_type attr = type) ws = None
     | Some (t, v) \<Rightarrow> \<exists>attr. List.find (\<lambda>attr. attr_type attr = type) ws = Some attr \<and> same_value v (attr_v attr)"
  using assms unfolding decoded_def by (induction A ws rule: list_all2_induct) (auto split: option.splits)

lemma find_sent:
  assumes "msg_ok tid padding A"
  shows "List.find (\<lambda>(t, v). t = STUN_ATTR_MSG_INTEGRITY) (sent_attrs hmac type tid (Some k) fp padding A) =
      Some (STUN_ATTR_MSG_INTEGRITY, VIntegrity (hmac k (hdr_bytes type (length (attrs_bytes tid padding A) + MI_SIZE) tid @ attrs_bytes tid padding A)))"
    and "List.find (\<lambda>(t, v). t = STUN_ATTR_FINGERPRINT) (sent_attrs hmac type tid key fp padding A) =
      (if fp then (let B = attrs_bytes tid padding (A @ mi_attr hmac type tid key (attrs_bytes tid padding A))
         in Some (STUN_ATTR_FINGERPRINT, V32 (fingerprint (hdr_bytes type (length B + FP_SIZE) tid @ B)))) else None)"
proof -
  have app: "List.find P (xs @ ys) = (case List.find P xs of None \<Rightarrow> List.find P ys | r \<Rightarrow> r)" for P and xs ys :: "(u16 \<times> stun_value) list"
    by (induction xs) auto
  have A: "List.find (\<lambda>(t, v). t = STUN_ATTR_MSG_INTEGRITY) A = None" "List.find (\<lambda>(t, v). t = STUN_ATTR_FINGERPRINT) A = None"
    using assms by (auto simp: find_None_iff msg_ok_def list.pred_set)
  have d: "STUN_ATTR_MSG_INTEGRITY \<noteq> STUN_ATTR_FINGERPRINT" by (simp add: stun_attr_types)
  show "List.find (\<lambda>(t, v). t = STUN_ATTR_MSG_INTEGRITY) (sent_attrs hmac type tid (Some k) fp padding A) =
      Some (STUN_ATTR_MSG_INTEGRITY, VIntegrity (hmac k (hdr_bytes type (length (attrs_bytes tid padding A) + MI_SIZE) tid @ attrs_bytes tid padding A)))"
    using A by (simp add: sent_attrs_def Let_def app mi_attr_def)
  show "List.find (\<lambda>(t, v). t = STUN_ATTR_FINGERPRINT) (sent_attrs hmac type tid key fp padding A) =
      (if fp then (let B = attrs_bytes tid padding (A @ mi_attr hmac type tid key (attrs_bytes tid padding A))
         in Some (STUN_ATTR_FINGERPRINT, V32 (fingerprint (hdr_bytes type (length B + FP_SIZE) tid @ B)))) else None)"
    using A d by (cases key) (simp_all add: sent_attrs_def Let_def app mi_attr_def fp_attr_def)
qed

lemma rest_holds:
  assumes "mbuf_in mb" and "mbuf_rest mb = bs"
  shows "holds mb (mb_pos mb) bs"
  using assms by (auto simp: holds_def mbuf_rest_def mbuf_in_def mbuf_ok_def mbuf_get_left_def min_def split: if_splits)

lemma holds_mem_read: "holds mb off (xs @ ys) \<Longrightarrow> xs \<noteq> [] \<Longrightarrow> mem_read (mb_buf mb) off (length xs) = Some xs"
  by (simp add: holds_append holds_def [of mb off xs] mem_read_def)

lemma sent_split:
  "attrs_bytes tid padding (sent_attrs hmac type tid key fp padding A) = attrs_bytes tid padding A
     @ attrs_bytes tid padding (mi_attr hmac type tid key (attrs_bytes tid padding A))
     @ attrs_bytes tid padding (fp_attr type tid fp (attrs_bytes tid padding (A @ mi_attr hmac type tid key (attrs_bytes tid padding A))))"
  by (simp add: sent_attrs_def Let_def attrs_bytes_append)

lemma chk_mi_sent:
  assumes mem: "\<forall>n. mem n" and hmac: "\<forall>k d. length (hmac k d) = 20" and ok: "msg_ok tid padding A" and ty: "type AND 0x3fff = type"
    and mb: "mbuf_in mb" "mbuf_rest mb = msg_bytes hmac type tid (Some k) fp padding A"
    and ws: "decoded (sent_attrs hmac type tid (Some k) fp padding A) ws"
    and msg: "msg = \<lparr>msg_hdr = \<lparr>sh_type = type, sh_len = of_nat (length (attrs_bytes tid padding (sent_attrs hmac type tid (Some k) fp padding A))),
          sh_cookie = STUN_MAGIC_COOKIE, sh_tid = tid\<rparr>, msg_attrl = ws, msg_mb = mb, msg_start = mb_pos mb\<rparr>"
  shows "\<exists>msg'. stun_msg_chk_mi hmac mem msg k = Some (msg', 0)"
proof -
  let ?B = "attrs_bytes tid padding A" and ?S = "sent_attrs hmac type tid (Some k) fp padding A"
  let ?M = "attrs_bytes tid padding (mi_attr hmac type tid (Some k) ?B)"
  let ?F = "attrs_bytes tid padding (fp_attr type tid fp (attrs_bytes tid padding (A @ mi_attr hmac type tid (Some k) ?B)))"
  let ?H = "hdr_bytes type (length ?B + MI_SIZE) tid"
  have tid: "length tid = 12" and small: "length ?B + MI_SIZE + FP_SIZE < 65536" using ok by (simp_all add: msg_ok_def)
  have lM: "length ?M = MI_SIZE" using length_mi_attr [of hmac tid padding type "Some k" ?B] hmac by simp
  have lF: "length ?F = (if fp then FP_SIZE else 0)" by (rule length_fp_attr)
  have len: "length (attrs_bytes tid padding ?S) = length ?B + MI_SIZE + (if fp then FP_SIZE else 0)"
    using lM lF by (simp add: sent_split)
  obtain mi where mi: "stun_msg_attr msg STUN_ATTR_MSG_INTEGRITY = Some mi" "attr_v mi = VIntegrity (hmac k (?H @ ?B))"
    using decoded_find [OF ws, of STUN_ATTR_MSG_INTEGRITY] find_sent(1) [OF ok, of hmac type k fp] msg
    by (auto simp: stun_msg_attr_def same_value_def split: stun_value.splits)
  have fp: "stun_msg_attr msg STUN_ATTR_FINGERPRINT \<noteq> None \<longleftrightarrow> fp"
    using decoded_find [OF ws, of STUN_ATTR_FINGERPRINT] find_sent(2) [OF ok, of hmac type "Some k" fp] msg
    by (auto simp: stun_msg_attr_def Let_def split: if_splits)
  have h: "holds mb (mb_pos mb) (hdr_bytes type (length (attrs_bytes tid padding ?S)) tid @ ?B @ ?M @ ?F)"
    by (rule rest_holds [OF mb(1)]) (use mb(2) in \<open>simp add: msg_bytes_def Let_def sent_split\<close>)
  have u: "uint (of_nat n :: u16) = int n" if "n < 65536" for n using that by (simp add: uint_nat unat_of_nat take_bit_nat_eq_self)
  have ne: "?H @ ?B \<noteq> []" by (simp add: hdr_bytes_def be16_nonempty)
  have n: "nat (int STUN_HEADER_SIZE + int (length ?B + MI_SIZE) - int MI_SIZE) = length (?H @ ?B)"
    "\<not> int STUN_HEADER_SIZE + int (length ?B + MI_SIZE) - int MI_SIZE < 0"
    using tid by (simp_all add: STUN_HEADER_SIZE_def)
  show ?thesis
  proof (cases fp)
    case False
    have "mem_read (mb_buf mb) (mb_pos mb) (length (?H @ ?B)) = Some (?H @ ?B)"
      by (rule holds_mem_read [OF _ ne, of _ _ ?M]) (use h len False in \<open>simp add: fp_attr_def attrs_bytes_def\<close>)
    then show ?thesis
      using False fp mi msg len n small u [of "length ?B + MI_SIZE"]
      by (simp add: stun_msg_chk_mi_def Let_def check_read_def del: of_nat_add int_plus)
  next
    case True
    have l: "of_nat (length (attrs_bytes tid padding ?S)) - of_nat FP_SIZE = (of_nat (length ?B + MI_SIZE) :: u16)"
      using len True by simp
    let ?hdr = "\<lparr>sh_type = type, sh_len = of_nat (length ?B + MI_SIZE), sh_cookie = STUN_MAGIC_COOKIE, sh_tid = tid\<rparr>"
    obtain mb1 where 1: "stun_hdr_encode mem mb ?hdr = (mb1, 0)" "mb_wrote mb ?H mb1" by (rule hdr_encode_wrote [OF mem ty])
    note w = mb_wroteD [OF 1(2)]
    have p: "mb_pos mb1 - STUN_HEADER_SIZE = mb_pos mb" using w(1) tid by (simp add: STUN_HEADER_SIZE_def)
    have "holds mb (mb_pos mb + 20) ?B" using h tid by (simp add: holds_append)
    then have "holds mb1 (mb_pos mb + 20) ?B" using mb_keepsD [OF w(3)] w(1) tid by simp
    then have "holds mb1 (mb_pos mb) ((?H @ ?B) @ [])" using w(2) tid by (simp add: holds_append)
    then have "mem_read (mb_buf mb1) (mb_pos mb) (length (?H @ ?B)) = Some (?H @ ?B)" by (rule holds_mem_read [OF _ ne])
    then show ?thesis
      using True fp mi msg l n small u [of "length ?B + MI_SIZE"] 1(1) p
      by (simp add: stun_msg_chk_mi_def Let_def check_read_def set_len_def del: of_nat_add int_plus)
  qed
qed

lemma chk_fp_sent:
  assumes hmac: "\<forall>k d. length (hmac k d) = 20" and ok: "msg_ok tid padding A"
    and mb: "mbuf_in mb" "mbuf_rest mb = msg_bytes hmac type tid key True padding A"
    and ws: "decoded (sent_attrs hmac type tid key True padding A) ws"
    and msg: "msg = \<lparr>msg_hdr = \<lparr>sh_type = type, sh_len = of_nat (length (attrs_bytes tid padding (sent_attrs hmac type tid key True padding A))),
          sh_cookie = STUN_MAGIC_COOKIE, sh_tid = tid\<rparr>, msg_attrl = ws, msg_mb = mb, msg_start = mb_pos mb\<rparr>"
  shows "\<exists>msg'. stun_msg_chk_fingerprint msg = Some (msg', 0)"
proof -
  let ?S = "sent_attrs hmac type tid key True padding A"
  let ?B = "attrs_bytes tid padding (A @ mi_attr hmac type tid key (attrs_bytes tid padding A))"
  let ?F = "attrs_bytes tid padding (fp_attr type tid True ?B)" and ?H = "hdr_bytes type (length ?B + FP_SIZE) tid"
  have tid: "length tid = 12" using ok by (simp add: msg_ok_def)
  have S: "attrs_bytes tid padding ?S = ?B @ ?F" by (simp add: sent_attrs_def Let_def attrs_bytes_append)
  have len: "length (attrs_bytes tid padding ?S) = length ?B + FP_SIZE"
    unfolding S using length_fp_attr [of tid padding type True ?B] by simp
  then have small: "length ?B + FP_SIZE < 65536" using sent_ok(2) [OF ok hmac, of type key True] by simp
  obtain a where a: "stun_msg_attr msg STUN_ATTR_FINGERPRINT = Some a" "attr_v a = V32 (fingerprint (?H @ ?B))"
    using decoded_find [OF ws, of STUN_ATTR_FINGERPRINT] find_sent(2) [OF ok, of hmac type key True] msg
    by (auto simp: stun_msg_attr_def same_value_def Let_def split: stun_value.splits)
  have "holds mb (mb_pos mb) ((?H @ ?B) @ ?F)"
    by (rule rest_holds [OF mb(1)]) (use mb(2) S len in \<open>simp add: msg_bytes_def Let_def\<close>)
  then have r: "mem_read (mb_buf mb) (mb_pos mb) (length (?H @ ?B)) = Some (?H @ ?B)"
    by (rule holds_mem_read) (simp add: hdr_bytes_def be16_nonempty)
  have u: "uint (of_nat (length ?B + FP_SIZE) :: u16) = int (length ?B + FP_SIZE)"
    using small by (simp add: uint_nat unat_of_nat take_bit_nat_eq_self del: of_nat_add)
  have n: "nat (int STUN_HEADER_SIZE + int (length ?B + FP_SIZE) - int FP_SIZE) = length (?H @ ?B)"
    "\<not> int STUN_HEADER_SIZE + int (length ?B + FP_SIZE) - int FP_SIZE < 0"
    using tid by (simp_all add: STUN_HEADER_SIZE_def)
  show ?thesis
    using a msg len n u r by (simp add: stun_msg_chk_fingerprint_def Let_def check_read_def del: of_nat_add int_plus)
qed

section \<open>Safety of decoding and checking\<close>

lemma map_sum_Inl [simp]: "map_sum id f r = Inl e \<longleftrightarrow> r = Inl e"
  by (cases r) simp_all

lemma read_errs:
  "mbuf_read_mem mb n = Some (mb', Inl e) \<Longrightarrow> e \<noteq> 0" "str_decode mem mb n = Some (mb', Inl e) \<Longrightarrow> e \<noteq> 0"
  "stun_addr_decode mb s tid = Some (mb', Inl e) \<Longrightarrow> e \<noteq> 0"
  by (auto simp: mbuf_read_mem_def str_decode_def mbuf_strdup_def stun_addr_decode_def Let_def errno_defs EAFNOSUPPORT_def
      split: if_splits sum.splits bind_splits)

lemma value_decode_err: "attr_value_decode mem mb type len tid = Some (mb', Inl err) \<Longrightarrow> err \<noteq> 0"
  by (cases "attr_case_of type")
    (auto simp: attr_value_decode_def errno_defs dest!: read_errs split: if_splits bind_splits)

lemma value_decode_kind:
  assumes "attr_value_decode mem mb type len tid = Some (mb', Inr v)"
  shows "(type = STUN_ATTR_MSG_INTEGRITY \<longrightarrow> (\<exists>mi. v = VIntegrity mi)) \<and> (type = STUN_ATTR_FINGERPRINT \<longrightarrow> (\<exists>n. v = V32 n))"
proof -
  have r: "map_sum id VIntegrity r = Inr v \<Longrightarrow> \<exists>mi. v = VIntegrity mi" for r :: "int + bytes" by (cases r) auto
  have "attr_case_of STUN_ATTR_MSG_INTEGRITY = KIntegrity" "attr_case_of STUN_ATTR_FINGERPRINT = K32"
    by (simp_all add: attr_case_of_def stun_attr_types)
  then show ?thesis using assms r by (auto simp: attr_value_decode_def split: if_splits)
qed

definition attr_typed :: "stun_attr \<Rightarrow> bool" where
  "attr_typed attr \<longleftrightarrow> (attr_type attr = STUN_ATTR_MSG_INTEGRITY \<longrightarrow> (\<exists>mi. attr_v attr = VIntegrity mi))
     \<and> (attr_type attr = STUN_ATTR_FINGERPRINT \<longrightarrow> (\<exists>n. attr_v attr = V32 n))"

lemma attr_decode_result:
  assumes "stun_attr_decode ma mem mb tid ua = Some (mb', ua', r)"
  shows "case r of Inl err \<Rightarrow> err \<noteq> 0 | Inr attr \<Rightarrow> attr_typed attr"
  using assms value_decode_err value_decode_kind
  by (fastforce simp: stun_attr_decode_def Let_def errno_defs attr_typed_def split: if_splits sum.splits bind_splits)

definition attrs_cost :: "stun_attr list \<Rightarrow> nat" where
  "attrs_cost attrl = sum_list (map (\<lambda>attr. attr_cost (attr_type attr)) attrl)"

lemma decode_attrs_safe:
  assumes "mbuf_in mb"
  shows "\<exists>mb' ua' new err. decode_attrs memo mem tid extra mb ua attrl = Some (mb', ua', attrl @ new, err) \<and> moved mb mb'
     \<and> (err = 0 \<longrightarrow> extra \<le> mbuf_get_left mb' \<and> mb_pos mb + attrs_cost new \<le> mb_pos mb' \<and> list_all attr_typed new)"
  using assms
proof (induction "mbuf_get_left mb" arbitrary: mb ua attrl rule: less_induct)
  case less
  show ?case
  proof (cases "mbuf_get_left mb < extra \<or> mbuf_get_left mb - extra \<ge> 4")
    case False
    then have "decode_attrs memo mem tid extra mb ua attrl = Some (mb, ua, attrl @ [], 0)" by (subst decode_attrs.simps) simp
    then show ?thesis using False moved_refl by (auto simp: attrs_cost_def)
  next
    case True
    obtain mb1 ua1 r where d: "stun_attr_decode (memo (length attrl)) mem mb (Some tid) ua = Some (mb1, ua1, r)" "moved mb mb1"
      "case r of Inl _ \<Rightarrow> True | Inr a \<Rightarrow> mb_pos mb + attr_cost (attr_type a) \<le> mb_pos mb1"
      using attr_decode_safe [OF less.prems] by blast
    note res = attr_decode_result [OF d(1)]
    show ?thesis
    proof (cases r)
      case (Inl err)
      then have "decode_attrs memo mem tid extra mb ua attrl = Some (mb1, ua1, attrl @ [], err)"
        using True d(1) by (subst decode_attrs.simps) simp
      then show ?thesis using d(2) res Inl by auto
    next
      case (Inr a)
      then have c: "mb_pos mb + attr_cost (attr_type a) \<le> mb_pos mb1" "attr_typed a" using d(3) res by auto
      have "4 \<le> attr_cost (attr_type a)" by (simp add: attr_cost_def)
      then have "mbuf_get_left mb1 < mbuf_get_left mb" "mbuf_in mb1"
        using c(1) d(2) less.prems by (auto simp: moved_def mbuf_in_def mbuf_get_left_def split: if_splits)
      from less.hyps [OF this, of ua1 "attrl @ [a]"] obtain mb' ua' new err
        where i: "decode_attrs memo mem tid extra mb1 ua1 (attrl @ [a]) = Some (mb', ua', (attrl @ [a]) @ new, err)" "moved mb1 mb'"
          "err = 0 \<longrightarrow> extra \<le> mbuf_get_left mb' \<and> mb_pos mb1 + attrs_cost new \<le> mb_pos mb' \<and> list_all attr_typed new" by blast
      have "decode_attrs memo mem tid extra mb ua attrl = Some (mb', ua', attrl @ a # new, err)"
        using True d(1) Inr i(1) by (subst decode_attrs.simps) simp
      then show ?thesis using i(3) c moved_trans [OF d(2) i(2)] by (auto simp: attrs_cost_def)
    qed
  qed
qed

lemma hdr_decode_safe:
  assumes "mbuf_in mb"
  shows "\<exists>mb' r. stun_hdr_decode mb = Some (mb', r) \<and> moved mb mb' \<and> (case r of Inl err \<Rightarrow> err \<noteq> 0
     | Inr hdr \<Rightarrow> mb' = advance 20 mb \<and> 20 + unat (sh_len hdr) \<le> mbuf_get_left mb \<and> length (sh_tid hdr) = 12)"
proof (cases "mbuf_get_left mb < 20")
  case False
  then have 20: "moved mb (advance n mb)" if "n \<le> 20" for n using that by (simp add: moved_advance)
  have t: "length (take 12 (drop 8 (mbuf_rest mb))) = 12" using False length_rest_in [OF assms] by simp
  show ?thesis
    using assms False 20 [of 2] 20 [of 4] 20 [of 20] t
    by (auto simp: stun_hdr_decode_def STUN_HEADER_SIZE_def STUN_TID_SIZE_def reads_in Let_def errno_defs)
qed (auto simp: stun_hdr_decode_def STUN_HEADER_SIZE_def moved_refl errno_defs)

text \<open>What is known of a decoded message.\<close>

definition msg_inside :: "mbuf \<Rightarrow> stun_msg \<Rightarrow> bool" where
  "msg_inside mb msg \<longleftrightarrow> msg_mb msg = mb \<and> msg_start msg = mb_pos mb \<and> attrs_cost (msg_attrl msg) \<le> unat (sh_len (msg_hdr msg))
     \<and> 20 + unat (sh_len (msg_hdr msg)) \<le> mbuf_get_left mb \<and> list_all attr_typed (msg_attrl msg) \<and> length (sh_tid (msg_hdr msg)) = 12"

lemma msg_decode_safe:
  assumes "mbuf_in mb"
  shows "\<exists>ua' r. stun_msg_decode mm memo mem mb ua = Some (mb, ua', r) \<and> (case r of Inl err \<Rightarrow> err \<noteq> 0 | Inr msg \<Rightarrow> msg_inside mb msg)"
proof -
  have bk: "moved mb m \<Longrightarrow> m\<lparr>mb_pos := mb_pos mb\<rparr> = mb" for m by (auto simp: moved_def advance_def)
  obtain mb1 r where h: "stun_hdr_decode mb = Some (mb1, r)" "moved mb mb1" "case r of Inl err \<Rightarrow> err \<noteq> 0
     | Inr hdr \<Rightarrow> mb1 = advance 20 mb \<and> 20 + unat (sh_len hdr) \<le> mbuf_get_left mb \<and> length (sh_tid hdr) = 12"
    using hdr_decode_safe [OF assms] by blast
  show ?thesis
  proof (cases "isl r \<or> \<not> mm")
    case True
    then show ?thesis using h bk by (auto simp: stun_msg_decode_def Let_def errno_defs split: sum.splits)
  next
    case False
    then obtain hdr where hdr: "r = Inr hdr" and "mm" by (cases r) auto
    then have 20: "mb1 = advance 20 mb" "20 + unat (sh_len hdr) \<le> mbuf_get_left mb" "length (sh_tid hdr) = 12" using h(3) by auto
    let ?ua = "map_option (\<lambda>u. u\<lparr>ua_typec := 0\<rparr>) ua" and ?extra = "mbuf_get_left mb1 - unat (sh_len hdr)"
    have "mbuf_in mb1" using assms 20 by simp
    from decode_attrs_safe [OF this, of memo mem "sh_tid hdr" ?extra ?ua "[]"] obtain mb2 ua2 new err
      where d: "decode_attrs memo mem (sh_tid hdr) ?extra mb1 ?ua [] = Some (mb2, ua2, new, err)" "moved mb1 mb2"
        "err = 0 \<longrightarrow> ?extra \<le> mbuf_get_left mb2 \<and> mb_pos mb1 + attrs_cost new \<le> mb_pos mb2 \<and> list_all attr_typed new" by auto
    have b: "mb2\<lparr>mb_pos := mb_pos mb\<rparr> = mb" using bk moved_trans [OF h(2) d(2)] by blast
    show ?thesis
    proof (cases "err = 0")
      case False
      then show ?thesis using h(1) hdr \<open>mm\<close> d(1) b by (simp add: stun_msg_decode_def Let_def)
    next
      case True
      have "attrs_cost new \<le> unat (sh_len hdr)"
        using d(2,3) True 20 by (auto simp: moved_def)
      then have "msg_inside mb \<lparr>msg_hdr = hdr, msg_attrl = new, msg_mb = mb, msg_start = mb_pos mb\<rparr>"
        using 20 d(3) True by (simp add: msg_inside_def)
      then show ?thesis using h(1) hdr \<open>mm\<close> d(1) b True by (simp add: stun_msg_decode_def Let_def)
    qed
  qed
qed

text \<open>Rewriting a header in place does not change the size of the buffer.\<close>

lemma writes_fits:
  "mb_pos mb + length (concat ds) \<le> length (mb_buf mb) \<Longrightarrow>
   \<exists>mb'. writes mem (mb, err) ds = (mb', err) \<and> length (mb_buf mb') = length (mb_buf mb) \<and> mb_pos mb' = mb_pos mb + length (concat ds)"
proof (induction ds arbitrary: mb)
  case (Cons d ds)
  let ?mb = "mb\<lparr>mb_buf := patch (mb_buf mb) (mb_pos mb) d, mb_pos := mb_pos mb + length d, mb_end := max (mb_end mb) (mb_pos mb + length d)\<rparr>"
  have "mbuf_write_mem mem mb d = (?mb, 0)" using Cons.prems by (intro mbuf_write_fits) simp
  then show ?case using Cons.IH [of ?mb] Cons.prems by (auto simp: add.assoc)
qed simp

lemma set_len_size:
  assumes "mb_pos (msg_mb msg) + 20 \<le> length (mb_buf (msg_mb msg))" and "length (sh_tid (msg_hdr msg)) = 12"
  shows "length (mb_buf (msg_mb (set_len mem len msg))) = length (mb_buf (msg_mb msg))" "mb_pos (msg_mb (set_len mem len msg)) = mb_pos (msg_mb msg)"
    "msg_hdr (set_len mem len msg) = (msg_hdr msg)\<lparr>sh_len := len\<rparr>"
proof -
  obtain mb' where "stun_hdr_encode mem (msg_mb msg) ((msg_hdr msg)\<lparr>sh_len := len\<rparr>) = (mb', 0)"
    "length (mb_buf mb') = length (mb_buf (msg_mb msg))" "mb_pos mb' = mb_pos (msg_mb msg) + 20"
    using writes_fits [of "msg_mb msg" "[le16 (htons (sh_type (msg_hdr msg) AND 0x3fff)), le16 (htons len),
       le32 (htonl (sh_cookie (msg_hdr msg))), sh_tid (msg_hdr msg)]" mem 0] assms by (auto simp: stun_hdr_encode_def)
  then show "length (mb_buf (msg_mb (set_len mem len msg))) = length (mb_buf (msg_mb msg))" "mb_pos (msg_mb (set_len mem len msg)) = mb_pos (msg_mb msg)"
    "msg_hdr (set_len mem len msg) = (msg_hdr msg)\<lparr>sh_len := len\<rparr>"
    by (simp_all add: set_len_def Let_def STUN_HEADER_SIZE_def)
qed

lemma cost_two:
  assumes "x \<in> set attrl" and "y \<in> set attrl" and "x \<noteq> y"
  shows "attr_cost (attr_type x) + attr_cost (attr_type y) \<le> attrs_cost attrl"
proof -
  have "attr_cost (attr_type y) \<le> sum_list (map (\<lambda>attr. attr_cost (attr_type attr)) (remove1 x attrl))"
    using assms by (intro member_le_sum_list) auto
  then show ?thesis using sum_list_map_remove1 [OF assms(1), of "\<lambda>attr. attr_cost (attr_type attr)"] by (simp add: attrs_cost_def)
qed

lemma chk_safe:
  assumes "mbuf_in mb" and "msg_inside mb msg"
  shows "\<exists>r. stun_msg_chk_mi hmac mem msg key = Some r" "\<exists>r. stun_msg_chk_fingerprint msg = Some r"
proof -
  let ?l = "unat (sh_len (msg_hdr msg))"
  have i: "msg_mb msg = mb" "msg_start msg = mb_pos mb" "attrs_cost (msg_attrl msg) \<le> ?l" "20 + ?l \<le> mbuf_get_left mb"
    "list_all attr_typed (msg_attrl msg)" "length (sh_tid (msg_hdr msg)) = 12"
    using assms(2) by (auto simp: msg_inside_def)
  have size: "mb_pos mb + 20 + ?l \<le> length (mb_buf mb)"
    using assms(1) i(4) by (auto simp: mbuf_in_def mbuf_ok_def mbuf_get_left_def split: if_splits)
  have at: "attr \<in> set (msg_attrl msg) \<and> attr_type attr = ty" if "stun_msg_attr msg ty = Some attr" for ty attr
    using that by (auto simp: stun_msg_attr_def find_Some_iff)
  have one: "attr_cost (attr_type attr) \<le> ?l" if "attr \<in> set (msg_attrl msg)" for attr
    using member_le_sum_list [of "attr_cost (attr_type attr)" "map (\<lambda>attr. attr_cost (attr_type attr)) (msg_attrl msg)"] that i(3)
    by (auto simp: attrs_cost_def)
  have uint: "uint l = int (unat l)" for l :: u16 by (rule uint_nat)
  have read: "\<exists>data. check_read m (int STUN_HEADER_SIZE + uint l - int k) = Some data"
    if "k \<le> 20 + unat l" "mb_pos (msg_mb m) + 20 + unat l \<le> length (mb_buf (msg_mb m))" for m k and l :: u16
  proof -
    have e: "int STUN_HEADER_SIZE + uint l - int k = int (20 + unat l - k)" unfolding uint using that(1) by (simp add: STUN_HEADER_SIZE_def of_nat_diff)
    show ?thesis using that unfolding e by (simp add: check_read_def mem_read_def del: of_nat_add of_nat_diff)
  qed
  have fp: "8 \<le> ?l \<and> (\<exists>n. attr_v attr = V32 n)" if "stun_msg_attr msg STUN_ATTR_FINGERPRINT = Some attr" for attr
  proof -
    note a = at [OF that]
    have "attr_cost STUN_ATTR_FINGERPRINT = 8" by (simp add: attr_cost_def stun_attr_types)
    then have "8 \<le> ?l" using one [of attr] a by simp
    moreover have "attr_typed attr" using i(5) a by (auto simp: list.pred_set)
    ultimately show ?thesis using a by (simp add: attr_typed_def)
  qed
  show "\<exists>r. stun_msg_chk_fingerprint msg = Some r"
  proof (cases "stun_msg_attr msg STUN_ATTR_FINGERPRINT")
    case (Some attr)
    then obtain n where n: "attr_v attr = V32 n" "8 \<le> ?l" using fp by blast
    let ?m = "msg\<lparr>msg_mb := mb\<lparr>mb_pos := mb_pos mb\<rparr>\<rparr>"
    obtain data where "check_read ?m (int STUN_HEADER_SIZE + uint (sh_len (msg_hdr msg)) - int FP_SIZE) = Some data"
      using read [of FP_SIZE "sh_len (msg_hdr msg)" ?m] n(2) size by (auto simp: FP_SIZE_def)
    then show ?thesis using Some n(1) i(1,2) by (simp add: stun_msg_chk_fingerprint_def Let_def)
  qed (simp add: stun_msg_chk_fingerprint_def)
  show "\<exists>r. stun_msg_chk_mi hmac mem msg key = Some r"
  proof (cases "stun_msg_attr msg STUN_ATTR_MSG_INTEGRITY")
    case (Some mi)
    note mi = at [OF this]
    obtain v where v: "attr_v mi = VIntegrity v" using mi i(5) by (auto simp: attr_typed_def list.pred_set)
    let ?m = "msg\<lparr>msg_mb := mb\<lparr>mb_pos := mb_pos mb\<rparr>\<rparr>"
    have same: "stun_msg_attr ?m ty = stun_msg_attr msg ty" for ty by (simp add: stun_msg_attr_def)
    show ?thesis
    proof (cases "stun_msg_attr msg STUN_ATTR_FINGERPRINT")
      case None
      have "24 \<le> ?l" using one [of mi] mi by (simp add: attr_cost_def)
      then obtain data where "check_read ?m (int STUN_HEADER_SIZE + uint (sh_len (msg_hdr msg)) - int MI_SIZE) = Some data"
        using read [of MI_SIZE "sh_len (msg_hdr msg)" ?m] size by (auto simp: MI_SIZE_def)
      then show ?thesis using Some None v i(1,2) same by (simp add: stun_msg_chk_mi_def Let_def)
    next
      case (Some f)
      have "mi \<noteq> f" using mi at [OF Some] by (auto simp: stun_attr_types)
      then have 32: "32 \<le> ?l"
        using cost_two [of mi "msg_attrl msg" f] mi at [OF Some] i(3) by (auto simp: attr_cost_def stun_attr_types)
      let ?s = "set_len mem (sh_len (msg_hdr msg) - of_nat FP_SIZE) ?m"
      have s: "length (mb_buf (msg_mb ?s)) = length (mb_buf mb)" "mb_pos (msg_mb ?s) = mb_pos mb"
        "sh_len (msg_hdr ?s) = sh_len (msg_hdr msg) - 8"
        using set_len_size [of ?m mem "sh_len (msg_hdr msg) - of_nat FP_SIZE"] size i(6) by (simp_all add: FP_SIZE_def)
      have u: "unat (sh_len (msg_hdr msg) - 8) = ?l - 8" using 32 by (subst unat_sub_le) (simp_all add: word_le_nat_alt)
      have c: "MI_SIZE \<le> 20 + unat (sh_len (msg_hdr ?s))" "mb_pos (msg_mb ?s) + 20 + unat (sh_len (msg_hdr ?s)) \<le> length (mb_buf (msg_mb ?s))"
        unfolding s u using 32 size by (simp_all add: MI_SIZE_def)
      obtain data where "check_read ?s (int STUN_HEADER_SIZE + uint (sh_len (msg_hdr ?s)) - int MI_SIZE) = Some data"
        using read [OF c] by blast
      then show ?thesis using \<open>stun_msg_attr msg STUN_ATTR_MSG_INTEGRITY = Some mi\<close> Some v i(1,2) same by (simp add: stun_msg_chk_mi_def Let_def)
    qed
  qed (simp add: stun_msg_chk_mi_def)
qed

section \<open>Properties\<close>

text \<open>
  (C13) A message that is encoded into a fresh part of a buffer, with an error code, a key for the message integrity and a fingerprint or without them,
  is decoded to its method, class, transaction and attributes, in their order, and passes both checks. The method is one of those the
  library knows.
\<close>

theorem stun_msg_roundtrip:
  assumes "\<forall>n. mem n" and "\<forall>n. memo n" and "\<forall>k d. length (hmac k d) = 20" and "msg_ok tid padding (msg_attrs ec attrs)"
    and "mbuf_ok mb" and "mb_end mb \<le> mb_pos mb" and "method < 16" and "cls < 4"
  shows "\<exists>mb' msg. stun_msg_vencode hmac mem mb method cls tid ec key fp padding attrs = Some (mb', 0)
     \<and> stun_msg_decode True memo mem (mbuf_set_pos mb' (mb_pos mb)) ua = Some (mbuf_set_pos mb' (mb_pos mb), map_option (\<lambda>u. u\<lparr>ua_typec := 0\<rparr>) ua, Inr msg)
     \<and> stun_msg_method msg = method \<and> stun_msg_class msg = cls \<and> stun_msg_tid msg = tid \<and> stun_msg_mcookie msg
     \<and> decoded (sent_attrs hmac (STUN_TYPE method cls) tid key fp padding (msg_attrs ec attrs)) (msg_attrl msg)
     \<and> (\<forall>k. key = Some k \<longrightarrow> (\<exists>msg'. stun_msg_chk_mi hmac mem msg k = Some (msg', 0)))
     \<and> (fp \<longrightarrow> (\<exists>msg'. stun_msg_chk_fingerprint msg = Some (msg', 0)))"
proof -
  let ?ty = "STUN_TYPE method cls" and ?A = "msg_attrs ec attrs"
  let ?S = "sent_attrs hmac ?ty tid key fp padding ?A"
  obtain mb' where e: "stun_msg_vencode hmac mem mb method cls tid ec key fp padding attrs = Some (mb', 0)"
    "mb_wrote mb (msg_bytes hmac ?ty tid key fp padding ?A) mb'"
    by (rule vencode_wrote [OF assms(1,3,4,6)])
  have ne: "msg_bytes hmac ?ty tid key fp padding ?A \<noteq> []" by (simp add: msg_bytes_def Let_def hdr_bytes_def be16_nonempty)
  note r = wrote_read [OF e(2) ne assms(6)]
  let ?mb = "mbuf_set_pos mb' (mb_pos mb)"
  have m: "mbuf_in ?mb" "mbuf_rest ?mb = msg_bytes hmac ?ty tid key fp padding ?A"
    using r(1,4) mb_wroteD(4) [OF e(2)] assms(5) by (simp_all add: mbuf_in_def mbuf_set_pos_def ends_def)
  let ?msg = "\<lambda>ws. \<lparr>msg_hdr = \<lparr>sh_type = ?ty, sh_len = of_nat (length (attrs_bytes tid padding ?S)),
      sh_cookie = STUN_MAGIC_COOKIE, sh_tid = tid\<rparr>, msg_attrl = ws, msg_mb = ?mb, msg_start = mb_pos ?mb\<rparr>"
  obtain ws where d: "stun_msg_decode True memo mem ?mb ua = Some (?mb, map_option (\<lambda>u. u\<lparr>ua_typec := 0\<rparr>) ua, Inr (?msg ws))" "decoded ?S ws"
    by (rule decode_msg_bytes [OF assms(1,2,3,4) m])
  have mth: "stun_msg_method (?msg ws) = method" "stun_msg_class (?msg ws) = cls"
    using small_method [OF assms(7)] small_class [OF assms(8)] by (simp_all add: stun_msg_method_def stun_msg_class_def method_type class_type)
  have "\<exists>msg'. stun_msg_chk_mi hmac mem (?msg ws) k = Some (msg', 0)" if "key = Some k" for k
    by (rule chk_mi_sent [OF assms(1,3,4) type_range(1) m(1)]) (use m(2) d(2) that in simp_all)
  moreover have "\<exists>msg'. stun_msg_chk_fingerprint (?msg ws) = Some (msg', 0)" if "fp"
    by (rule chk_fp_sent [OF assms(3,4) m(1)]) (use m(2) d(2) that in simp_all)
  ultimately show ?thesis
    using e(1) d mth by (intro exI [of _ mb'] exI [of _ "?msg ws"]) (simp add: stun_msg_tid_def stun_msg_mcookie_def)
qed

definition demo_hmac :: "bytes \<Rightarrow> bytes \<Rightarrow> bytes" where
  "demo_hmac k d = replicate 20 (foldl (\<lambda>a b. a XOR b) 0 (k @ d))"

definition demo_tid :: bytes where
  "demo_tid = [1, 2, 3, 4, 5, 6, 7, 8, 9, 10, 11, 12]"

definition demo_attrs :: "(u16 \<times> stun_value option) list" where
  "demo_attrs = [(STUN_ATTR_SOFTWARE, Some (VStr [82, 65, 87, 82, 33, 0])),
     (STUN_ATTR_XOR_MAPPED_ADDR, Some (VSa (sa_set_in sa_zero 0xc0a80001 5060))), (STUN_ATTR_PRIORITY, None)]"

lemma demo_msg_ok: "msg_ok demo_tid 0 (msg_attrs None demo_attrs)"
proof -
  let ?s = "VStr [82, 65, 87, 82, 33, 0]" and ?a = "VSa (sa_set_in sa_zero 0xc0a80001 5060)"
  have A: "msg_attrs None demo_attrs = [(STUN_ATTR_SOFTWARE, ?s), (STUN_ATTR_XOR_MAPPED_ADDR, ?a)]"
    by (simp add: msg_attrs_def demo_attrs_def)
  have c: "attr_case_of STUN_ATTR_SOFTWARE = KStr" "attr_case_of STUN_ATTR_XOR_MAPPED_ADDR = KXorAddr"
    by (simp_all add: attr_case_of_def stun_attr_types)
  have "length (attr_bytes t 0 STUN_ATTR_SOFTWARE ?s) = 12" for t
    by (simp add: attr_bytes_def value_chunks_def Let_def padding_of_def)
  moreover have "length (attr_bytes t 0 STUN_ATTR_XOR_MAPPED_ADDR ?a) = 12" for t
    by (simp add: attr_bytes_def value_chunks_def addr_chunks_def Let_def padding_of_def)
  moreover have "value_ok STUN_ATTR_SOFTWARE ?s" "value_ok STUN_ATTR_XOR_MAPPED_ADDR ?a"
    by (simp_all add: value_ok_def c str_ok_def sa_canon_def)
  ultimately show ?thesis
    unfolding msg_ok_def A by (simp add: attrs_bytes_def demo_tid_def MI_SIZE_def FP_SIZE_def stun_attr_types)
qed

theorem stun_msg_roundtrip_witness:
  "\<exists>mb' msg. stun_msg_vencode demo_hmac (\<lambda>_. True) mbuf_init 1 2 demo_tid None (Some [9]) True 0 demo_attrs = Some (mb', 0)
     \<and> stun_msg_decode True (\<lambda>_. True) (\<lambda>_. True) (mbuf_set_pos mb' 0) None = Some (mbuf_set_pos mb' 0, None, Inr msg)
     \<and> stun_msg_method msg = 1 \<and> stun_msg_class msg = 2
     \<and> (\<exists>msg'. stun_msg_chk_mi demo_hmac (\<lambda>_. True) msg [9] = Some (msg', 0))"
proof -
  have h: "\<forall>k d. length (demo_hmac k d) = 20" by (simp add: demo_hmac_def)
  have m: "mbuf_ok mbuf_init" "mb_end mbuf_init \<le> mb_pos mbuf_init" "mb_pos mbuf_init = 0" by (simp_all add: mbuf_init_def mbuf_ok_def)
  show ?thesis
    using stun_msg_roundtrip [of "\<lambda>_. True" "\<lambda>_. True" demo_hmac demo_tid 0 None demo_attrs mbuf_init 1 2 "Some [9]" True None] h demo_msg_ok m
    by auto
qed

text \<open>
  (C14) Whatever packet arrives, and whichever allocations fail, decoding ends and leaves the buffer as it was, and when it gives a message, both checks read
  inside the packet: an attribute that reaches behind the length of the header makes the loop go on to an error.
\<close>

theorem stun_msg_safe:
  assumes "mbuf_ok mb" and "mb_pos mb \<le> mb_end mb"
  shows "\<exists>ua' r. stun_msg_decode mem_msg memo mem mb ua = Some (mb, ua', r)
     \<and> (\<forall>msg. r = Inr msg \<longrightarrow> STUN_HEADER_SIZE + unat (sh_len (msg_hdr msg)) \<le> mbuf_get_left mb
          \<and> (\<exists>c. stun_msg_chk_mi hmac mem msg key = Some c) \<and> (\<exists>c. stun_msg_chk_fingerprint msg = Some c))"
proof -
  have mb: "mbuf_in mb" using assms by (simp add: mbuf_in_def)
  obtain ua' r where d: "stun_msg_decode mem_msg memo mem mb ua = Some (mb, ua', r)" "case r of Inl err \<Rightarrow> err \<noteq> 0 | Inr msg \<Rightarrow> msg_inside mb msg"
    using msg_decode_safe [OF mb] by blast
  have "STUN_HEADER_SIZE + unat (sh_len (msg_hdr msg)) \<le> mbuf_get_left mb
      \<and> (\<exists>c. stun_msg_chk_mi hmac mem msg key = Some c) \<and> (\<exists>c. stun_msg_chk_fingerprint msg = Some c)" if "r = Inr msg" for msg
    using d(2) that chk_safe [OF mb, of msg] by (auto simp: msg_inside_def STUN_HEADER_SIZE_def)
  then show ?thesis using d(1) by blast
qed

definition demo_stun_packet :: mbuf where
  "demo_stun_packet = (let bs = msg_bytes demo_hmac (STUN_TYPE 1 2) demo_tid (Some [9]) True 0 (msg_attrs None demo_attrs)
     in \<lparr>mb_buf = bs, mb_pos = 0, mb_end = length bs\<rparr>)"

theorem stun_msg_safe_witness:
  "\<exists>msg. stun_msg_decode True (\<lambda>_. True) (\<lambda>_. True) demo_stun_packet None = Some (demo_stun_packet, None, Inr msg)
     \<and> (\<exists>c. stun_msg_chk_mi demo_hmac (\<lambda>_. True) msg [8] = Some c) \<and> (\<exists>c. stun_msg_chk_fingerprint msg = Some c)"
proof -
  have p: "mbuf_ok demo_stun_packet" "mb_pos demo_stun_packet \<le> mb_end demo_stun_packet" by (simp_all add: demo_stun_packet_def mbuf_ok_def Let_def)
  have h: "\<forall>k d. length (demo_hmac k d) = 20" by (simp add: demo_hmac_def)
  have "mbuf_in demo_stun_packet" "mbuf_rest demo_stun_packet = msg_bytes demo_hmac (STUN_TYPE 1 2) demo_tid (Some [9]) True 0 (msg_attrs None demo_attrs)"
    using p by (simp_all add: mbuf_in_def demo_stun_packet_def mbuf_rest_def mbuf_get_left_def Let_def)
  from decode_msg_bytes [OF _ _ h demo_msg_ok this, of "\<lambda>_. True" "\<lambda>_. True" None] obtain msg
    where "stun_msg_decode True (\<lambda>_. True) (\<lambda>_. True) demo_stun_packet None = Some (demo_stun_packet, None, Inr msg)" by auto
  then show ?thesis using stun_msg_safe [OF p, of True "\<lambda>_. True" "\<lambda>_. True" None demo_hmac "[8]"] by auto
qed

end
