(* ===== verification/Replay.thy ===== *)
theory Replay
  imports Prelude
begin

text \<open>
  Replay protection of re, \<^verbatim>\<open>deps/re/src/srtp/replay.c\<close>: a window of 64 packet indices below the highest
  one received. The contract of a replay filter is a locale: which packets a receiver may accept is
  a function of the packets it has accepted.
\<close>

unbundle bit_operations_syntax

section \<open>Operations\<close>

record replay =
  bitmap :: u64
  lix :: u64

definition SRTP_WINDOW_SIZE :: nat where "SRTP_WINDOW_SIZE = 64"

definition srtp_replay_init :: replay where
  "srtp_replay_init = \<lparr>bitmap = 0, lix = 0\<rparr>"

definition srtp_replay_check :: "replay \<Rightarrow> u64 \<Rightarrow> replay \<times> bool" where
  "srtp_replay_check r ix =
     (if ix > lix r then
        (let diff = ix - lix r;
             r = (if diff < of_nat SRTP_WINDOW_SIZE then r\<lparr>bitmap := push_bit (unat diff) (bitmap r) OR 1\<rparr>
                  else r\<lparr>bitmap := 1\<rparr>)
         in (r\<lparr>lix := ix\<rparr>, True))
      else
        (let diff = lix r - ix in
         if diff \<ge> of_nat SRTP_WINDOW_SIZE then (r, False)
         else if bitmap r AND push_bit (unat diff) 1 \<noteq> 0 then (r, False)
         else (r\<lparr>bitmap := bitmap r OR push_bit (unat diff) 1\<rparr>, True)))"

section \<open>The contract of a replay filter\<close>

text \<open>The verdicts of a filter on a sequence of indices.\<close>

fun verdicts :: "('r \<Rightarrow> 'i \<Rightarrow> 'r \<times> bool) \<Rightarrow> 'r \<Rightarrow> 'i list \<Rightarrow> bool list" where
  "verdicts check r [] = []"
| "verdicts check r (i # is) = (case check r i of (r', b) \<Rightarrow> b # verdicts check r' is)"

text \<open>The same verdicts from the set of accepted indices alone.\<close>

fun spec_verdicts :: "('i set \<Rightarrow> 'i \<Rightarrow> bool) \<Rightarrow> 'i set \<Rightarrow> 'i list \<Rightarrow> bool list" where
  "spec_verdicts fresh S [] = []"
| "spec_verdicts fresh S (i # is) = fresh S i # spec_verdicts fresh (if fresh S i then insert i S else S) is"

definition accepted :: "bool list \<Rightarrow> 'i list \<Rightarrow> 'i list" where
  "accepted bs is = map snd (filter fst (zip bs is))"

lemma accepted_simps [simp]:
  "accepted [] is = []" "accepted (b # bs) (i # is) = (if b then i # accepted bs is else accepted bs is)"
  by (simp_all add: accepted_def)

locale replay_filter =
  fixes init :: 'r and check :: "'r \<Rightarrow> 'i \<Rightarrow> 'r \<times> bool"
    and fresh :: "'i set \<Rightarrow> 'i \<Rightarrow> bool" and knows :: "'r \<Rightarrow> 'i set \<Rightarrow> bool"
  assumes knows_init: "knows init {}"
    and check_fresh: "knows r S \<Longrightarrow> snd (check r i) = fresh S i"
    and check_knows: "knows r S \<Longrightarrow> knows (fst (check r i)) (if fresh S i then insert i S else S)"
    and fresh_new: "fresh S i \<Longrightarrow> i \<notin> S"
begin

lemma verdicts_spec: "knows r S \<Longrightarrow> verdicts check r is = spec_verdicts fresh S is"
proof (induction "is" arbitrary: r S)
  case (Cons i "is")
  then show ?case
    using check_fresh [of r S i] check_knows [of r S i] by (simp add: case_prod_unfold)
qed simp

lemma spec_accepted: "distinct (accepted (spec_verdicts fresh S is) is) \<and> set (accepted (spec_verdicts fresh S is) is) \<inter> S = {}"
proof (induction "is" arbitrary: S)
  case (Cons i "is")
  from Cons.IH [of "insert i S"] Cons.IH [of S] fresh_new [of S i] show ?case by auto
qed simp

lemma accepts_once: "distinct (accepted (verdicts check init is) is)"
  using spec_accepted [of "{}"] verdicts_spec [OF knows_init] by metis

lemma verdicts_exact: "verdicts check init is = spec_verdicts fresh {} is"
  by (rule verdicts_spec [OF knows_init])

end

section \<open>The window implements the contract\<close>

text \<open>
  The window of re: an index is fresh when it is above the highest accepted one, or less than 64
  below it and not accepted yet.
\<close>

definition highest :: "u64 set \<Rightarrow> u64" where
  "highest S = Max (insert 0 S)"

definition window_fresh :: "u64 set \<Rightarrow> u64 \<Rightarrow> bool" where
  "window_fresh S i \<longleftrightarrow> i > highest S \<or> (unat (highest S) - unat i < SRTP_WINDOW_SIZE \<and> i \<notin> S)"

definition window_knows :: "replay \<Rightarrow> u64 set \<Rightarrow> bool" where
  "window_knows r S \<longleftrightarrow> lix r = highest S
     \<and> (\<forall>i \<le> lix r. unat (lix r) - unat i < SRTP_WINDOW_SIZE \<longrightarrow> bit (bitmap r) (unat (lix r) - unat i) = (i \<in> S))"

lemma finite_u64 [simp]: "finite (S :: u64 set)"
  by (rule finite_subset [OF subset_UNIV]) simp

lemma highest_insert: "highest (insert i S) = max i (highest S)"
  by (simp add: highest_def insert_commute [of 0 i])

lemma highest_ge: "i \<in> S \<Longrightarrow> i \<le> highest S"
  by (simp add: highest_def)

lemma bit_single_u64: "n < 64 \<Longrightarrow> bit ((2 :: u64) ^ k) n \<longleftrightarrow> n = k"
  using bit_exp_iff [of k n, where 'a = u64] by auto

lemma bit_shifted: "n < 64 \<Longrightarrow> bit (push_bit k (x :: u64) OR 1) n \<longleftrightarrow> n = 0 \<or> (k \<le> n \<and> bit x (n - k))"
  by (auto simp: bit_or_iff bit_push_bit_iff bit_1_iff)

lemma window_size: "(d < of_nat SRTP_WINDOW_SIZE) = (unat (d :: u64) < 64)" "(of_nat SRTP_WINDOW_SIZE \<le> d) = (64 \<le> unat d)"
  by (simp_all add: SRTP_WINDOW_SIZE_def word_less_nat_alt word_le_nat_alt)

lemma knows_bit:
  "window_knows r S \<Longrightarrow> i \<le> lix r \<Longrightarrow> unat (lix r) - unat i < 64 \<Longrightarrow> bit (bitmap r) (unat (lix r) - unat i) = (i \<in> S)"
  by (auto simp: window_knows_def SRTP_WINDOW_SIZE_def)

lemma window_check_new:
  assumes k: "window_knows r S" and new: "i > lix r"
  shows "window_knows (fst (srtp_replay_check r i)) (insert i S)"
proof -
  have top: "lix r = highest S" using k by (simp add: window_knows_def)
  have absent: "j \<notin> S" if "unat j > unat (lix r)" for j
    using that highest_ge [of j S] top by (auto simp: word_le_nat_alt)
  let ?d = "unat (i - lix r)"
  have d: "?d = unat i - unat (lix r)" "0 < ?d" using new by (simp_all add: unat_sub word_less_nat_alt order.strict_implies_order word_le_nat_alt)
  let ?b = "if ?d < 64 then push_bit ?d (bitmap r) OR 1 else (1 :: u64)"
  have step: "fst (srtp_replay_check r i) = \<lparr>bitmap = ?b, lix = i\<rparr>"
    using new by (simp add: srtp_replay_check_def Let_def window_size)
  have "bit ?b (unat i - unat j) = (j \<in> insert i S)" if "j \<le> i" "unat i - unat j < 64" for j
  proof (cases "unat j > unat (lix r)")
    case True
    then have "bit ?b (unat i - unat j) = (unat i - unat j = 0)"
      using that d by (auto simp: bit_shifted bit_1_iff)
    then show ?thesis using absent [OF True] that by (auto simp: word_le_nat_alt word_unat_eq_iff)
  next
    case False
    then have lt: "?d < 64" "?d \<le> unat i - unat j" "unat i - unat j - ?d = unat (lix r) - unat j" "j \<noteq> i"
      using that d new by (auto simp: word_le_nat_alt word_less_nat_alt)
    then have "bit ?b (unat i - unat j) = bit (bitmap r) (unat (lix r) - unat j)"
      using that d by (auto simp: bit_shifted)
    also have "\<dots> = (j \<in> S)" using knows_bit [OF k, of j] False that lt by (auto simp: word_le_nat_alt)
    finally show ?thesis using lt by simp
  qed
  moreover have "highest (insert i S) = i" using new top by (simp add: highest_insert max_absorb1)
  ultimately show ?thesis by (simp add: window_knows_def step SRTP_WINDOW_SIZE_def)
qed

lemma window_check_old:
  assumes k: "window_knows r S" and old: "i \<le> lix r"
  shows "snd (srtp_replay_check r i) = window_fresh S i"
    and "window_knows (fst (srtp_replay_check r i)) (if window_fresh S i then insert i S else S)"
proof -
  have top: "lix r = highest S" using k by (simp add: window_knows_def)
  let ?d = "unat (lix r) - unat i"
  have d: "unat (lix r - i) = ?d" using old by (simp add: unat_sub word_le_nat_alt)
  have fresh: "window_fresh S i = (?d < 64 \<and> \<not> bit (bitmap r) ?d)"
    using knows_bit [OF k old] old top by (auto simp: window_fresh_def SRTP_WINDOW_SIZE_def)
  have step: "srtp_replay_check r i =
      (if window_fresh S i then (r\<lparr>bitmap := bitmap r OR push_bit ?d 1\<rparr>, True) else (r, False))"
    using old d by (auto simp: srtp_replay_check_def Let_def window_size and_exp_eq_0_iff_not_bit fresh not_less)
  then show "snd (srtp_replay_check r i) = window_fresh S i" by simp
  show "window_knows (fst (srtp_replay_check r i)) (if window_fresh S i then insert i S else S)"
  proof (cases "window_fresh S i")
    case False
    then show ?thesis using k step by simp
  next
    case True
    have "bit (bitmap r OR push_bit ?d 1) (unat (lix r) - unat j) = (j \<in> insert i S)"
      if "j \<le> lix r" "unat (lix r) - unat j < 64" for j
    proof -
      have "(unat (lix r) - unat j = ?d) = (j = i)"
        using that old by (auto simp: word_le_nat_alt word_unat_eq_iff)
      then show ?thesis using knows_bit [OF k that] that(2) by (auto simp: bit_or_iff bit_single_u64)
    qed
    moreover have "highest (insert i S) = lix r" using old top by (simp add: highest_insert max_absorb2)
    ultimately show ?thesis using True step top by (simp add: window_knows_def SRTP_WINDOW_SIZE_def)
  qed
qed

interpretation re_window: replay_filter srtp_replay_init srtp_replay_check window_fresh window_knows
proof unfold_locales
  show "window_knows srtp_replay_init {}"
    by (simp add: window_knows_def srtp_replay_init_def highest_def)
next
  fix r S i
  assume k: "window_knows r S"
  then have top: "lix r = highest S" by (simp add: window_knows_def)
  have new: "window_fresh S i \<and> snd (srtp_replay_check r i)" if "i > lix r"
    using that top by (simp add: window_fresh_def srtp_replay_check_def Let_def)
  show "snd (srtp_replay_check r i) = window_fresh S i"
    using new window_check_old(1) [OF k] by (meson not_less)
  show "window_knows (fst (srtp_replay_check r i)) (if window_fresh S i then insert i S else S)"
    using new window_check_new [OF k] window_check_old(2) [OF k] by (metis not_less)
next
  fix S i
  show "window_fresh S i \<Longrightarrow> i \<notin> S" using highest_ge [of i S] by (auto simp: window_fresh_def)
qed

section \<open>Receivers with a window for each source\<close>

text \<open>
  A receiver takes packets one after another and names those it accepts by their source and
  index. When it accepts a packet only after the window of the source has let its index pass, and does not otherwise touch
  a window but by checking it, it accepts none twice. RTP and RTCP are received in this way.
\<close>

fun accept_run :: "('s \<Rightarrow> 'p \<Rightarrow> ('s \<times> ('k \<times> u64) option) option) \<Rightarrow> 's \<Rightarrow> 'p list \<Rightarrow> ('k \<times> u64) list option" where
  "accept_run recv s [] = Some []"
| "accept_run recv s (p # ps) = do {
     (s', r) \<leftarrow> recv s p;
     ids \<leftarrow> accept_run recv s' ps;
     Some (case r of Some i \<Rightarrow> i # ids | None \<Rightarrow> ids)
   }"

locale guarded_receiver =
  fixes ok :: "'s \<Rightarrow> bool" and win :: "'s \<Rightarrow> 'k \<Rightarrow> replay"
    and recv :: "'s \<Rightarrow> 'p \<Rightarrow> ('s \<times> ('k \<times> u64) option) option"
  assumes recv_ok: "ok s \<Longrightarrow> recv s p = Some (s', r) \<Longrightarrow> ok s'"
    and recv_window: "ok s \<Longrightarrow> recv s p = Some (s', r) \<Longrightarrow>
      (r = None \<and> win s' = win s)
      \<or> (\<exists>k ix. r \<in> {None, Some (k, ix)} \<and> win s' = (win s)(k := fst (srtp_replay_check (win s k) ix))
          \<and> (r \<noteq> None \<longrightarrow> snd (srtp_replay_check (win s k) ix)))"
begin

lemma accept_new:
  assumes "ok s" and "\<And>k. window_knows (win s k) (A k)" and "accept_run recv s ps = Some ids"
  shows "distinct ids \<and> (\<forall>(k, ix) \<in> set ids. ix \<notin> A k)"
  using assms
proof (induction ps arbitrary: s A ids)
  case (Cons p ps)
  obtain s' r ids' where d: "recv s p = Some (s', r)" "accept_run recv s' ps = Some ids'"
    "ids = (case r of Some i \<Rightarrow> i # ids' | None \<Rightarrow> ids')"
    using Cons.prems(3) by (auto split: bind_splits)
  note IH = Cons.IH [OF recv_ok [OF Cons.prems(1) d(1)] _ d(2)]
  from recv_window [OF Cons.prems(1) d(1)] show ?case
  proof (elim disjE exE conjE)
    assume "r = None" "win s' = win s"
    then show ?thesis using IH [of A] Cons.prems(2) d(3) by simp
  next
    fix k ix assume r: "r \<in> {None, Some (k, ix)}" "win s' = (win s)(k := fst (srtp_replay_check (win s k) ix))"
      "r \<noteq> None \<longrightarrow> snd (srtp_replay_check (win s k) ix)"
    let ?A = "A(k := if window_fresh (A k) ix then insert ix (A k) else A k)"
    have "window_knows (win s' x) (?A x)" for x
      using Cons.prems(2) re_window.check_knows [of "win s k" "A k" ix] r(2) by simp
    note IH' = IH [of ?A, OF this]
    have sub: "A x \<subseteq> ?A x" for x by auto
    have "r \<noteq> None \<Longrightarrow> window_fresh (A k) ix"
      using r(3) re_window.check_fresh [OF Cons.prems(2)] by blast
    then have "r \<noteq> None \<Longrightarrow> ix \<notin> A k \<and> ix \<in> ?A k" using re_window.fresh_new by auto
    then show ?thesis using IH' sub d(3) r(1) by (cases r) (auto split: if_splits)
  qed
qed simp

lemma accepts_distinct:
  assumes "ok s" and "\<And>k. win s k = srtp_replay_init" and "accept_run recv s ps = Some ids"
  shows "distinct ids"
  using accept_new [OF assms(1) _ assms(3), of "\<lambda>_. {}"] assms(2) re_window.knows_init by simp

end

section \<open>Properties\<close>

text \<open>
  (C11) The replay window of a new stream decides every packet exactly: the verdicts on a sequence of
  indices are those of the rule that a packet passes when it is above the highest accepted index, or
  less than 64 below it and not accepted before. So no index is accepted twice.
\<close>

theorem replay_window_exact:
  "verdicts srtp_replay_check srtp_replay_init is = spec_verdicts window_fresh {} is
   \<and> distinct (accepted (verdicts srtp_replay_check srtp_replay_init is) is)"
  using re_window.verdicts_exact re_window.accepts_once by blast

end
