(* ===== verification/Srtp.thy ===== *)
theory Srtp
  imports Rtp Replay
begin

text \<open>
  Secure RTP of re, \<^verbatim>\<open>deps/re/src/srtp\<close>: the table of streams, index estimation, key derivation, and
  the protection of packets. AES and HMAC are behind an interface of the repository (\<^verbatim>\<open>re_aes.h\<close>,
  \<^verbatim>\<open>re_hmac.h\<close>) that OpenSSL implements; they are the argument \<open>cr\<close> of the operations.
\<close>

section \<open>The interface of the ciphers\<close>

datatype aes_mode = AES_MODE_CTR | AES_MODE_GCM

text \<open>
  \<open>aes_encr\<close> and \<open>aes_decr\<close> return the bytes they write and an error code; with a null output they take
  associated data. The length of a key is that of its list.
\<close>

record ('a, 'h) crypto =
  aes_alloc :: "aes_mode \<Rightarrow> bytes \<Rightarrow> bytes option \<Rightarrow> int + 'a"
  aes_set_iv :: "'a \<Rightarrow> bytes \<Rightarrow> 'a"
  aes_encr :: "'a \<Rightarrow> bytes \<Rightarrow> 'a \<times> bytes \<times> int"
  aes_encr_ad :: "'a \<Rightarrow> bytes \<Rightarrow> 'a \<times> int"
  aes_decr :: "'a \<Rightarrow> bytes \<Rightarrow> 'a \<times> bytes \<times> int"
  aes_decr_ad :: "'a \<Rightarrow> bytes \<Rightarrow> 'a \<times> int"
  aes_get_authtag :: "'a \<Rightarrow> nat \<Rightarrow> 'a \<times> bytes \<times> int"
  aes_authenticate :: "'a \<Rightarrow> bytes \<Rightarrow> 'a \<times> int"
  hmac_create :: "bytes \<Rightarrow> int + 'h"
  hmac_digest :: "'h \<Rightarrow> bytes \<Rightarrow> bytes \<times> int"

definition AES_BLOCK_SIZE :: nat where "AES_BLOCK_SIZE = 16"
definition SHA_DIGEST_LENGTH :: nat where "SHA_DIGEST_LENGTH = 20"
definition GCM_TAGLEN :: nat where "GCM_TAGLEN = 16"
definition MAX_KEYLEN :: nat where "MAX_KEYLEN = 32"
definition SRTP_MAX_STREAMS :: nat where "SRTP_MAX_STREAMS = 8"

lemmas srtp_consts [rawr_defs] = AES_BLOCK_SIZE_def SHA_DIGEST_LENGTH_def GCM_TAGLEN_def MAX_KEYLEN_def SRTP_MAX_STREAMS_def

section \<open>Sessions and streams\<close>

record srtp_stream =
  strm_replay_rtp :: replay
  strm_replay_rtcp :: replay
  strm_ssrc :: u32
  strm_roc :: u32
  strm_s_l :: u16
  strm_s_l_set :: bool
  strm_rtcp_index :: u32

record ('a, 'h) comp =
  comp_aes :: "'a option"
  comp_mode :: aes_mode
  comp_hmac :: "'h option"
  comp_k_s :: bytes
  comp_tag_len :: nat

record ('a, 'h) srtp =
  srtp_rtp :: "('a, 'h) comp"
  srtp_rtcp :: "('a, 'h) comp"
  srtp_streaml :: "srtp_stream list"

datatype srtp_suite = SRTP_AES_CM_128_HMAC_SHA1_32 | SRTP_AES_CM_128_HMAC_SHA1_80
  | SRTP_AES_256_CM_HMAC_SHA1_32 | SRTP_AES_256_CM_HMAC_SHA1_80 | SRTP_AES_128_GCM | SRTP_AES_256_GCM

fun srtp_suite_name :: "srtp_suite \<Rightarrow> string" where
  "srtp_suite_name SRTP_AES_CM_128_HMAC_SHA1_32 = ''AES_CM_128_HMAC_SHA1_32''"
| "srtp_suite_name SRTP_AES_CM_128_HMAC_SHA1_80 = ''AES_CM_128_HMAC_SHA1_80''"
| "srtp_suite_name SRTP_AES_256_CM_HMAC_SHA1_32 = ''AES_256_CM_HMAC_SHA1_32''"
| "srtp_suite_name SRTP_AES_256_CM_HMAC_SHA1_80 = ''AES_256_CM_HMAC_SHA1_80''"
| "srtp_suite_name SRTP_AES_128_GCM = ''AEAD_AES_128_GCM''"
| "srtp_suite_name SRTP_AES_256_GCM = ''AEAD_AES_256_GCM''"

text \<open>A stream is referred to by its place in the list, which only grows.\<close>

fun stream_find :: "srtp_stream list \<Rightarrow> u32 \<Rightarrow> nat option" where
  "stream_find [] ssrc = None"
| "stream_find (strm # streams) ssrc =
     (if strm_ssrc strm = ssrc then Some 0 else map_option Suc (stream_find streams ssrc))"

text \<open>\<open>mem_strm\<close> tells whether the allocation of a stream succeeds.\<close>

definition stream_new :: "bool \<Rightarrow> ('a, 'h) srtp \<Rightarrow> u32 \<Rightarrow> ('a, 'h) srtp \<times> (int + nat)" where
  "stream_new mem_strm srtp ssrc =
     (if length (srtp_streaml srtp) \<ge> SRTP_MAX_STREAMS then (srtp, Inl ENOSR)
      else if \<not> mem_strm then (srtp, Inl ENOMEM)
      else (srtp\<lparr>srtp_streaml := srtp_streaml srtp @
              [\<lparr>strm_replay_rtp = srtp_replay_init, strm_replay_rtcp = srtp_replay_init, strm_ssrc = ssrc,
                strm_roc = 0, strm_s_l = 0, strm_s_l_set = False, strm_rtcp_index = 0\<rparr>]\<rparr>,
            Inr (length (srtp_streaml srtp))))"

definition stream_get :: "bool \<Rightarrow> ('a, 'h) srtp \<Rightarrow> u32 \<Rightarrow> ('a, 'h) srtp \<times> (int + nat)" where
  "stream_get mem_strm srtp ssrc =
     (case stream_find (srtp_streaml srtp) ssrc of
        Some i \<Rightarrow> (srtp, Inr i)
      | None \<Rightarrow> stream_new mem_strm srtp ssrc)"

definition stream_get_seq :: "bool \<Rightarrow> ('a, 'h) srtp \<Rightarrow> u32 \<Rightarrow> u16 \<Rightarrow> ('a, 'h) srtp \<times> (int + nat)" where
  "stream_get_seq mem_strm srtp ssrc seq =
     (case stream_get mem_strm srtp ssrc of
        (srtp, Inl err) \<Rightarrow> (srtp, Inl err)
      | (srtp, Inr i) \<Rightarrow>
          (let strm = srtp_streaml srtp ! i
           in (if strm_s_l_set strm then srtp
               else srtp\<lparr>srtp_streaml := (srtp_streaml srtp)[i := strm\<lparr>strm_s_l := seq, strm_s_l_set := True\<rparr>]\<rparr>,
               Inr i)))"

section \<open>Index, keys and vectors\<close>

text \<open>
  The guess \<open>v\<close> has type \<^verbatim>\<open>int\<close>, to which an unsigned value above \<open>2 ^ 31\<close> converts by wrap-around; \<^verbatim>\<open>v*65536\<close>
  is a product of \<^verbatim>\<open>int\<close>, so its overflow is a fault. The sum converts to 64 bits with its sign.
\<close>

definition srtp_get_index :: "u32 \<Rightarrow> u16 \<Rightarrow> u16 \<Rightarrow> u64 option" where
  "srtp_get_index roc s_l seq =
     (let v = sint (if uint s_l < 32768
                    then (if uint seq - uint s_l > 32768 then (roc - 1) AND 0xffffffff else roc)
                    else (if uint s_l - 32768 > uint seq then (roc + 1) AND 0xffffffff else roc))
      in if - (2 ^ 31) \<le> v * 65536 \<and> v * 65536 + uint seq < 2 ^ 31 then Some (word_of_int (uint seq + v * 65536)) else None)"

text \<open>\<open>out\<close> is what the output buffer holds before; its length is \<^verbatim>\<open>out_len\<close>.\<close>

definition srtp_derive :: "('a, 'h) crypto \<Rightarrow> bytes \<Rightarrow> u8 \<Rightarrow> bytes \<Rightarrow> bytes \<Rightarrow> bytes \<times> int" where
  "srtp_derive cr out label key salt =
     (if length out > AES_BLOCK_SIZE * 2 \<or> length salt > AES_BLOCK_SIZE then (out, EINVAL)
      else (let x = patch (replicate AES_BLOCK_SIZE 0) 0 salt; x = x[7 := (x ! 7) XOR label]
            in case aes_alloc cr AES_MODE_CTR key (Some x) of
                 Inl err \<Rightarrow> (out, err)
               | Inr aes \<Rightarrow> (case aes_encr cr aes (replicate (length out) 0) of (_, out, err) \<Rightarrow> (out, err))))"

definition srtp_iv_calc :: "bytes \<Rightarrow> u32 \<Rightarrow> u64 \<Rightarrow> bytes" where
  "srtp_iv_calc k_s ssrc ix =
     le32 (ld32 k_s 0) @ le32 (ld32 k_s 4 XOR htonl ssrc) @ le32 (ld32 k_s 8 XOR htonl (ucast (drop_bit 16 ix)))
     @ le16 (ld16 k_s 12 XOR htons (ucast ix)) @ le16 0"

text \<open>The vector of GCM has 12 bytes; the rest of the union is not read.\<close>

definition srtp_iv_calc_gcm :: "bytes \<Rightarrow> u32 \<Rightarrow> u64 \<Rightarrow> bytes" where
  "srtp_iv_calc_gcm k_s ssrc ix =
     le16 (ld16 k_s 0) @ le16 (ld16 k_s 2 XOR htons (ucast (drop_bit 16 ssrc)))
     @ le16 (ld16 k_s 4 XOR htons (ucast (ssrc AND 0xffff)))
     @ le16 (ld16 k_s 6 XOR htons (ucast (drop_bit 32 ix AND 0xffff)))
     @ le16 (ld16 k_s 8 XOR htons (ucast (drop_bit 16 ix AND 0xffff)))
     @ le16 (ld16 k_s 10 XOR htons (ucast (ix AND 0xffff)))"

definition comp_zero :: "('a, 'h) comp" where
  "comp_zero = \<lparr>comp_aes = None, comp_mode = AES_MODE_CTR, comp_hmac = None, comp_k_s = replicate 16 0, comp_tag_len = 0\<rparr>"

definition comp_init ::
  "('a, 'h) crypto \<Rightarrow> ('a, 'h) comp \<Rightarrow> u8 \<Rightarrow> bytes \<Rightarrow> bytes \<Rightarrow> nat \<Rightarrow> bool \<Rightarrow> bool \<Rightarrow> aes_mode \<Rightarrow> ('a, 'h) comp \<times> int" where
  "comp_init cr c offs key s tag_len encrypted hash mode =
     (if length key > MAX_KEYLEN then (c, EINVAL)
      else if tag_len > SHA_DIGEST_LENGTH then (c, EINVAL)
      else (let c = c\<lparr>comp_tag_len := tag_len, comp_mode := mode\<rparr> in
        case srtp_derive cr (replicate (length key) 0) (0 + offs) key s of (k_e, e1) \<Rightarrow>
        case srtp_derive cr (replicate SHA_DIGEST_LENGTH 0) (1 + offs) key s of (k_a, e2) \<Rightarrow>
        case srtp_derive cr (take 14 (comp_k_s c)) (2 + offs) key s of (k_s, e3) \<Rightarrow>
        (let c = c\<lparr>comp_k_s := k_s @ drop 14 (comp_k_s c)\<rparr>; err = e1 OR e2 OR e3 in
         if err \<noteq> 0 then (c, err)
         else
           (case (if encrypted then (case aes_alloc cr mode k_e None of Inl err \<Rightarrow> (c, err)
                                     | Inr aes \<Rightarrow> (c\<lparr>comp_aes := Some aes\<rparr>, 0)) else (c, 0)) of (c, err) \<Rightarrow>
            if err \<noteq> 0 then (c, err)
            else if hash then (case hmac_create cr k_a of Inl err \<Rightarrow> (c, err) | Inr h \<Rightarrow> (c\<lparr>comp_hmac := Some h\<rparr>, 0))
            else (c, err)))))"

text \<open>Mode, length of key, salt and tag, and whether the tag is an HMAC.\<close>

fun suite_params :: "srtp_suite \<Rightarrow> aes_mode \<times> nat \<times> nat \<times> nat \<times> bool" where
  "suite_params SRTP_AES_CM_128_HMAC_SHA1_80 = (AES_MODE_CTR, 16, 14, 10, True)"
| "suite_params SRTP_AES_CM_128_HMAC_SHA1_32 = (AES_MODE_CTR, 16, 14, 4, True)"
| "suite_params SRTP_AES_256_CM_HMAC_SHA1_80 = (AES_MODE_CTR, 32, 14, 10, True)"
| "suite_params SRTP_AES_256_CM_HMAC_SHA1_32 = (AES_MODE_CTR, 32, 14, 4, True)"
| "suite_params SRTP_AES_128_GCM = (AES_MODE_GCM, 16, 12, 0, False)"
| "suite_params SRTP_AES_256_GCM = (AES_MODE_GCM, 32, 12, 0, False)"

text \<open>\<open>unencrypted_srtcp\<close> is the flag \<^verbatim>\<open>SRTP_UNENCRYPTED_SRTCP\<close>.\<close>

definition srtp_alloc :: "('a, 'h) crypto \<Rightarrow> bool \<Rightarrow> srtp_suite \<Rightarrow> bytes \<Rightarrow> bool \<Rightarrow> int + ('a, 'h) srtp" where
  "srtp_alloc cr mem_srtp suite key unencrypted_srtcp =
     (case suite_params suite of (mode, cipher_bytes, salt_bytes, auth_bytes, hash) \<Rightarrow>
      if cipher_bytes + salt_bytes \<noteq> length key then Inl EINVAL
      else if \<not> mem_srtp then Inl ENOMEM
      else (let master_salt = drop cipher_bytes key in
        case comp_init cr comp_zero 0 (take cipher_bytes key) master_salt auth_bytes True hash mode of (rtp, e1) \<Rightarrow>
        case comp_init cr comp_zero 3 (take cipher_bytes key) master_salt auth_bytes (\<not> unencrypted_srtcp) hash mode of (rtcp, e2) \<Rightarrow>
        (let err = e1 OR e2
         in if err \<noteq> 0 then Inl err
            else Inr \<lparr>srtp_rtp = rtp, srtp_rtcp = rtcp, srtp_streaml = []\<rparr>)))"

section \<open>Protection of RTP packets\<close>

definition seq_diff :: "u16 \<Rightarrow> u16 \<Rightarrow> int" where
  "seq_diff x y = uint y - uint x"

text \<open>A header that is not initialised; decoding sets what is used of it.\<close>

definition hdr_local :: rtp_header where
  "hdr_local = \<lparr>hdr_ver = 0, hdr_pad = False, hdr_ext = False, hdr_cc = 0, hdr_m = False, hdr_pt = 0, hdr_seq = 0,
     hdr_ts = 0, hdr_ssrc = 0, hdr_csrc = replicate 16 0, hdr_x_type = 0, hdr_x_len = 0\<rparr>"

text \<open>
  The cipher runs in place on the bytes from the position on, \<open>n\<close> of them. The parts of the two
  operations return the component, the buffer and an error code.
\<close>

definition cipher_in_place ::
  "('a \<Rightarrow> bytes \<Rightarrow> 'a \<times> bytes \<times> int) \<Rightarrow> 'a \<Rightarrow> mbuf \<Rightarrow> nat \<Rightarrow> ('a \<times> mbuf \<times> int) option" where
  "cipher_in_place f aes mb n = do {
     p \<leftarrow> mem_read (mb_buf mb) (mb_pos mb) n;
     case f aes p of (aes, out, err) \<Rightarrow> do {
       buf \<leftarrow> mem_write (mb_buf mb) (mb_pos mb) out;
       Some (aes, mb\<lparr>mb_buf := buf\<rparr>, err)
     }
   }"

definition ctr_encrypt :: "('a, 'h) crypto \<Rightarrow> ('a, 'h) comp \<Rightarrow> 'a \<Rightarrow> u32 \<Rightarrow> u64 \<Rightarrow> mbuf \<Rightarrow> (('a, 'h) comp \<times> mbuf \<times> int) option" where
  "ctr_encrypt cr cmp aes ssrc ix mb =
     map_option (\<lambda>(aes, mb, err). (cmp\<lparr>comp_aes := Some aes\<rparr>, mb, err))
       (cipher_in_place (aes_encr cr) (aes_set_iv cr aes (srtp_iv_calc (comp_k_s cmp) ssrc ix)) mb (mbuf_get_left mb))"

definition gcm_encrypt ::
  "('a, 'h) crypto \<Rightarrow> (nat \<Rightarrow> bool) \<Rightarrow> ('a, 'h) comp \<Rightarrow> 'a \<Rightarrow> u32 \<Rightarrow> u64 \<Rightarrow> nat \<Rightarrow> mbuf \<Rightarrow> (('a, 'h) comp \<times> mbuf \<times> int) option" where
  "gcm_encrypt cr mem cmp aes ssrc ix start mb =
     (let aes = aes_set_iv cr aes (srtp_iv_calc_gcm (comp_k_s cmp) ssrc ix) in do {
        ad \<leftarrow> mem_read (mb_buf mb) start (mb_pos mb - start);
        case aes_encr_ad cr aes ad of (aes, err) \<Rightarrow>
        if err \<noteq> 0 then Some (cmp\<lparr>comp_aes := Some aes\<rparr>, mb, err)
        else do {
          (aes, mb, err) \<leftarrow> cipher_in_place (aes_encr cr) aes mb (mbuf_get_left mb);
          if err \<noteq> 0 then Some (cmp\<lparr>comp_aes := Some aes\<rparr>, mb, err)
          else (case aes_get_authtag cr aes GCM_TAGLEN of (aes, tag, err) \<Rightarrow>
            if err \<noteq> 0 then Some (cmp\<lparr>comp_aes := Some aes\<rparr>, mb, err)
            else (case mbuf_write_mem mem (mb\<lparr>mb_pos := mb_end mb\<rparr>) tag of (mb, err) \<Rightarrow>
              Some (cmp\<lparr>comp_aes := Some aes\<rparr>, mb, err)))
        }
      })"

text \<open>The tag is the digest of the packet and the roll-over counter, which it replaces.\<close>

definition tag_append :: "('a, 'h) crypto \<Rightarrow> (nat \<Rightarrow> bool) \<Rightarrow> ('a, 'h) comp \<Rightarrow> u32 \<Rightarrow> nat \<Rightarrow> mbuf \<Rightarrow> (mbuf \<times> int) option" where
  "tag_append cr mem cmp roc start mb =
     (case comp_hmac cmp of
        None \<Rightarrow> Some (mb, 0)
      | Some h \<Rightarrow>
          (let tag_start = mb_end mb in
           case mbuf_write_u32 mem (mb\<lparr>mb_pos := tag_start\<rparr>) (htonl roc) of (mb, err) \<Rightarrow>
           if err \<noteq> 0 then Some (mb, err)
           else (let mb = mb\<lparr>mb_pos := start\<rparr> in do {
             d \<leftarrow> mem_read (mb_buf mb) (mb_pos mb) (mbuf_get_left mb);
             case hmac_digest cr h d of (tag, err) \<Rightarrow>
             if err \<noteq> 0 then Some (mb, err)
             else do {
               tag \<leftarrow> mem_read tag 0 (comp_tag_len cmp);
               Some (mbuf_write_mem mem (mb\<lparr>mb_pos := tag_start, mb_end := tag_start\<rparr>) tag)
             }
           })))"

definition srtp_encrypt ::
  "('a, 'h) crypto \<Rightarrow> (nat \<Rightarrow> bool) \<Rightarrow> bool \<Rightarrow> ('a, 'h) srtp \<Rightarrow> mbuf \<Rightarrow> (('a, 'h) srtp \<times> mbuf \<times> int) option" where
  "srtp_encrypt cr mem mem_strm srtp mb =
     (let start = mb_pos mb in do {
        (hdr, mb, err) \<leftarrow> rtp_hdr_decode hdr_local mb;
        if err \<noteq> 0 then Some (srtp, mb, err)
        else (case stream_get_seq mem_strm srtp (hdr_ssrc hdr) (hdr_seq hdr) of
            (srtp, Inl err) \<Rightarrow> Some (srtp, mb, err)
          | (srtp, Inr i) \<Rightarrow>
              (let strm = srtp_streaml srtp ! i;
                   strm = (if seq_diff (strm_s_l strm) (hdr_seq hdr) \<le> - 32768
                           then strm\<lparr>strm_roc := strm_roc strm + 1, strm_s_l := 0\<rparr> else strm);
                   srtp = srtp\<lparr>srtp_streaml := (srtp_streaml srtp)[i := strm]\<rparr>;
                   ix = 65536 * ucast (strm_roc strm) + ucast (hdr_seq hdr);
                   cmp = srtp_rtp srtp
               in do {
                 (cmp, mb, err) \<leftarrow>
                   (case comp_aes cmp of
                      None \<Rightarrow> Some (cmp, mb, 0)
                    | Some aes \<Rightarrow>
                        (case comp_mode cmp of
                           AES_MODE_CTR \<Rightarrow> ctr_encrypt cr cmp aes (strm_ssrc strm) ix mb
                         | AES_MODE_GCM \<Rightarrow> gcm_encrypt cr mem cmp aes (strm_ssrc strm) ix start mb));
                 let srtp = srtp\<lparr>srtp_rtp := cmp\<rparr>
                 in if err \<noteq> 0 then Some (srtp, mb, err)
                    else do {
                      (mb, err) \<leftarrow> tag_append cr mem cmp (strm_roc strm) start mb;
                      if err \<noteq> 0 then Some (srtp, mb, err)
                      else Some (srtp\<lparr>srtp_streaml := (srtp_streaml srtp)
                                   [i := if hdr_seq hdr > strm_s_l strm then strm\<lparr>strm_s_l := hdr_seq hdr\<rparr> else strm]\<rparr>,
                                 mb\<lparr>mb_pos := start\<rparr>, 0)
                    }
               }))
      })"

text \<open>
  The receiver's stream for a packet, its state after a roll-over, and the index of the packet. The error
  is that of the stream table or a packet too far ahead.
\<close>

definition receive_index ::
  "bool \<Rightarrow> ('a, 'h) srtp \<Rightarrow> rtp_header \<Rightarrow> (('a, 'h) srtp \<times> (int + nat \<times> u64)) option" where
  "receive_index mem_strm srtp hdr =
     (case stream_get_seq mem_strm srtp (hdr_ssrc hdr) (hdr_seq hdr) of
        (srtp, Inl err) \<Rightarrow> Some (srtp, Inl err)
      | (srtp, Inr i) \<Rightarrow>
          (let strm = srtp_streaml srtp ! i; diff = seq_diff (strm_s_l strm) (hdr_seq hdr) in
           if diff > 32768 then Some (srtp, Inl ETIMEDOUT)
           else (let strm = (if diff \<le> - 32768 then strm\<lparr>strm_roc := strm_roc strm + 1, strm_s_l := 0\<rparr> else strm);
                     srtp = srtp\<lparr>srtp_streaml := (srtp_streaml srtp)[i := strm]\<rparr>
                 in map_option (\<lambda>ix. (srtp, Inr (i, ix))) (srtp_get_index (strm_roc strm) (strm_s_l strm) (hdr_seq hdr)))))"

text \<open>The tag is taken off the packet and compared with the digest of the rest and the counter.\<close>

definition tag_check :: "('a, 'h) crypto \<Rightarrow> (nat \<Rightarrow> bool) \<Rightarrow> ('a, 'h) comp \<Rightarrow> 'h \<Rightarrow> u32 \<Rightarrow> nat \<Rightarrow> mbuf \<Rightarrow> (mbuf \<times> int) option" where
  "tag_check cr mem cmp h roc start mb =
     (if mbuf_get_left mb < comp_tag_len cmp then Some (mb, EBADMSG)
      else (let pld_start = mb_pos mb; tag_start = mb_end mb - comp_tag_len cmp in do {
        (mb, r) \<leftarrow> mbuf_read_mem (mb\<lparr>mb_pos := tag_start\<rparr>) (comp_tag_len cmp);
        (case r of
           Inl err \<Rightarrow> Some (mb, err)
         | Inr tag_pkt \<Rightarrow>
             (case mbuf_write_u32 mem (mb\<lparr>mb_pos := tag_start, mb_end := tag_start\<rparr>) (htonl roc) of (mb, err) \<Rightarrow>
              if err \<noteq> 0 then Some (mb, err)
              else (let mb = mb\<lparr>mb_pos := start\<rparr> in do {
                d \<leftarrow> mem_read (mb_buf mb) (mb_pos mb) (mbuf_get_left mb);
                case hmac_digest cr h d of (tag_calc, err) \<Rightarrow>
                if err \<noteq> 0 then Some (mb, err)
                else (let mb = mb\<lparr>mb_pos := pld_start, mb_end := tag_start\<rparr> in do {
                  tag_calc \<leftarrow> mem_read tag_calc 0 (comp_tag_len cmp);
                  Some (mb, if tag_calc \<noteq> tag_pkt then EAUTH else 0)
                })
              })))
      }))"

definition ctr_decrypt :: "('a, 'h) crypto \<Rightarrow> ('a, 'h) comp \<Rightarrow> 'a \<Rightarrow> u32 \<Rightarrow> u64 \<Rightarrow> mbuf \<Rightarrow> (('a, 'h) comp \<times> mbuf \<times> int) option" where
  "ctr_decrypt cr cmp aes ssrc ix mb =
     map_option (\<lambda>(aes, mb, err). (cmp\<lparr>comp_aes := Some aes\<rparr>, mb, err))
       (cipher_in_place (aes_decr cr) (aes_set_iv cr aes (srtp_iv_calc (comp_k_s cmp) ssrc ix)) mb (mbuf_get_left mb))"

definition gcm_decrypt ::
  "('a, 'h) crypto \<Rightarrow> ('a, 'h) comp \<Rightarrow> 'a \<Rightarrow> u32 \<Rightarrow> u64 \<Rightarrow> nat \<Rightarrow> mbuf \<Rightarrow> (('a, 'h) comp \<times> mbuf \<times> int) option" where
  "gcm_decrypt cr cmp aes ssrc ix start mb =
     (let aes = aes_set_iv cr aes (srtp_iv_calc_gcm (comp_k_s cmp) ssrc ix) in do {
        ad \<leftarrow> mem_read (mb_buf mb) start (mb_pos mb - start);
        case aes_decr_ad cr aes ad of (aes, err) \<Rightarrow>
        if err \<noteq> 0 then Some (cmp\<lparr>comp_aes := Some aes\<rparr>, mb, err)
        else if mbuf_get_left mb < GCM_TAGLEN then Some (cmp\<lparr>comp_aes := Some aes\<rparr>, mb, EBADMSG)
        else (let tag_start = mb_end mb - GCM_TAGLEN in do {
          (aes, mb, err) \<leftarrow> cipher_in_place (aes_decr cr) aes mb (tag_start - mb_pos mb);
          if err \<noteq> 0 then Some (cmp\<lparr>comp_aes := Some aes\<rparr>, mb, err)
          else do {
            tag \<leftarrow> mem_read (mb_buf mb) tag_start GCM_TAGLEN;
            case aes_authenticate cr aes tag of (aes, err) \<Rightarrow>
            Some (cmp\<lparr>comp_aes := Some aes\<rparr>, if err \<noteq> 0 then mb else mb\<lparr>mb_end := tag_start\<rparr>, err)
          }
        })
      })"

text \<open>The replay window of stream \<open>i\<close>; \<open>EALREADY\<close> for an index it does not let pass.\<close>

definition replay_rtp :: "('a, 'h) srtp \<Rightarrow> nat \<Rightarrow> u64 \<Rightarrow> ('a, 'h) srtp \<times> int" where
  "replay_rtp srtp i ix =
     (let strm = srtp_streaml srtp ! i in
      case srtp_replay_check (strm_replay_rtp strm) ix of (r, b) \<Rightarrow>
        (srtp\<lparr>srtp_streaml := (srtp_streaml srtp)[i := strm\<lparr>strm_replay_rtp := r\<rparr>]\<rparr>, if b then 0 else EALREADY))"

definition srtp_decrypt ::
  "('a, 'h) crypto \<Rightarrow> (nat \<Rightarrow> bool) \<Rightarrow> bool \<Rightarrow> ('a, 'h) srtp \<Rightarrow> mbuf \<Rightarrow> (('a, 'h) srtp \<times> mbuf \<times> int) option" where
  "srtp_decrypt cr mem mem_strm srtp mb =
     (let start = mb_pos mb in do {
        (hdr, mb, err) \<leftarrow> rtp_hdr_decode hdr_local mb;
        if err \<noteq> 0 then Some (srtp, mb, err)
        else do {
          (srtp, r) \<leftarrow> receive_index mem_strm srtp hdr;
          (case r of
             Inl err \<Rightarrow> Some (srtp, mb, err)
           | Inr (i, ix) \<Rightarrow>
               (let strm = srtp_streaml srtp ! i; cmp = srtp_rtp srtp in do {
                  (mb, err) \<leftarrow> (case comp_hmac cmp of None \<Rightarrow> Some (mb, 0)
                                | Some h \<Rightarrow> tag_check cr mem cmp h (strm_roc strm) start mb);
                  if err \<noteq> 0 then Some (srtp, mb, err)
                  else (case (if comp_hmac cmp = None then (srtp, 0) else replay_rtp srtp i ix) of (srtp, err) \<Rightarrow>
                    if err \<noteq> 0 then Some (srtp, mb, err)
                    else do {
                      (cmp, mb, err) \<leftarrow>
                        (case comp_aes cmp of
                           None \<Rightarrow> Some (cmp, mb, 0)
                         | Some aes \<Rightarrow>
                             (case comp_mode cmp of
                                AES_MODE_CTR \<Rightarrow> ctr_decrypt cr cmp aes (strm_ssrc strm) ix mb
                              | AES_MODE_GCM \<Rightarrow> gcm_decrypt cr cmp aes (strm_ssrc strm) ix start mb));
                      let srtp = srtp\<lparr>srtp_rtp := cmp\<rparr>
                      in if err \<noteq> 0 then Some (srtp, mb, err)
                         else (case (if comp_aes cmp \<noteq> None \<and> comp_mode cmp = AES_MODE_GCM
                                     then replay_rtp srtp i ix else (srtp, 0)) of (srtp, err) \<Rightarrow>
                           if err \<noteq> 0 then Some (srtp, mb, err)
                           else (let strm = srtp_streaml srtp ! i
                                 in Some (srtp\<lparr>srtp_streaml := (srtp_streaml srtp)
                                            [i := if hdr_seq hdr > strm_s_l strm then strm\<lparr>strm_s_l := hdr_seq hdr\<rparr> else strm]\<rparr>,
                                          mb\<lparr>mb_pos := start\<rparr>, 0)))
                    })
                }))
        }
      })"

end
