(* ===== verification/SrtpSession.thy ===== *)
theory SrtpSession
  imports Srtp
begin

text \<open>
  Properties of secure RTP: the estimate of a packet's index, what protection puts on the wire, that
  a receiver recovers what a sender protected, also when packets are lost, and that no packet is
  accepted twice.
\<close>

section \<open>Indices\<close>

text \<open>The index of a packet: roll-over counter and sequence number.\<close>

definition ext_index :: "u32 \<Rightarrow> u16 \<Rightarrow> nat" where
  "ext_index roc seq = 65536 * unat roc + unat seq"

text \<open>
  The packets a stream at index \<open>I\<close> can place: up to 32767 ahead of it, or behind it by less than 32768
  with the same roll-over counter.
\<close>

definition near :: "nat \<Rightarrow> nat \<Rightarrow> bool" where
  "near I n \<longleftrightarrow> (I \<le> n \<and> n \<le> I + 32767) \<or> (n < I \<and> I < n + 32768 \<and> n div 65536 = I div 65536)"

lemma uint_unat_u16: "uint (x :: u16) = int (unat x)" "unat x < 65536"
  using unsigned_less [of x] by simp_all

lemma near_cases:
  assumes "near (65536 * r + s) (65536 * q + m)" and "s < 65536" and "m < (65536 :: nat)"
  obtains "q = r" "int m - int s < 32768" "int m - int s > - 32768" | "q = Suc r" "int m - int s \<le> - 32769"
proof -
  have d: "(65536 * q + m) div 65536 = q" "(65536 * r + s) div 65536 = r" using assms by simp_all
  then consider "65536 * r + s \<le> 65536 * q + m" "65536 * q + m \<le> 65536 * r + s + 32767"
    | "q = r" "65536 * q + m < 65536 * r + s" "65536 * r + s < 65536 * q + m + 32768"
    using assms(1) unfolding near_def by metis
  then show ?thesis
  proof cases
    case 1
    have "r \<le> q" "q \<le> Suc r" using 1 assms(2,3) by linarith+
    then consider "q = r" | "q = Suc r" by linarith
    then show ?thesis
    proof cases
      case a: 1
      have "int m - int s < 32768" "int m - int s > - 32768" using 1 unfolding a by linarith+
      then show ?thesis by (rule that(1) [OF a])
    next
      case b: 2
      have "int m - int s \<le> - 32769" using 1 unfolding b by simp
      then show ?thesis by (rule that(2) [OF b])
    qed
  next
    case 2
    have "int m - int s < 32768" "int m - int s > - 32768" using 2(2,3) unfolding 2(1) by linarith+
    then show ?thesis by (rule that(1) [OF 2(1)])
  qed
qed

lemma sint_small:
  assumes "uint (x :: u32) < 2 ^ 31"
  shows "sint x = uint x"
proof -
  have "- 2147483648 \<le> uint x" using uint_ge_0 [of x] by linarith
  then have "- (2 ^ 31) \<le> uint x" by simp
  then have "signed_take_bit 31 (uint x) = uint x" using assms by (rule signed_take_bit_int_eq_self)
  then show ?thesis by (simp add: sint_uint)
qed

lemma get_index_same:
  assumes "unat roc < 32768" and "\<bar>uint seq - uint s_l\<bar> < 32768"
  shows "srtp_get_index roc s_l seq = Some (of_nat (ext_index roc seq))"
proof -
  have "uint roc = int (unat roc)" by simp
  then have "uint roc < 32768" using assms(1) by linarith
  then have v: "sint roc = uint roc" by (simp add: sint_small)
  have b: "0 \<le> uint roc" "0 \<le> uint seq" "uint seq < 65536" using unsigned_less [of seq] by simp_all
  then have range: "- 2147483648 \<le> uint roc * 65536" "uint roc * 65536 + uint seq < 2147483648"
    using \<open>uint roc < 32768\<close> by linarith+
  have pick: "(if uint s_l < 32768
                 then (if uint seq - uint s_l > 32768 then a else roc)
                 else (if uint s_l - 32768 > uint seq then b else roc)) = roc" for a b
    using assms(2) by (simp add: abs_less_iff)
  have "int (ext_index roc seq) = uint seq + uint roc * 65536" by (simp add: ext_index_def)
  then have "of_nat (ext_index roc seq) = (word_of_int (uint seq + uint roc * 65536) :: u64)"
    using of_int_of_nat_eq [of "ext_index roc seq", where 'a = u64] by simp
  then show ?thesis unfolding srtp_get_index_def pick Let_def v using range by simp
qed

text \<open>The state of a stream once it has placed a packet, before and after it is taken in.\<close>

definition rolled :: "srtp_stream \<Rightarrow> u16 \<Rightarrow> srtp_stream" where
  "rolled strm seq = (if seq_diff (strm_s_l strm) seq \<le> - 32768
     then strm\<lparr>strm_roc := strm_roc strm + 1, strm_s_l := 0\<rparr> else strm)"

definition taken :: "srtp_stream \<Rightarrow> u16 \<Rightarrow> srtp_stream" where
  "taken strm seq = (if seq > strm_s_l strm then strm\<lparr>strm_s_l := seq\<rparr> else strm)"

definition strm_at :: "srtp_stream \<Rightarrow> nat" where
  "strm_at strm = ext_index (strm_roc strm) (strm_s_l strm)"

lemma rolled_frame [simp]:
  "strm_ssrc (rolled strm seq) = strm_ssrc strm" "strm_replay_rtp (rolled strm seq) = strm_replay_rtp strm"
  "strm_s_l_set (rolled strm seq) = strm_s_l_set strm"
  by (simp_all add: rolled_def)

lemma taken_frame [simp]:
  "strm_ssrc (taken strm seq) = strm_ssrc strm" "strm_replay_rtp (taken strm seq) = strm_replay_rtp strm"
  "strm_s_l_set (taken strm seq) = strm_s_l_set strm" "strm_roc (taken strm seq) = strm_roc strm"
  by (simp_all add: taken_def)

lemma place:
  assumes near: "near (strm_at strm) n" and n: "n < 2147483648"
  shows "seq_diff (strm_s_l strm) (of_nat n) \<le> 32768"
    and "unat (strm_roc (rolled strm (of_nat n))) = n div 65536"
    and "\<bar>uint (of_nat n :: u16) - uint (strm_s_l (rolled strm (of_nat n)))\<bar> < 32768"
    and "strm_at (taken (rolled strm (of_nat n)) (of_nat n)) = max (strm_at strm) n"
proof -
  let ?roc = "strm_roc strm" and ?sl = "strm_s_l strm"
  define r where "r = unat ?roc"
  define s where "s = unat ?sl"
  define q where "q = n div 65536"
  define m where "m = n mod 65536"
  have n': "n = 65536 * q + m" by (simp add: q_def m_def)
  have b: "s < 65536" "m < 65536" "q < 32768" using n by (auto simp: s_def m_def q_def uint_unat_u16)
  have seq: "unat (of_nat n :: u16) = m" by (simp add: unat_of_nat m_def)
  have useq: "uint (of_nat n :: u16) = int m" "uint ?sl = int s" unfolding uint_unat_u16(1) seq s_def by (rule refl)+
  have nr: "near (65536 * r + s) (65536 * q + m)"
    using near by (simp add: strm_at_def ext_index_def r_def s_def n')
  have diff: "seq_diff ?sl (of_nat n) = int m - int s" by (simp add: seq_diff_def useq)
  from nr b(1,2) have "seq_diff ?sl (of_nat n) \<le> 32768
    \<and> unat (strm_roc (rolled strm (of_nat n))) = q
    \<and> \<bar>uint (of_nat n :: u16) - uint (strm_s_l (rolled strm (of_nat n)))\<bar> < 32768
    \<and> strm_at (taken (rolled strm (of_nat n)) (of_nat n)) = max (strm_at strm) n"
  proof (cases rule: near_cases)
    case 1
    then have same: "rolled strm (of_nat n) = strm" by (simp add: rolled_def diff)
    have gt: "(of_nat n > ?sl) = (m > s)" by (simp add: word_less_nat_alt seq s_def)
    have "strm_at (taken strm (of_nat n)) = max (strm_at strm) n"
      using 1 gt seq by (auto simp: taken_def strm_at_def ext_index_def r_def s_def n' max_def)
    then show ?thesis using 1 by (simp add: same diff useq r_def)
  next
    case 2
    have up: "unat (?roc + 1) = Suc r"
      using 2 b(3) unat_add_lt [of ?roc 1] by (simp add: r_def)
    have roll: "rolled strm (of_nat n) = strm\<lparr>strm_roc := ?roc + 1, strm_s_l := 0\<rparr>"
      using 2 by (simp add: rolled_def diff)
    have "strm_at (taken (rolled strm (of_nat n)) (of_nat n)) = 65536 * Suc r + m"
      unfolding roll by (simp add: taken_def strm_at_def ext_index_def up seq word_less_nat_alt)
    then have "strm_at (taken (rolled strm (of_nat n)) (of_nat n)) = n" using 2 n' by simp
    moreover have "strm_at strm \<le> n" using 2 b by (simp add: strm_at_def ext_index_def n' flip: r_def s_def)
    ultimately show ?thesis using 2 up b by (simp add: diff roll useq max_def)
  qed
  then show "seq_diff (strm_s_l strm) (of_nat n) \<le> 32768" "unat (strm_roc (rolled strm (of_nat n))) = n div 65536"
    "\<bar>uint (of_nat n :: u16) - uint (strm_s_l (rolled strm (of_nat n)))\<bar> < 32768"
    "strm_at (taken (rolled strm (of_nat n)) (of_nat n)) = max (strm_at strm) n"
    by (simp_all add: q_def)
qed

section \<open>The table of streams\<close>

lemma stream_find_Some: "stream_find ss ssrc = Some i \<Longrightarrow> i < length ss \<and> strm_ssrc (ss ! i) = ssrc"
  by (induction ss arbitrary: i) (auto split: if_splits)

lemma stream_find_update:
  "strm_ssrc s' = strm_ssrc (ss ! i) \<Longrightarrow> i < length ss \<Longrightarrow> stream_find (ss[i := s']) ssrc = stream_find ss ssrc"
proof (induction ss arbitrary: i)
  case (Cons s ss)
  then show ?case by (cases i) auto
qed simp

lemma stream_find_append:
  "stream_find (ss @ [s]) ssrc = (case stream_find ss ssrc of Some i \<Rightarrow> Some i
     | None \<Rightarrow> if strm_ssrc s = ssrc then Some (length ss) else None)"
  by (induction ss) (auto split: option.splits)

text \<open>A session that can place the packet with index \<open>n\<close> of a stream, and the stream's replay window.\<close>

definition awaits :: "('a, 'h) srtp \<Rightarrow> u32 \<Rightarrow> nat \<Rightarrow> bool" where
  "awaits srtp ssrc n \<longleftrightarrow>
     (case stream_find (srtp_streaml srtp) ssrc of
        None \<Rightarrow> n < 65536 \<and> length (srtp_streaml srtp) < SRTP_MAX_STREAMS
      | Some i \<Rightarrow> (let strm = srtp_streaml srtp ! i
                  in if strm_s_l_set strm then near (strm_at strm) n else strm_roc strm = 0 \<and> n < 65536))"

definition window_of :: "('a, 'h) srtp \<Rightarrow> u32 \<Rightarrow> replay" where
  "window_of srtp ssrc = (case stream_find (srtp_streaml srtp) ssrc of
     None \<Rightarrow> srtp_replay_init | Some i \<Rightarrow> strm_replay_rtp (srtp_streaml srtp ! i))"

definition start_at :: "('a, 'h) srtp \<Rightarrow> u32 \<Rightarrow> nat \<Rightarrow> nat" where
  "start_at srtp ssrc n = (case stream_find (srtp_streaml srtp) ssrc of
     None \<Rightarrow> n | Some i \<Rightarrow> if strm_s_l_set (srtp_streaml srtp ! i) then strm_at (srtp_streaml srtp ! i) else n)"

lemma near_self: "near n n"
  by (simp add: near_def)

lemma at_first: "n < 65536 \<Longrightarrow> ext_index 0 (of_nat n) = n"
  by (simp add: ext_index_def unat_of_nat)

lemma get_seq_awaits:
  assumes "awaits srtp ssrc n"
  obtains ss i where "stream_get_seq True srtp ssrc (of_nat n) = (srtp\<lparr>srtp_streaml := ss\<rparr>, Inr i)"
    "stream_find ss ssrc = Some i" "strm_s_l_set (ss ! i)" "near (strm_at (ss ! i)) n"
    "strm_replay_rtp (ss ! i) = window_of srtp ssrc" "strm_at (ss ! i) = start_at srtp ssrc n"
proof (cases "stream_find (srtp_streaml srtp) ssrc")
  case None
  let ?new = "\<lparr>strm_replay_rtp = srtp_replay_init, strm_replay_rtcp = srtp_replay_init, strm_ssrc = ssrc,
    strm_roc = 0, strm_s_l = of_nat n, strm_s_l_set = True, strm_rtcp_index = 0\<rparr>"
  have "n < 65536" using assms None by (simp add: awaits_def)
  then show ?thesis
    using assms None
    by (intro that [of "srtp_streaml srtp @ [?new]" "length (srtp_streaml srtp)"])
      (simp_all add: stream_get_seq_def stream_get_def stream_new_def awaits_def Let_def stream_find_append
        window_of_def start_at_def strm_at_def at_first near_self)
next
  case (Some i)
  let ?s = "srtp_streaml srtp ! i"
  note i = stream_find_Some [OF Some]
  have at: "strm_s_l_set ?s \<longrightarrow> near (strm_at ?s) n" "\<not> strm_s_l_set ?s \<longrightarrow> strm_roc ?s = 0 \<and> n < 65536"
    using assms Some by (simp_all add: awaits_def Let_def)
  show ?thesis
  proof (cases "strm_s_l_set ?s")
    case True
    then show ?thesis
      using i at Some
      by (intro that [of "srtp_streaml srtp" i]) (simp_all add: stream_get_seq_def stream_get_def window_of_def start_at_def)
  next
    case False
    then show ?thesis
      using i at Some
      by (intro that [of "(srtp_streaml srtp)[i := ?s\<lparr>strm_s_l := of_nat n, strm_s_l_set := True\<rparr>]" i])
        (simp_all add: stream_get_seq_def stream_get_def Let_def stream_find_update window_of_def start_at_def strm_at_def at_first near_self)
  qed
qed

section \<open>Packets in a buffer\<close>

text \<open>A buffer that holds \<open>xs\<close>, with the position \<open>k\<close> bytes into it.\<close>

definition lay :: "bytes \<Rightarrow> bytes \<Rightarrow> bytes \<Rightarrow> nat \<Rightarrow> mbuf" where
  "lay pre xs post k = \<lparr>mb_buf = pre @ xs @ post, mb_pos = length pre + k, mb_end = length pre + length xs\<rparr>"

lemma lay_simps [simp]:
  "mb_buf (lay pre xs post k) = pre @ xs @ post" "mb_pos (lay pre xs post k) = length pre + k"
  "mb_end (lay pre xs post k) = length pre + length xs" "mbuf_ok (lay pre xs post k)"
  "mbuf_get_left (lay pre xs post k) = length xs - k" "advance j (lay pre xs post k) = lay pre xs post (k + j)"
  "(lay pre xs post k)\<lparr>mb_pos := length pre + j\<rparr> = lay pre xs post j"
  "(lay pre xs post k)\<lparr>mb_pos := length pre\<rparr> = lay pre xs post 0"
  by (simp_all add: lay_def mbuf_ok_def mbuf_get_left_def advance_def)

lemma rest_lay [simp]: "mbuf_rest (lay pre xs post k) = drop k xs"
  by (simp add: mbuf_rest_def)

lemma lay_exists:
  assumes "mbuf_ok mb" and "mb_pos mb \<le> mb_end mb"
  obtains pre post where "mb = lay pre (mbuf_rest mb) post 0" "length post = length (mb_buf mb) - mb_end mb"
proof (rule that)
  let ?pre = "take (mb_pos mb) (mb_buf mb)" and ?post = "drop (mb_end mb) (mb_buf mb)"
  have rest: "mbuf_rest mb = take (mb_end mb - mb_pos mb) (drop (mb_pos mb) (mb_buf mb))"
    using assms by (simp add: mbuf_rest_def mbuf_get_left_def)
  have "drop (mb_pos mb) (mb_buf mb) = mbuf_rest mb @ ?post"
    unfolding rest using assms(2) by (metis append_take_drop_id drop_drop le_add_diff_inverse2)
  then have "mb_buf mb = ?pre @ mbuf_rest mb @ ?post" by (metis append_take_drop_id)
  moreover have "length (mbuf_rest mb) = mb_end mb - mb_pos mb" using assms by (simp add: rest mbuf_ok_def)
  ultimately show "mb = lay ?pre (mbuf_rest mb) ?post 0"
    using assms by (cases mb) (simp add: lay_def mbuf_ok_def)
  show "length ?post = length (mb_buf mb) - mb_end mb" by simp
qed

lemma cipher_lay:
  assumes "f a p = (a', c, e)" and "length c = length p" and "k = length xs"
  shows "cipher_in_place f a (lay pre (xs @ p) post k) (length p) = Some (a', lay pre (xs @ c) post k, e)"
  using assms by (simp add: cipher_in_place_def mem_simps patch_def lay_def)

lemma write_lay:
  assumes "length bs \<le> length post" and "k = length xs"
  shows "mbuf_write_mem mem (lay pre xs post k) bs = (lay pre (xs @ bs) (drop (length bs) post) (k + length bs), 0)"
proof -
  have "mb_pos (lay pre xs post k) + length bs \<le> length (mb_buf (lay pre xs post k))" using assms by simp
  then show ?thesis using assms by (simp add: mbuf_write_fits) (simp add: lay_def patch_def)
qed

lemma lay_cut: "(lay pre (xs @ ys) post k)\<lparr>mb_end := length pre + length xs\<rparr> = lay pre xs (ys @ post) k"
  by (simp add: lay_def)

section \<open>The laws of the ciphers\<close>

text \<open>
  AES in counter mode: an object with key \<open>k\<close> and vector \<open>iv\<close> adds the key stream, which is undone by
  doing it again. \<open>key a\<close> is the key of an object in counter mode. HMAC-SHA1 gives 20 bytes.
\<close>

definition ctr_laws :: "('a, 'h) crypto \<Rightarrow> ('a \<Rightarrow> bytes option) \<Rightarrow> (bytes \<Rightarrow> bytes \<Rightarrow> bytes \<Rightarrow> bytes) \<Rightarrow> bool" where
  "ctr_laws cr key enc \<longleftrightarrow>
     (\<forall>a k iv p. key a = Some k \<longrightarrow> (\<exists>a'. aes_encr cr (aes_set_iv cr a iv) p = (a', enc k iv p, 0) \<and> key a' = Some k))
   \<and> (\<forall>a k iv p. key a = Some k \<longrightarrow> (\<exists>a'. aes_decr cr (aes_set_iv cr a iv) p = (a', enc k iv p, 0) \<and> key a' = Some k))
   \<and> (\<forall>k iv p. length (enc k iv p) = length p \<and> enc k iv (enc k iv p) = p)"

definition hmac_laws :: "('a, 'h) crypto \<Rightarrow> bool" where
  "hmac_laws cr \<longleftrightarrow> (\<forall>h d. \<exists>tag. hmac_digest cr h d = (tag, 0) \<and> length tag = SHA_DIGEST_LENGTH)"

text \<open>A component in counter mode with key \<open>k\<close>, HMAC \<open>h\<close>, salting key \<open>s\<close> and a tag of \<open>t\<close> bytes.\<close>

definition ctr_comp :: "('a \<Rightarrow> bytes option) \<Rightarrow> bytes \<Rightarrow> 'h \<Rightarrow> bytes \<Rightarrow> nat \<Rightarrow> ('a, 'h) comp \<Rightarrow> bool" where
  "ctr_comp key k h s t c \<longleftrightarrow> (\<exists>a. comp_aes c = Some a \<and> key a = Some k) \<and> comp_mode c = AES_MODE_CTR
     \<and> comp_hmac c = Some h \<and> comp_k_s c = s \<and> comp_tag_len c = t \<and> 4 \<le> t \<and> t \<le> SHA_DIGEST_LENGTH"

text \<open>What goes on the wire for header \<open>H\<close> and payload \<open>p\<close> of the packet with index \<open>n\<close>, as RFC 3711 has it.\<close>

definition auth_tag :: "('a, 'h) crypto \<Rightarrow> 'h \<Rightarrow> nat \<Rightarrow> u32 \<Rightarrow> bytes \<Rightarrow> bytes" where
  "auth_tag cr h t roc xs = take t (fst (hmac_digest cr h (xs @ be32 roc)))"

definition protected ::
  "('a, 'h) crypto \<Rightarrow> (bytes \<Rightarrow> bytes \<Rightarrow> bytes \<Rightarrow> bytes) \<Rightarrow> bytes \<Rightarrow> 'h \<Rightarrow> bytes \<Rightarrow> nat \<Rightarrow> u32 \<Rightarrow> nat \<Rightarrow> bytes \<Rightarrow> bytes \<Rightarrow> bytes" where
  "protected cr enc k h s t ssrc n H p =
     (let c = enc k (srtp_iv_calc s ssrc (of_nat n)) p
      in H @ c @ auth_tag cr h t (of_nat (n div 65536)) (H @ c))"

lemma length_auth_tag: "hmac_laws cr \<Longrightarrow> t \<le> SHA_DIGEST_LENGTH \<Longrightarrow> length (auth_tag cr h t roc xs) = t"
  unfolding hmac_laws_def auth_tag_def by (metis fst_conv length_take min.absorb2)

lemma tag_append_lay:
  assumes "hmac_laws cr" and c: "ctr_comp key k h s t c" and room: "4 \<le> length post" "t \<le> length post"
  shows "\<exists>post' j. tag_append cr mem c roc (length pre) (lay pre xs post i) =
     Some (lay pre (xs @ auth_tag cr h t roc xs) post' j, 0)"
proof -
  have h: "comp_hmac c = Some h" "comp_tag_len c = t" "t \<le> SHA_DIGEST_LENGTH" using c by (auto simp: ctr_comp_def)
  let ?post = "drop 4 post" and ?d = "xs @ be32 roc"
  obtain tag where tag: "hmac_digest cr h ?d = (tag, 0)" "length tag = SHA_DIGEST_LENGTH"
    using assms(1) unfolding hmac_laws_def by meson
  have at: "auth_tag cr h t roc xs = take t tag" by (simp add: auth_tag_def tag(1))
  have w1: "mbuf_write_mem mem (lay pre xs post (length xs)) (be32 roc) = (lay pre ?d ?post (length xs + 4), 0)"
    using room write_lay [of "be32 roc" post "length xs" xs mem pre] by simp
  have w2: "mbuf_write_mem mem (lay pre xs (be32 roc @ ?post) (length xs)) (take t tag) =
      (lay pre (xs @ take t tag) (drop t (be32 roc @ ?post)) (length xs + t), 0)"
    using room h(3) tag(2) write_lay [of "take t tag" "be32 roc @ ?post" "length xs" xs mem pre] by simp
  show ?thesis
    using h tag w1 w2 at
    by (simp add: tag_append_def Let_def mbuf_write_u32_def le_bswap mem_simps lay_cut) blast
qed

text \<open>The receiver takes the same tag off again.\<close>

lemma tag_check_lay:
  assumes "hmac_laws cr" and c: "ctr_comp key k h s t c" and i: "i \<le> length xs" and tg: "tg = auth_tag cr h t roc xs"
  shows "\<exists>post'. tag_check cr mem c h roc (length pre) (lay pre (xs @ tg) post i) = Some (lay pre xs post' i, 0)"
proof -
  have h: "comp_tag_len c = t" "t \<le> SHA_DIGEST_LENGTH" "4 \<le> t" using c by (auto simp: ctr_comp_def)
  obtain tag where tag: "hmac_digest cr h (xs @ be32 roc) = (tag, 0)" "length tag = SHA_DIGEST_LENGTH"
    using assms(1) unfolding hmac_laws_def by meson
  have at: "tg = take t tag" "length tg = t" using h by (simp_all add: tg auth_tag_def tag)
  have read: "mbuf_read_mem (lay pre (xs @ tg) post (length xs)) t = Some (lay pre (xs @ tg) post (length xs + t), Inr tg)"
    using at(2) h by (simp add: reads)
  have w: "mbuf_write_mem mem (lay pre xs (tg @ post) (length xs)) (be32 roc) =
      (lay pre (xs @ be32 roc) (drop 4 (tg @ post)) (length xs + 4), 0)"
    using at(2) h write_lay [of "be32 roc" "tg @ post" "length xs" xs mem pre] by simp
  have tc: "mem_read tag 0 t = Some tg" using tag(2) h at(1) by (simp add: mem_simps)
  have "\<not> length xs + t - i < t" using i by simp
  then show ?thesis
    using h at(2) tag(1) read w tc i
    by (auto simp: tag_check_def Let_def mbuf_write_u32_def le_bswap mem_simps lay_cut)
qed

section \<open>One packet\<close>

lemma length_rtp_hdr_bytes: "hdr_ok hdr \<Longrightarrow> length (rtp_hdr_bytes hdr) = 12 + 4 * unat (hdr_cc hdr)"
  by (simp add: rtp_hdr_bytes_def hdr_ok_def length_concat comp_def sum_list_triv word_less_nat_alt)

lemma decode_lay:
  assumes "hdr_ok hdr"
  obtains h where "rtp_hdr_decode hdr_local (lay pre (rtp_hdr_bytes hdr @ p) post 0) =
      Some (h, lay pre (rtp_hdr_bytes hdr @ p) post (length (rtp_hdr_bytes hdr)), 0)"
    "hdr_ssrc h = hdr_ssrc hdr" "hdr_seq h = hdr_seq hdr"
  using decode_hdr_bytes [of "lay pre (rtp_hdr_bytes hdr @ p) post 0" hdr p hdr_local] assms that
  by (simp add: hdr_local_def length_rtp_hdr_bytes)

text \<open>What a session becomes when it has placed the packet with index \<open>n\<close>: its cipher may have moved on, the
  stream is at the larger of its index and \<open>n\<close>.\<close>

definition advanced :: "('a, 'h) srtp \<Rightarrow> u32 \<Rightarrow> nat \<Rightarrow> ('a, 'h) srtp \<Rightarrow> bool" where
  "advanced srtp ssrc n srtp' \<longleftrightarrow> (\<exists>i. stream_find (srtp_streaml srtp') ssrc = Some i \<and> strm_s_l_set (srtp_streaml srtp' ! i)
     \<and> strm_at (srtp_streaml srtp' ! i) = max (start_at srtp ssrc n) n)"

lemma index_word: "unat roc = n div 65536 \<Longrightarrow> seq = of_nat n \<Longrightarrow>
   65536 * ucast (roc :: u32) + ucast (seq :: u16) = (of_nat n :: u64)"
proof -
  assume r: "unat roc = n div 65536" and s: "seq = of_nat n"
  have "unat seq = n mod 65536" by (simp add: s unat_of_nat)
  moreover have "ucast roc = (of_nat (unat roc) :: u64)" "ucast seq = (of_nat (unat seq) :: u64)" by simp_all
  moreover have "(of_nat n :: u64) = of_nat (65536 * (n div 65536) + n mod 65536)" by simp
  ultimately show ?thesis using r by (metis of_nat_add of_nat_mult of_nat_numeral)
qed

lemma encrypt_packet:
  assumes laws: "ctr_laws cr key enc" "hmac_laws cr" and c: "ctr_comp key k h s t (srtp_rtp srtp)"
    and aw: "awaits srtp (hdr_ssrc hdr) n" "n < 2147483648" "hdr_seq hdr = of_nat n" and hdr: "hdr_ok hdr"
    and room: "4 \<le> length post" "t \<le> length post"
  shows "\<exists>srtp' post'. srtp_encrypt cr mem True srtp (lay pre (rtp_hdr_bytes hdr @ p) post 0) =
      Some (srtp', lay pre (protected cr enc k h s t (hdr_ssrc hdr) n (rtp_hdr_bytes hdr) p) post' 0, 0)
    \<and> ctr_comp key k h s t (srtp_rtp srtp') \<and> advanced srtp (hdr_ssrc hdr) n srtp'"
proof -
  let ?H = "rtp_hdr_bytes hdr" and ?ssrc = "hdr_ssrc hdr" and ?seq = "of_nat n :: u16"
  obtain hd where dec: "rtp_hdr_decode hdr_local (lay pre (?H @ p) post 0) = Some (hd, lay pre (?H @ p) post (length ?H), 0)"
    and hd: "hdr_ssrc hd = ?ssrc" "hdr_seq hd = ?seq"
    using decode_lay [OF hdr, of pre p post] aw(3) by metis
  obtain ss i where get: "stream_get_seq True srtp ?ssrc ?seq = (srtp\<lparr>srtp_streaml := ss\<rparr>, Inr i)"
    and i: "stream_find ss ?ssrc = Some i" "strm_s_l_set (ss ! i)" "near (strm_at (ss ! i)) n"
      "strm_at (ss ! i) = start_at srtp ?ssrc n"
    using get_seq_awaits [OF aw(1)] by metis
  note ib = stream_find_Some [OF i(1)]
  define strm where "strm = rolled (ss ! i) ?seq"
  note pl = place [OF i(3) aw(2)]
  obtain a where a: "comp_aes (srtp_rtp srtp) = Some a" "key a = Some k" and cm: "comp_mode (srtp_rtp srtp) = AES_MODE_CTR"
    "comp_k_s (srtp_rtp srtp) = s"
    using c by (auto simp: ctr_comp_def)
  let ?iv = "srtp_iv_calc s ?ssrc (of_nat n)"
  obtain a' where enc: "aes_encr cr (aes_set_iv cr a ?iv) p = (a', enc k ?iv p, 0)" "key a' = Some k"
    "length (enc k ?iv p) = length p"
    using laws(1) a(2) unfolding ctr_laws_def by meson
  define rtp' where "rtp' = (srtp_rtp srtp)\<lparr>comp_aes := Some a'\<rparr>"
  have c': "ctr_comp key k h s t rtp'" using c enc(2) by (simp add: ctr_comp_def rtp'_def)
  have ctr: "ctr_encrypt cr (srtp_rtp srtp) a ?ssrc (of_nat n) (lay pre (?H @ p) post (length ?H)) =
      Some (rtp', lay pre (?H @ enc k ?iv p) post (length ?H), 0)"
    using cipher_lay [of "aes_encr cr", OF enc(1,3) refl, of pre ?H post] cm by (simp add: ctr_encrypt_def rtp'_def)
  have ix: "65536 * ucast (strm_roc strm) + ucast ?seq = (of_nat n :: u64)"
    using pl(2) by (simp add: index_word strm_def)
  have roc: "strm_roc strm = of_nat (n div 65536)" unfolding pl(2) [symmetric] by (simp add: strm_def)
  obtain post' j where tag: "tag_append cr mem rtp' (strm_roc strm) (length pre) (lay pre (?H @ enc k ?iv p) post (length ?H)) =
      Some (lay pre ((?H @ enc k ?iv p) @ auth_tag cr h t (strm_roc strm) (?H @ enc k ?iv p)) post' j, 0)"
    using tag_append_lay [OF laws(2) c' room] by metis
  let ?srtp' = "srtp\<lparr>srtp_rtp := rtp', srtp_streaml := ss[i := taken strm ?seq]\<rparr>"
  have "srtp_encrypt cr mem True srtp (lay pre (?H @ p) post 0) =
      Some (?srtp', lay pre (protected cr enc k h s t ?ssrc n ?H p) post' 0, 0)"
    using dec hd get a(1) cm(1) ctr ix tag roc ib
    by (simp add: srtp_encrypt_def Let_def protected_def taken_def flip: rolled_def strm_def)
  moreover have "advanced srtp ?ssrc n ?srtp'"
    using i ib pl(4) by (auto simp: advanced_def stream_find_update strm_def)
  ultimately show ?thesis using c' by auto
qed

lemma decrypt_packet:
  assumes laws: "ctr_laws cr key enc" "hmac_laws cr" and c: "ctr_comp key k h s t (srtp_rtp srtp)"
    and aw: "awaits srtp (hdr_ssrc hdr) n" "n < 2147483648" "hdr_seq hdr = of_nat n" and hdr: "hdr_ok hdr"
    and fresh: "srtp_replay_check (window_of srtp (hdr_ssrc hdr)) (of_nat n) = (w, True)"
  shows "\<exists>srtp' post'.
      srtp_decrypt cr mem True srtp (lay pre (protected cr enc k h s t (hdr_ssrc hdr) n (rtp_hdr_bytes hdr) p) post 0) =
      Some (srtp', lay pre (rtp_hdr_bytes hdr @ p) post' 0, 0)
    \<and> ctr_comp key k h s t (srtp_rtp srtp') \<and> advanced srtp (hdr_ssrc hdr) n srtp' \<and> window_of srtp' (hdr_ssrc hdr) = w"
proof -
  let ?H = "rtp_hdr_bytes hdr" and ?ssrc = "hdr_ssrc hdr" and ?seq = "of_nat n :: u16"
  let ?iv = "srtp_iv_calc s ?ssrc (of_nat n)"
  define ct where "ct = enc k ?iv p"
  define tg where "tg = auth_tag cr h t (of_nat (n div 65536)) (?H @ ct)"
  have prot: "protected cr enc k h s t ?ssrc n ?H p = ?H @ ct @ tg" by (simp add: protected_def Let_def ct_def tg_def)
  obtain hd where dec: "rtp_hdr_decode hdr_local (lay pre (?H @ ct @ tg) post 0) = Some (hd, lay pre (?H @ ct @ tg) post (length ?H), 0)"
    and hd: "hdr_ssrc hd = ?ssrc" "hdr_seq hd = ?seq"
    using decode_lay [OF hdr, of pre "ct @ tg" post] aw(3) by metis
  obtain ss i where get: "stream_get_seq True srtp ?ssrc ?seq = (srtp\<lparr>srtp_streaml := ss\<rparr>, Inr i)"
    and i: "stream_find ss ?ssrc = Some i" "strm_s_l_set (ss ! i)" "near (strm_at (ss ! i)) n"
      "strm_replay_rtp (ss ! i) = window_of srtp ?ssrc" "strm_at (ss ! i) = start_at srtp ?ssrc n"
    using get_seq_awaits [OF aw(1)] by metis
  note ib = stream_find_Some [OF i(1)]
  define strm where "strm = rolled (ss ! i) ?seq"
  note pl = place [OF i(3) aw(2)]
  have roc: "strm_roc strm = of_nat (n div 65536)" unfolding pl(2) [symmetric] by (simp add: strm_def)
  have "unat (strm_roc strm) < 32768" using pl(2) aw(2) by (simp add: strm_def)
  then have "srtp_get_index (strm_roc strm) (strm_s_l strm) ?seq = Some (of_nat (ext_index (strm_roc strm) ?seq))"
    using pl(3) by (intro get_index_same) (simp_all add: strm_def)
  moreover have "ext_index (strm_roc strm) ?seq = n" using pl(2) by (simp add: ext_index_def strm_def unat_of_nat)
  ultimately have ix: "srtp_get_index (strm_roc strm) (strm_s_l strm) ?seq = Some (of_nat n)" by simp
  have recv: "receive_index True srtp hd = Some (srtp\<lparr>srtp_streaml := ss[i := strm]\<rparr>, Inr (i, of_nat n))"
    using get hd pl(1) ix by (simp add: receive_index_def Let_def not_less flip: rolled_def strm_def)
  obtain a where a: "comp_aes (srtp_rtp srtp) = Some a" "key a = Some k" and cm: "comp_mode (srtp_rtp srtp) = AES_MODE_CTR"
    "comp_k_s (srtp_rtp srtp) = s" "comp_hmac (srtp_rtp srtp) = Some h"
    using c by (auto simp: ctr_comp_def)
  obtain post' where tag: "tag_check cr mem (srtp_rtp srtp) h (of_nat (n div 65536)) (length pre)
      (lay pre ((?H @ ct) @ tg) post (length ?H)) = Some (lay pre (?H @ ct) post' (length ?H), 0)"
    using tag_check_lay [OF laws(2) c _ tg_def, of "length ?H" mem pre post] by auto
  obtain a' where dcr: "aes_decr cr (aes_set_iv cr a ?iv) ct = (a', p, 0)" "key a' = Some k" "length p = length ct"
    using laws(1) a(2) unfolding ctr_laws_def ct_def by metis
  define rtp' where "rtp' = (srtp_rtp srtp)\<lparr>comp_aes := Some a'\<rparr>"
  have c': "ctr_comp key k h s t rtp'" using c dcr(2) by (simp add: ctr_comp_def rtp'_def)
  have ctr: "ctr_decrypt cr (srtp_rtp srtp) a ?ssrc (of_nat n) (lay pre (?H @ ct) post' (length ?H)) =
      Some (rtp', lay pre (?H @ p) post' (length ?H), 0)"
    using cipher_lay [of "aes_decr cr", OF dcr(1,3) refl, of pre ?H post'] cm by (simp add: ctr_decrypt_def rtp'_def)
  define strm' where "strm' = strm\<lparr>strm_replay_rtp := w\<rparr>"
  have rep: "replay_rtp (srtp\<lparr>srtp_streaml := ss[i := strm]\<rparr>) i (of_nat n) = (srtp\<lparr>srtp_streaml := ss[i := strm']\<rparr>, 0)"
    using fresh i(4) ib by (simp add: replay_rtp_def Let_def strm'_def strm_def)
  let ?srtp' = "srtp\<lparr>srtp_rtp := rtp', srtp_streaml := ss[i := taken strm' ?seq]\<rparr>"
  have gcm: "comp_mode rtp' = AES_MODE_CTR" using cm by (simp add: rtp'_def)
  have ssrc: "strm_ssrc strm = ?ssrc" using ib by (simp add: strm_def)
  have "srtp_decrypt cr mem True srtp (lay pre (?H @ ct @ tg) post 0) = Some (?srtp', lay pre (?H @ p) post' 0, 0)"
    using dec hd recv tag a(1) cm ctr rep roc ib gcm ssrc
    by (simp add: srtp_decrypt_def Let_def taken_def)
  moreover have "stream_find (srtp_streaml ?srtp') ?ssrc = Some i"
    using i ib by (simp add: stream_find_update strm'_def strm_def)
  moreover have "strm_at (taken strm' ?seq) = strm_at (taken strm ?seq)"
    by (simp add: strm_at_def taken_def strm'_def)
  then have "advanced srtp ?ssrc n ?srtp'"
    using i ib pl(4) calculation(2) unfolding advanced_def
    by (intro exI [of _ i]) (simp add: strm'_def strm_def)
  moreover have "window_of ?srtp' ?ssrc = w"
    using calculation(2) ib by (simp add: window_of_def strm'_def)
  ultimately show ?thesis unfolding prot using c' by auto
qed

section \<open>Sessions\<close>

text \<open>
  A sender protects packets one after another; those of the second component are delivered, which
  means that a receiver reads their bytes into a buffer of its own and unprotects them there. The
  result is what each delivered packet has become and the error codes.
\<close>

definition of_wire :: "bytes \<Rightarrow> mbuf" where
  "of_wire bs = \<lparr>mb_buf = bs, mb_pos = 0, mb_end = length bs\<rparr>"

fun session ::
  "('a, 'h) crypto \<Rightarrow> (nat \<Rightarrow> bool) \<Rightarrow> ('a, 'h) srtp \<Rightarrow> ('a, 'h) srtp \<Rightarrow> (mbuf \<times> bool) list \<Rightarrow> (bytes \<times> int \<times> int) list option" where
  "session cr mem S R [] = Some []"
| "session cr mem S R ((mb, delivered) # ps) = do {
     (S, mb, e1) \<leftarrow> srtp_encrypt cr mem True S mb;
     if \<not> delivered then session cr mem S R ps
     else do {
       (R, mb, e2) \<leftarrow> srtp_decrypt cr mem True R (of_wire (mbuf_rest mb));
       map_option ((#) (mbuf_rest mb, e1, e2)) (session cr mem S R ps)
     }
   }"

text \<open>The packets of one source, numbered from \<open>n\<close> on, in buffers with room for the tag.\<close>

fun numbered :: "u32 \<Rightarrow> nat \<Rightarrow> mbuf list \<Rightarrow> bool" where
  "numbered ssrc n [] \<longleftrightarrow> True"
| "numbered ssrc n (mb # mbs) \<longleftrightarrow>
     mbuf_ok mb \<and> mb_pos mb \<le> mb_end mb \<and> mb_end mb + SHA_DIGEST_LENGTH \<le> length (mb_buf mb)
   \<and> (\<exists>hdr p. mbuf_rest mb = rtp_hdr_bytes hdr @ p \<and> hdr_ok hdr \<and> hdr_ssrc hdr = ssrc \<and> hdr_seq hdr = of_nat n)
   \<and> numbered ssrc (Suc n) mbs"

text \<open>Losses a receiver can bridge: it sees a packet before the counter first rolls over, and then at most
  32766 packets in a row are lost.\<close>

fun bridged :: "nat option \<Rightarrow> nat \<Rightarrow> bool list \<Rightarrow> bool" where
  "bridged prev n [] \<longleftrightarrow> True"
| "bridged prev n (d # ds) \<longleftrightarrow>
     (if d then (case prev of None \<Rightarrow> n < 65536 | Some m \<Rightarrow> n \<le> m + 32767) \<and> bridged (Some n) (Suc n) ds
      else bridged prev (Suc n) ds)"

text \<open>A session that has seen nothing of the stream yet, or prev the packet with index \<open>m\<close>.\<close>

definition seen_up_to :: "('a, 'h) srtp \<Rightarrow> u32 \<Rightarrow> nat option \<Rightarrow> bool" where
  "seen_up_to srtp ssrc prev \<longleftrightarrow>
     (case prev of
        None \<Rightarrow> srtp_streaml srtp = []
      | Some m \<Rightarrow> (\<exists>i. stream_find (srtp_streaml srtp) ssrc = Some i \<and> strm_s_l_set (srtp_streaml srtp ! i)
                     \<and> strm_at (srtp_streaml srtp ! i) = m))"

definition window_up_to :: "('a, 'h) srtp \<Rightarrow> u32 \<Rightarrow> nat option \<Rightarrow> bool" where
  "window_up_to srtp ssrc prev \<longleftrightarrow>
     (case prev of None \<Rightarrow> window_of srtp ssrc = srtp_replay_init | Some m \<Rightarrow> lix (window_of srtp ssrc) = of_nat m)"

lemma seen_awaits:
  assumes "seen_up_to srtp ssrc prev" and "case prev of None \<Rightarrow> n < 65536 | Some m \<Rightarrow> m < n \<and> n \<le> m + 32767"
  shows "awaits srtp ssrc n" and "start_at srtp ssrc n \<le> n"
  using assms
  by (auto simp: seen_up_to_def awaits_def start_at_def near_def SRTP_MAX_STREAMS_def split: option.splits)

lemma advanced_seen: "advanced srtp ssrc n srtp' \<Longrightarrow> start_at srtp ssrc n \<le> n \<Longrightarrow> seen_up_to srtp' ssrc (Some n)"
  by (auto simp: advanced_def seen_up_to_def max_def)

lemma of_nat_less_u64: "m < n \<Longrightarrow> n < 2147483648 \<Longrightarrow> (of_nat m :: u64) < of_nat n"
  by (simp add: word_less_nat_alt unat_of_nat)

lemma window_next:
  assumes "window_up_to srtp ssrc prev" and "n < 2147483648" and "case prev of None \<Rightarrow> True | Some m \<Rightarrow> m < n"
  obtains w where "srtp_replay_check (window_of srtp ssrc) (of_nat n) = (w, True)" "lix w = of_nat n"
proof (cases "of_nat n > lix (window_of srtp ssrc)")
  case True
  then show ?thesis
    using that [of "fst (srtp_replay_check (window_of srtp ssrc) (of_nat n))"]
    by (simp add: srtp_replay_check_def Let_def)
next
  case False
  have "prev = None" using assms False of_nat_less_u64 by (auto simp: window_up_to_def split: option.splits)
  then have w: "window_of srtp ssrc = srtp_replay_init" using assms(1) by (simp add: window_up_to_def)
  then have n: "of_nat n = (0 :: u64)" using False by (simp add: srtp_replay_init_def word_gt_0)
  show ?thesis
    by (rule that [of "\<lparr>bitmap = 1, lix = 0\<rparr>"])
      (simp_all add: w n srtp_replay_check_def srtp_replay_init_def Let_def SRTP_WINDOW_SIZE_def)
qed

lemma session_run:
  assumes laws: "ctr_laws cr key enc" "hmac_laws cr"
    and "ctr_comp key k h s t (srtp_rtp S)" "ctr_comp key k h s t (srtp_rtp R)"
    and "seen_up_to S ssrc slast" "case slast of None \<Rightarrow> n < 65536 | Some m \<Rightarrow> n = Suc m"
    and "seen_up_to R ssrc rlast" "window_up_to R ssrc rlast" "case rlast of None \<Rightarrow> True | Some m \<Rightarrow> m < n"
    and "numbered ssrc n (map fst ps)" "bridged rlast n (map snd ps)" "n + length ps \<le> 2147483648"
  shows "session cr mem S R ps = Some (map (\<lambda>(mb, _). (mbuf_rest mb, 0, 0)) (filter snd ps))"
  using assms(3-)
proof (induction ps arbitrary: n S R slast rlast)
  case (Cons pk ps)
  obtain mb d where pk: "pk = (mb, d)" by fastforce
  obtain hdr p where mb: "mbuf_ok mb" "mb_pos mb \<le> mb_end mb" "mb_end mb + SHA_DIGEST_LENGTH \<le> length (mb_buf mb)"
    "mbuf_rest mb = rtp_hdr_bytes hdr @ p" and hdr: "hdr_ok hdr" "hdr_ssrc hdr = ssrc" "hdr_seq hdr = of_nat n"
    using Cons.prems(8) pk by auto
  obtain pre post where lay: "mb = lay pre (rtp_hdr_bytes hdr @ p) post 0" "SHA_DIGEST_LENGTH \<le> length post"
    using lay_exists [OF mb(1,2)] mb(3,4) by (metis add_le_imp_le_diff add.commute)
  have t: "4 \<le> t" "t \<le> SHA_DIGEST_LENGTH" using Cons.prems(1) by (simp_all add: ctr_comp_def)
  have n: "n < 2147483648" using Cons.prems(10) by simp
  have S: "awaits S ssrc n" "start_at S ssrc n \<le> n"
    using seen_awaits [OF Cons.prems(3), of n] Cons.prems(4) by (auto split: option.splits)
  let ?w = "protected cr enc k h s t ssrc n (rtp_hdr_bytes hdr) p"
  obtain S' post' where enc: "srtp_encrypt cr mem True S mb = Some (S', lay pre ?w post' 0, 0)"
    "ctr_comp key k h s t (srtp_rtp S')" "advanced S ssrc n S'"
    using encrypt_packet [OF laws Cons.prems(1), of hdr n post mem pre p] S(1) n hdr lay t by auto
  note S' = advanced_seen [OF enc(3) S(2)]
  show ?case
  proof (cases d)
    case False
    have "session cr mem S' R ps = Some (map (\<lambda>(mb, _). (mbuf_rest mb, 0, 0)) (filter snd ps))"
      using Cons.prems False pk
      by (intro Cons.IH [OF enc(2) Cons.prems(2) S' _ Cons.prems(5,6)]) (auto split: option.splits)
    then show ?thesis using enc(1) False pk by simp
  next
    case True
    have br: "case rlast of None \<Rightarrow> n < 65536 | Some m \<Rightarrow> n \<le> m + 32767" "bridged (Some n) (Suc n) (map snd ps)"
      using Cons.prems(9) True pk by simp_all
    have "case rlast of None \<Rightarrow> n < 65536 | Some m \<Rightarrow> m < n \<and> n \<le> m + 32767"
      using br(1) Cons.prems(7) by (auto split: option.splits)
    note R = seen_awaits [OF Cons.prems(5) this]
    obtain w where w: "srtp_replay_check (window_of R ssrc) (of_nat n) = (w, True)" "lix w = of_nat n"
      using window_next [OF Cons.prems(6) n Cons.prems(7)] by metis
    have wire: "of_wire ?w = lay [] ?w [] 0" by (simp add: of_wire_def lay_def)
    obtain R' post'' where dec: "srtp_decrypt cr mem True R (of_wire ?w) = Some (R', lay [] (rtp_hdr_bytes hdr @ p) post'' 0, 0)"
      "ctr_comp key k h s t (srtp_rtp R')" "advanced R ssrc n R'" "window_of R' ssrc = w"
      unfolding wire
      using decrypt_packet [OF laws Cons.prems(2), of hdr n w mem "[]" p "[]"] R(1) n hdr w by auto
    have "session cr mem S' R' ps = Some (map (\<lambda>(mb, _). (mbuf_rest mb, 0, 0)) (filter snd ps))"
      using Cons.prems br(2) w(2) dec(4) pk
      by (intro Cons.IH [OF enc(2) dec(2) S' _ advanced_seen [OF dec(3) R(2)]]) (auto simp: window_up_to_def)
    then show ?thesis using enc(1) dec(1) True pk mb(4) by simp
  qed
qed simp

text \<open>Objects in counter mode have the key they were allocated with; an error code is not zero.\<close>

definition alloc_laws :: "('a, 'h) crypto \<Rightarrow> ('a \<Rightarrow> bytes option) \<Rightarrow> bool" where
  "alloc_laws cr key \<longleftrightarrow> (\<forall>k iv a. aes_alloc cr AES_MODE_CTR k iv = Inr a \<longrightarrow> key a = Some k)
     \<and> (\<forall>m k iv. aes_alloc cr m k iv \<noteq> Inl 0) \<and> (\<forall>k. hmac_create cr k \<noteq> Inl 0)"

lemma comp_init_ctr:
  assumes "comp_init cr c offs mkey salt t True True AES_MODE_CTR = (c', 0)" and "alloc_laws cr key"
    and "4 \<le> t"
  obtains k h s where "ctr_comp key k h s t c'"
proof -
  have len: "\<not> length mkey > MAX_KEYLEN" "\<not> t > SHA_DIGEST_LENGTH"
    using assms(1) by (auto simp: comp_init_def EINVAL_def split: if_splits)
  obtain k_e e1 where d1: "srtp_derive cr (replicate (length mkey) 0) (0 + offs) mkey salt = (k_e, e1)" by fastforce
  obtain k_a e2 where d2: "srtp_derive cr (replicate SHA_DIGEST_LENGTH 0) (1 + offs) mkey salt = (k_a, e2)" by fastforce
  obtain k_s e3 where d3: "srtp_derive cr (take 14 (comp_k_s c)) (2 + offs) mkey salt = (k_s, e3)" by fastforce
  have err: "e1 OR e2 OR e3 = 0"
    using assms(1) len d1 d2 d3 by (auto simp: comp_init_def Let_def split: if_splits)
  obtain a where a: "aes_alloc cr AES_MODE_CTR k_e None = Inr a"
  proof (cases "aes_alloc cr AES_MODE_CTR k_e None")
    case (Inl e)
    moreover have "e \<noteq> 0" using Inl assms(2) by (auto simp: alloc_laws_def)
    ultimately show ?thesis using assms(1) len d1 d2 d3 err by (simp add: comp_init_def Let_def)
  qed
  obtain h where h: "hmac_create cr k_a = Inr h"
  proof (cases "hmac_create cr k_a")
    case (Inl e)
    moreover have "e \<noteq> 0" using Inl assms(2) by (auto simp: alloc_laws_def)
    ultimately show ?thesis using assms(1) len d1 d2 d3 err a by (simp add: comp_init_def Let_def)
  qed
  have "ctr_comp key k_e h (k_s @ drop 14 (comp_k_s c)) t c'"
    using assms(1-3) len d1 d2 d3 err a h by (auto simp: comp_init_def Let_def ctr_comp_def alloc_laws_def)
  then show ?thesis by (rule that)
qed

lemma alloc_ctr:
  assumes "srtp_alloc cr mem_srtp suite mkey fl = Inr S" and "fst (suite_params suite) = AES_MODE_CTR" and "alloc_laws cr key"
  obtains k h s t where "ctr_comp key k h s t (srtp_rtp S)" "srtp_streaml S = []"
proof -
  obtain cb sb t where par: "suite_params suite = (AES_MODE_CTR, cb, sb, t, True)" "4 \<le> t"
    using assms(2) by (cases suite) auto
  have len: "cb + sb = length mkey" "mem_srtp" using assms(1) par by (auto simp: srtp_alloc_def split: if_splits)
  obtain c1 e1 where c1: "comp_init cr comp_zero 0 (take cb mkey) (drop cb mkey) t True True AES_MODE_CTR = (c1, e1)" by fastforce
  obtain c2 e2 where c2: "comp_init cr comp_zero 3 (take cb mkey) (drop cb mkey) t (\<not> fl) True AES_MODE_CTR = (c2, e2)" by fastforce
  have "e1 = 0" "srtp_rtp S = c1" "srtp_streaml S = []"
    using assms(1) par len c1 c2 by (auto simp: srtp_alloc_def Let_def or_eq_0_iff split: if_splits)
  then show ?thesis
    using comp_init_ctr [of cr comp_zero 0 "take cb mkey" "drop cb mkey" t c1 key] c1 assms(3) par(2) that by metis
qed

section \<open>The replay window of a session\<close>

lemma get_seq_window:
  assumes "stream_get_seq ms srtp ssrc seq = (srtp', r)"
  shows "window_of srtp' = window_of srtp" "srtp_rtp srtp' = srtp_rtp srtp" "r = Inr i \<Longrightarrow> stream_find (srtp_streaml srtp') ssrc = Some i"
proof -
  let ?ss = "srtp_streaml srtp"
  have "window_of srtp' = window_of srtp \<and> srtp_rtp srtp' = srtp_rtp srtp
      \<and> (\<forall>i. r = Inr i \<longrightarrow> stream_find (srtp_streaml srtp') ssrc = Some i)"
  proof (cases "stream_find ?ss ssrc")
    case None
    then show ?thesis
      using assms
      by (auto simp: stream_get_seq_def stream_get_def stream_new_def Let_def window_of_def fun_eq_iff stream_find_append nth_append
          split: if_splits option.splits dest: stream_find_Some)
  next
    case (Some j)
    note j = stream_find_Some [OF Some]
    have "strm_replay_rtp ((?ss[j := (?ss ! j)\<lparr>strm_s_l := seq, strm_s_l_set := True\<rparr>]) ! i) = strm_replay_rtp (?ss ! i)" for i
      using j by (cases "i = j") auto
    then show ?thesis
      using assms Some j
      by (auto simp: stream_get_seq_def stream_get_def Let_def window_of_def fun_eq_iff stream_find_update split: if_splits option.splits)
  qed
  then show "window_of srtp' = window_of srtp" "srtp_rtp srtp' = srtp_rtp srtp" "r = Inr i \<Longrightarrow> stream_find (srtp_streaml srtp') ssrc = Some i"
    by blast+
qed

text \<open>What a session has for a source, a default when it does not know the source.\<close>

definition of_stream :: "'b \<Rightarrow> (srtp_stream \<Rightarrow> 'b) \<Rightarrow> ('a, 'h) srtp \<Rightarrow> u32 \<Rightarrow> 'b" where
  "of_stream d f srtp ssrc = (case stream_find (srtp_streaml srtp) ssrc of None \<Rightarrow> d | Some i \<Rightarrow> f (srtp_streaml srtp ! i))"

lemma of_stream_update:
  assumes "stream_find (srtp_streaml srtp) ssrc = Some i" and "strm_ssrc s' = ssrc"
  shows "of_stream d f (srtp\<lparr>srtp_streaml := (srtp_streaml srtp)[i := s']\<rparr>) = (of_stream d f srtp)(ssrc := f s')"
proof
  fix x
  note i = stream_find_Some [OF assms(1)]
  have find: "stream_find ((srtp_streaml srtp)[i := s']) x = stream_find (srtp_streaml srtp) x"
    using i assms(2) by (simp add: stream_find_update)
  show "of_stream d f (srtp\<lparr>srtp_streaml := (srtp_streaml srtp)[i := s']\<rparr>) x = ((of_stream d f srtp)(ssrc := f s')) x"
  proof (cases "stream_find (srtp_streaml srtp) x")
    case (Some j)
    show ?thesis
    proof (cases "x = ssrc")
      case True
      then show ?thesis using i assms(1) find [unfolded True] by (simp add: of_stream_def)
    next
      case False
      have "strm_ssrc (srtp_streaml srtp ! j) = x" using stream_find_Some [OF Some] by simp
      with False i have "i \<noteq> j" by blast
      then show ?thesis using False Some by (simp add: of_stream_def find)
    qed
  next
    case None
    then have "x \<noteq> ssrc" using assms(1) by (metis option.distinct(1))
    then show ?thesis using None by (simp add: of_stream_def find)
  qed
qed

lemma window_of_stream: "window_of = of_stream srtp_replay_init strm_replay_rtp"
  by (simp add: fun_eq_iff window_of_def of_stream_def)

lemma window_update:
  assumes "stream_find (srtp_streaml srtp) ssrc = Some i" and "strm_ssrc s' = ssrc"
  shows "window_of (srtp\<lparr>srtp_streaml := (srtp_streaml srtp)[i := s']\<rparr>) = (window_of srtp)(ssrc := strm_replay_rtp s')"
  unfolding window_of_stream by (rule of_stream_update [OF assms])

lemma window_put:
  assumes "stream_find (srtp_streaml srtp) ssrc = Some i" and "strm_ssrc s' = ssrc" "strm_replay_rtp s' = strm_replay_rtp (srtp_streaml srtp ! i)"
  shows "window_of (srtp\<lparr>srtp_streaml := (srtp_streaml srtp)[i := s']\<rparr>) = window_of srtp"
  unfolding window_update [OF assms(1,2)] using assms(1,3) by (simp add: window_of_def fun_eq_iff)

lemma receive_window:
  assumes "receive_index ms srtp hdr = Some (srtp', r)"
  shows "window_of srtp' = window_of srtp" "srtp_rtp srtp' = srtp_rtp srtp"
    "r = Inr (i, ix) \<Longrightarrow> stream_find (srtp_streaml srtp') (hdr_ssrc hdr) = Some i"
proof -
  obtain s1 r1 where g: "stream_get_seq ms srtp (hdr_ssrc hdr) (hdr_seq hdr) = (s1, r1)" by fastforce
  note gw = get_seq_window [OF g]
  have "window_of srtp' = window_of srtp \<and> srtp_rtp srtp' = srtp_rtp srtp
      \<and> (\<forall>i ix. r = Inr (i, ix) \<longrightarrow> stream_find (srtp_streaml srtp') (hdr_ssrc hdr) = Some i)"
  proof (cases r1)
    case (Inl e)
    then show ?thesis using assms g gw by (simp add: receive_index_def) blast
  next
    case (Inr j)
    note fj = gw(3) [OF Inr]
    note j = stream_find_Some [OF fj]
    let ?s = "rolled (srtp_streaml s1 ! j) (hdr_seq hdr)"
    have upd: "window_of (s1\<lparr>srtp_streaml := (srtp_streaml s1)[j := ?s]\<rparr>) = window_of s1"
      "stream_find ((srtp_streaml s1)[j := ?s]) (hdr_ssrc hdr) = Some j"
      using window_put [OF fj, of ?s] j fj by (simp_all add: stream_find_update)
    show ?thesis
      using assms g gw(1,2) Inr upd fj
      by (auto simp: receive_index_def Let_def split: if_splits simp flip: rolled_def)
  qed
  then show "window_of srtp' = window_of srtp" "srtp_rtp srtp' = srtp_rtp srtp"
    "r = Inr (i, ix) \<Longrightarrow> stream_find (srtp_streaml srtp') (hdr_ssrc hdr) = Some i" by blast+
qed

lemma replay_window:
  assumes "stream_find (srtp_streaml srtp) ssrc = Some i" and "replay_rtp srtp i ix = (srtp', err)"
  shows "window_of srtp' = (window_of srtp)(ssrc := fst (srtp_replay_check (window_of srtp ssrc) ix))"
    and "err = 0 \<longleftrightarrow> snd (srtp_replay_check (window_of srtp ssrc) ix)" and "srtp_rtp srtp' = srtp_rtp srtp"
    and "stream_find (srtp_streaml srtp') ssrc = Some i"
proof -
  note i = stream_find_Some [OF assms(1)]
  have w: "window_of srtp ssrc = strm_replay_rtp (srtp_streaml srtp ! i)" using assms(1) by (simp add: window_of_def)
  obtain r b where rb: "srtp_replay_check (window_of srtp ssrc) ix = (r, b)" by fastforce
  have eq: "srtp' = srtp\<lparr>srtp_streaml := (srtp_streaml srtp)[i := (srtp_streaml srtp ! i)\<lparr>strm_replay_rtp := r\<rparr>]\<rparr>"
    "err = (if b then 0 else EALREADY)"
    using assms(2) rb w by (simp_all add: replay_rtp_def Let_def)
  show "window_of srtp' = (window_of srtp)(ssrc := fst (srtp_replay_check (window_of srtp ssrc) ix))"
    using window_update [OF assms(1), of "(srtp_streaml srtp ! i)\<lparr>strm_replay_rtp := r\<rparr>"] i rb by (simp add: eq)
  show "err = 0 \<longleftrightarrow> snd (srtp_replay_check (window_of srtp ssrc) ix)" using rb by (simp add: eq EALREADY_def)
  show "srtp_rtp srtp' = srtp_rtp srtp" by (simp add: eq)
  show "stream_find (srtp_streaml srtp') ssrc = Some i" using assms(1) i by (simp add: eq stream_find_update)
qed

lemma cipher_comp:
  "ctr_decrypt cr c aes ssrc ix mb = Some (c', mb', err) \<Longrightarrow> comp_hmac c' = comp_hmac c \<and> comp_mode c' = comp_mode c \<and> comp_aes c' \<noteq> None"
  "gcm_decrypt cr c aes ssrc ix start mb = Some (c', mb', err) \<Longrightarrow> comp_hmac c' = comp_hmac c \<and> comp_mode c' = comp_mode c \<and> comp_aes c' \<noteq> None"
  by (auto simp: ctr_decrypt_def gcm_decrypt_def Let_def split: if_splits prod.splits bind_splits)

text \<open>
  Sessions as \<^verbatim>\<open>srtp_alloc\<close> makes them check the window of a packet exactly once: after the HMAC, or after GCM
  has authenticated.
\<close>

definition one_check :: "('a, 'h) comp \<Rightarrow> bool" where
  "one_check c \<longleftrightarrow> comp_aes c \<noteq> None \<and> (comp_hmac c \<noteq> None) = (comp_mode c = AES_MODE_CTR)"

text \<open>The source and the index a receiver finds for a packet.\<close>

definition packet_id :: "bool \<Rightarrow> ('a, 'h) srtp \<Rightarrow> mbuf \<Rightarrow> (u32 \<times> u64) option" where
  "packet_id ms srtp mb =
     (case rtp_hdr_decode hdr_local mb of
        Some (hdr, mb, err) \<Rightarrow>
          (case receive_index ms srtp hdr of Some (_, Inr (_, ix)) \<Rightarrow> Some (hdr_ssrc hdr, ix) | _ \<Rightarrow> None)
      | None \<Rightarrow> None)"

lemma receive_err: "receive_index ms srtp hdr = Some (srtp', Inl e) \<Longrightarrow> e \<noteq> 0"
  by (auto simp: receive_index_def stream_get_seq_def stream_get_def stream_new_def Let_def ENOSR_def ENOMEM_def ETIMEDOUT_def
      split: if_splits option.splits sum.splits prod.splits)

lemma window_rtp [simp]: "window_of (srtp\<lparr>srtp_rtp := c\<rparr>) = window_of srtp"
  by (simp add: window_of_def fun_eq_iff split: option.split)

lemma taken_window:
  assumes "stream_find (srtp_streaml srtp) ssrc = Some i"
  shows "window_of (srtp\<lparr>srtp_streaml := (srtp_streaml srtp)[i := taken (srtp_streaml srtp ! i) seq]\<rparr>) = window_of srtp"
  using window_put [OF assms] stream_find_Some [OF assms] by simp

lemma decrypt_window_ctr:
  assumes dec: "srtp_decrypt cr mem ms srtp mb = Some (srtp', mb', err)" and one: "one_check (srtp_rtp srtp)"
    and h: "rtp_hdr_decode hdr_local mb = Some (hdr, mb1, e1)" "e1 = 0"
    and rc: "receive_index ms srtp hdr = Some (s1, r)" "r = Inr (i, ix)" "window_of s1 = window_of srtp" "srtp_rtp s1 = srtp_rtp srtp"
      "stream_find (srtp_streaml s1) (hdr_ssrc hdr) = Some i"
    and id: "packet_id ms srtp mb = Some (hdr_ssrc hdr, ix)"
    and c: "comp_aes (srtp_rtp s1) = Some aes" "comp_mode (srtp_rtp s1) = AES_MODE_CTR" "comp_hmac (srtp_rtp s1) = Some hm"
  shows "one_check (srtp_rtp srtp')
    \<and> ((err \<noteq> 0 \<and> window_of srtp' = window_of srtp)
       \<or> (\<exists>ssrc ix. packet_id ms srtp mb = Some (ssrc, ix)
            \<and> window_of srtp' = (window_of srtp)(ssrc := fst (srtp_replay_check (window_of srtp ssrc) ix))
            \<and> (err = 0 \<longrightarrow> snd (srtp_replay_check (window_of srtp ssrc) ix))))"
proof -
  let ?start = "mb_pos mb" and ?ssrc = "hdr_ssrc hdr" and ?strm = "srtp_streaml s1 ! i"
  obtain mb2 e2 where tc: "tag_check cr mem (srtp_rtp s1) hm (strm_roc ?strm) ?start mb1 = Some (mb2, e2)"
    using dec h rc(1,2) c by (auto simp: srtp_decrypt_def Let_def split: bind_splits)
  show ?thesis
  proof (cases "e2 = 0")
    case False
    then show ?thesis using dec h rc c tc one by (simp add: srtp_decrypt_def Let_def)
  next
    case e2: True
    obtain s2 e3 where rp: "replay_rtp s1 i ix = (s2, e3)" by fastforce
    note rw = replay_window [OF rc(5) rp]
    show ?thesis
    proof (cases "e3 = 0")
      case False
      then show ?thesis using dec h rc c tc e2 rp one rw id by (simp add: srtp_decrypt_def Let_def)
    next
      case e3: True
      obtain c' mb3 e4 where ct: "ctr_decrypt cr (srtp_rtp s1) aes (strm_ssrc ?strm) ix mb2 = Some (c', mb3, e4)"
        using dec h rc(1,2) c tc e2 rp e3 by (auto simp: srtp_decrypt_def Let_def split: bind_splits)
      note cc = cipher_comp(1) [OF ct]
      have m: "comp_mode c' = AES_MODE_CTR" using cc c by simp
      have one': "one_check c'" using one cc c rc(4) by (auto simp: one_check_def)
      have "(e4 \<noteq> 0 \<and> srtp' = s2\<lparr>srtp_rtp := c'\<rparr> \<and> err = e4) \<or> (err = 0 \<and> srtp' = s2\<lparr>srtp_rtp := c',
          srtp_streaml := (srtp_streaml s2)[i := taken (srtp_streaml s2 ! i) (hdr_seq hdr)]\<rparr>)"
        using dec h rc(1,2) c(1,2,3) tc e2 rp e3 ct m
        by (cases "e4 = 0") (simp_all add: srtp_decrypt_def Let_def taken_def)
      moreover have "window_of (s2\<lparr>srtp_rtp := c',
          srtp_streaml := (srtp_streaml s2)[i := taken (srtp_streaml s2 ! i) (hdr_seq hdr)]\<rparr>) = window_of s2"
        using taken_window [of "s2\<lparr>srtp_rtp := c'\<rparr>" ?ssrc i "hdr_seq hdr"] rw(4) by simp
      ultimately show ?thesis using id rw(1,2) rc(3) e3 one' by auto
    qed
  qed
qed

lemma decrypt_window_gcm:
  assumes dec: "srtp_decrypt cr mem ms srtp mb = Some (srtp', mb', err)" and one: "one_check (srtp_rtp srtp)"
    and h: "rtp_hdr_decode hdr_local mb = Some (hdr, mb1, e1)" "e1 = 0"
    and rc: "receive_index ms srtp hdr = Some (s1, r)" "r = Inr (i, ix)" "window_of s1 = window_of srtp" "srtp_rtp s1 = srtp_rtp srtp"
      "stream_find (srtp_streaml s1) (hdr_ssrc hdr) = Some i"
    and id: "packet_id ms srtp mb = Some (hdr_ssrc hdr, ix)"
    and c: "comp_aes (srtp_rtp s1) = Some aes" "comp_mode (srtp_rtp s1) = AES_MODE_GCM" "comp_hmac (srtp_rtp s1) = None"
  shows "one_check (srtp_rtp srtp')
    \<and> ((err \<noteq> 0 \<and> window_of srtp' = window_of srtp)
       \<or> (\<exists>ssrc ix. packet_id ms srtp mb = Some (ssrc, ix)
            \<and> window_of srtp' = (window_of srtp)(ssrc := fst (srtp_replay_check (window_of srtp ssrc) ix))
            \<and> (err = 0 \<longrightarrow> snd (srtp_replay_check (window_of srtp ssrc) ix))))"
proof -
  let ?start = "mb_pos mb" and ?ssrc = "hdr_ssrc hdr" and ?strm = "srtp_streaml s1 ! i"
  obtain c' mb3 e4 where ct: "gcm_decrypt cr (srtp_rtp s1) aes (strm_ssrc ?strm) ix ?start mb1 = Some (c', mb3, e4)"
    using dec h rc(1,2) c by (auto simp: srtp_decrypt_def Let_def split: bind_splits)
  note cc = cipher_comp(2) [OF ct]
  have one': "one_check c'" using one cc c rc(4) by (auto simp: one_check_def)
  show ?thesis
  proof (cases "e4 = 0")
    case False
    then show ?thesis using dec h rc c ct one' by (auto simp: srtp_decrypt_def Let_def)
  next
    case e4: True
    obtain s2 e3 where rp: "replay_rtp (s1\<lparr>srtp_rtp := c'\<rparr>) i ix = (s2, e3)" by fastforce
    have f: "stream_find (srtp_streaml (s1\<lparr>srtp_rtp := c'\<rparr>)) ?ssrc = Some i" using rc(5) by simp
    note rw = replay_window [OF f rp]
    have "(e3 \<noteq> 0 \<and> srtp' = s2 \<and> err = e3) \<or> (e3 = 0 \<and> err = 0 \<and> srtp' = s2\<lparr>
        srtp_streaml := (srtp_streaml s2)[i := taken (srtp_streaml s2 ! i) (hdr_seq hdr)]\<rparr>)"
      using dec h rc(1,2) c e4 rp ct cc by (cases "e3 = 0") (simp_all add: srtp_decrypt_def Let_def taken_def)
    moreover have "window_of (s2\<lparr>
        srtp_streaml := (srtp_streaml s2)[i := taken (srtp_streaml s2 ! i) (hdr_seq hdr)]\<rparr>) = window_of s2"
      using taken_window [OF rw(4)] .
    ultimately show ?thesis using id rw(1,2,3) rc(3) one' by auto
  qed
qed

lemma decrypt_window:
  assumes dec: "srtp_decrypt cr mem ms srtp mb = Some (srtp', mb', err)" and one: "one_check (srtp_rtp srtp)"
  shows "one_check (srtp_rtp srtp')
    \<and> ((err \<noteq> 0 \<and> window_of srtp' = window_of srtp)
       \<or> (\<exists>ssrc ix. packet_id ms srtp mb = Some (ssrc, ix)
            \<and> window_of srtp' = (window_of srtp)(ssrc := fst (srtp_replay_check (window_of srtp ssrc) ix))
            \<and> (err = 0 \<longrightarrow> snd (srtp_replay_check (window_of srtp ssrc) ix))))"
proof -
  obtain hdr mb1 e1 where h: "rtp_hdr_decode hdr_local mb = Some (hdr, mb1, e1)"
    using dec by (auto simp: srtp_decrypt_def Let_def split: bind_splits)
  show ?thesis
  proof (cases "e1 = 0")
    case False
    then show ?thesis using dec h one by (simp add: srtp_decrypt_def Let_def)
  next
    case e1: True
    obtain s1 r where rc: "receive_index ms srtp hdr = Some (s1, r)"
      using dec h e1 by (auto simp: srtp_decrypt_def Let_def split: bind_splits)
    note rw = receive_window [OF rc]
    show ?thesis
    proof (cases r)
      case (Inl e)
      then show ?thesis
        using dec h e1 rc one rw(1,2) receive_err [of ms srtp hdr s1 e] by (simp add: srtp_decrypt_def Let_def)
    next
      case (Inr ii)
      obtain i ix where ii: "ii = (i, ix)" by fastforce
      let ?ssrc = "hdr_ssrc hdr"
      note fi = rw(3) [OF Inr [unfolded ii]]
      have id: "packet_id ms srtp mb = Some (?ssrc, ix)" using h rc Inr ii by (simp add: packet_id_def)
      obtain aes where aes: "comp_aes (srtp_rtp s1) = Some aes" using one rw(2) by (auto simp: one_check_def)
      show ?thesis
      proof (cases "comp_mode (srtp_rtp s1)")
        case AES_MODE_CTR
        then obtain hm where hm: "comp_hmac (srtp_rtp s1) = Some hm" using one rw(2) by (auto simp: one_check_def)
        show ?thesis
          using dec one by (rule decrypt_window_ctr [OF _ _ h e1 rc Inr [unfolded ii] rw(1,2) fi id aes AES_MODE_CTR hm])
      next
        case AES_MODE_GCM
        then have hm: "comp_hmac (srtp_rtp s1) = None" using one rw(2) by (auto simp: one_check_def)
        show ?thesis
          using dec one by (rule decrypt_window_gcm [OF _ _ h e1 rc Inr [unfolded ii] rw(1,2) fi id aes AES_MODE_GCM hm])
      qed
    qed
  qed
qed

text \<open>The packets a receiver accepts, by source and index, when it is given a sequence of packets.\<close>

fun accepted_ids :: "('a, 'h) crypto \<Rightarrow> (nat \<Rightarrow> bool) \<Rightarrow> ('a, 'h) srtp \<Rightarrow> (mbuf \<times> bool) list \<Rightarrow> (u32 \<times> u64) list option" where
  "accepted_ids cr mem R [] = Some []"
| "accepted_ids cr mem R ((mb, ms) # mbs) = do {
     (R', mb', err) \<leftarrow> srtp_decrypt cr mem ms R mb;
     ids \<leftarrow> accepted_ids cr mem R' mbs;
     Some (if err = 0 then (case packet_id ms R mb of Some i \<Rightarrow> i # ids | None \<Rightarrow> ids) else ids)
   }"

definition srtp_recv ::
  "('a, 'h) crypto \<Rightarrow> (nat \<Rightarrow> bool) \<Rightarrow> ('a, 'h) srtp \<Rightarrow> mbuf \<times> bool \<Rightarrow> (('a, 'h) srtp \<times> (u32 \<times> u64) option) option" where
  "srtp_recv cr mem R = (\<lambda>(mb, ms). do {
     (R', mb', err) \<leftarrow> srtp_decrypt cr mem ms R mb;
     Some (R', if err = 0 then packet_id ms R mb else None)
   })"

lemma accepted_ids_run: "accepted_ids cr mem R mbs = accept_run (srtp_recv cr mem) R mbs"
proof (induction mbs arbitrary: R)
  case (Cons p mbs)
  obtain mb ms where p: "p = (mb, ms)" by fastforce
  show ?case
    by (cases "srtp_decrypt cr mem ms R mb") (auto simp: p Cons.IH srtp_recv_def split: bind_splits option.split if_splits)
qed simp

interpretation rtp_receiver: guarded_receiver "\<lambda>R. one_check (srtp_rtp R)" window_of "srtp_recv cr mem" for cr mem
proof
  fix s p s' r assume ok: "one_check (srtp_rtp s)" and recv: "srtp_recv cr mem s p = Some (s', r)"
  obtain mb ms mb' err where p: "p = (mb, ms)" "srtp_decrypt cr mem ms s mb = Some (s', mb', err)"
      "r = (if err = 0 then packet_id ms s mb else None)"
    using recv by (auto simp: srtp_recv_def split: prod.splits bind_splits)
  note w = decrypt_window [OF p(2) ok]
  then show "one_check (srtp_rtp s')" by blast
  from w p(3) show "(r = None \<and> window_of s' = window_of s)
      \<or> (\<exists>k ix. r \<in> {None, Some (k, ix)} \<and> window_of s' = (window_of s)(k := fst (srtp_replay_check (window_of s k) ix))
          \<and> (r \<noteq> None \<longrightarrow> snd (srtp_replay_check (window_of s k) ix)))"
    by (cases "err = 0") auto
qed

section \<open>The estimate of the index\<close>

definition guess :: "u32 \<Rightarrow> u16 \<Rightarrow> u16 \<Rightarrow> int" where
  "guess roc s_l seq = uint roc + (if uint s_l < 32768 then (if uint seq - uint s_l > 32768 then -1 else 0)
     else (if uint s_l - 32768 > uint seq then 1 else 0))"

lemma guess_bounds: "uint roc - 1 \<le> guess roc s_l seq" "guess roc s_l seq \<le> uint roc + 1"
  by (simp_all add: guess_def)

lemma guess_distance:
  assumes "0 \<le> s" "s < 65536" "0 \<le> q" "q < (65536 :: int)"
  shows "\<bar>q + (r + (if s < 32768 then (if q - s > 32768 then -1 else 0) else (if s - 32768 > q then 1 else 0))) * 65536
     - (65536 * r + s)\<bar> \<le> 32768"
  using assms by (auto simp: abs_le_iff)

lemma and_all_ones: "(x :: u32) AND 0xffffffff = x"
proof -
  have "(0xffffffff :: u32) = -1" by simp
  then show ?thesis by (simp only: and.right_neutral)
qed

lemma sint_pred: "uint (x :: u32) < 2147483648 \<Longrightarrow> sint (x - 1) = uint x - 1"
proof (cases "x = 0")
  case False
  assume "uint x < 2147483648"
  moreover have "uint (x - 1) = uint x - 1" 
  proof -
    have "uint x \<noteq> 0" using False by (simp add: uint_0_iff)
    then have "1 \<le> uint x" using uint_ge_0 [of x] by linarith
    then show ?thesis using uint_sub_lem [of 1 x] by simp
  qed
  ultimately show ?thesis by (simp add: sint_small)
qed simp

lemma sint_succ: "uint (x :: u32) < 2147483647 \<Longrightarrow> sint (x + 1) = uint x + 1"
  using uint_add_lem [of x 1] by (simp add: sint_small)

lemma sint_u64: "- 2147483648 \<le> i \<Longrightarrow> i < 2147483648 \<Longrightarrow> sint (word_of_int i :: u64) = i"
proof -
  assume "- 2147483648 \<le> i" "i < 2147483648"
  then have "signed_take_bit 63 i = i" by (intro signed_take_bit_int_eq_self) simp_all
  then show "sint (word_of_int i :: u64) = i" by (simp add: signed_of_int)
qed

lemma get_index_guess:
  assumes "uint roc < 2147483647"
  shows "srtp_get_index roc s_l seq =
    (if guess roc s_l seq * 65536 + uint seq < 2147483648 then Some (word_of_int (uint seq + guess roc s_l seq * 65536)) else None)"
proof -
  have v: "sint (if uint s_l < 32768
                 then (if uint seq - uint s_l > 32768 then (roc - 1) AND 0xffffffff else roc)
                 else (if uint s_l - 32768 > uint seq then (roc + 1) AND 0xffffffff else roc)) = guess roc s_l seq"
    using assms unfolding and_all_ones guess_def by (simp add: sint_pred sint_succ sint_small)
  have "- 1 \<le> guess roc s_l seq" using uint_ge_0 [of roc] guess_bounds(1) [of roc s_l seq] by linarith
  then have "- 2147483648 \<le> guess roc s_l seq * 65536" by linarith
  then show ?thesis unfolding srtp_get_index_def v Let_def by simp
qed

section \<open>Properties\<close>

definition demo_crypto :: "(bytes \<times> bytes, bytes) crypto" where
  "demo_crypto = \<lparr>
     aes_alloc = (\<lambda>m k iv. Inr (k, case iv of None \<Rightarrow> [] | Some v \<Rightarrow> v)),
     aes_set_iv = (\<lambda>(k, _) iv. (k, iv)),
     aes_encr = (\<lambda>(k, iv) p. ((k, iv), map ((XOR) (foldr (XOR) (k @ iv) 0)) p, 0)),
     aes_encr_ad = (\<lambda>a p. (a, 0)),
     aes_decr = (\<lambda>(k, iv) p. ((k, iv), map ((XOR) (foldr (XOR) (k @ iv) 0)) p, 0)),
     aes_decr_ad = (\<lambda>a p. (a, 0)),
     aes_get_authtag = (\<lambda>a n. (a, replicate n 0, 0)),
     aes_authenticate = (\<lambda>a tag. (a, 0)),
     hmac_create = Inr,
     hmac_digest = (\<lambda>h d. (replicate 20 (foldr (XOR) (h @ d) 0), 0))\<rparr>"

definition demo_enc :: "bytes \<Rightarrow> bytes \<Rightarrow> bytes \<Rightarrow> bytes" where
  "demo_enc k iv p = map ((XOR) (foldr (XOR) (k @ iv) 0)) p"

lemma demo_laws: "ctr_laws demo_crypto (\<lambda>(k, _). Some k) demo_enc" "hmac_laws demo_crypto" "alloc_laws demo_crypto (\<lambda>(k, _). Some k)"
  by (auto simp: ctr_laws_def hmac_laws_def alloc_laws_def demo_crypto_def demo_enc_def comp_def SHA_DIGEST_LENGTH_def
      xor.assoc [symmetric] map_idI)

definition demo_packet :: "nat \<Rightarrow> mbuf" where
  "demo_packet n = lay [] (rtp_hdr_bytes (demo_hdr\<lparr>hdr_seq := of_nat n\<rparr>) @ [1, 2, 3]) (replicate 20 0) 0"

text \<open>
  (C4) Two parties with the same key and a counter mode suite: the sender protects consecutively
  numbered packets of a source, starting anywhere in the first cycle of sequence numbers, and any of
  them may be lost as long as the losses can be bridged. Every packet that arrives is accepted and
  is, after unprotection, the packet that was sent. The numbers stay below \<open>2 ^ 31\<close>, where the index
  computation of the receiver is defined.
\<close>

theorem srtp_session_delivers:
  assumes "ctr_laws cr key enc" and "hmac_laws cr" and "alloc_laws cr key"
    and "srtp_alloc cr True suite mkey flags = Inr S" and "fst (suite_params suite) = AES_MODE_CTR"
    and "numbered ssrc n (map fst ps)" and "bridged None n (map snd ps)" and "n < 65536" and "n + length ps \<le> 2147483648"
  shows "session cr mem S S ps = Some (map (\<lambda>(mb, _). (mbuf_rest mb, 0, 0)) (filter snd ps))"
proof -
  obtain k h s t where c: "ctr_comp key k h s t (srtp_rtp S)" "srtp_streaml S = []"
    using alloc_ctr [OF assms(4,5,3)] by metis
  show ?thesis
    by (rule session_run [OF assms(1,2) c(1) c(1), of ssrc None n None])
      (use assms c(2) in \<open>simp_all add: seen_up_to_def window_up_to_def window_of_def\<close>)
qed

theorem srtp_session_delivers_witness:
  "\<exists>S. srtp_alloc demo_crypto True SRTP_AES_CM_128_HMAC_SHA1_80 (replicate 30 7) False = Inr S
     \<and> session demo_crypto (\<lambda>_. False) S S [(demo_packet 65534, True), (demo_packet 65535, False), (demo_packet 65536, True)]
       = Some [(mbuf_rest (demo_packet 65534), 0, 0), (mbuf_rest (demo_packet 65536), 0, 0)]"
proof -
  obtain S where S: "srtp_alloc demo_crypto True SRTP_AES_CM_128_HMAC_SHA1_80 (replicate 30 7) False = Inr S"
    by (simp add: srtp_alloc_def comp_init_def srtp_derive_def demo_crypto_def comp_zero_def Let_def rawr_defs)
  have ok: "hdr_ok (demo_hdr\<lparr>hdr_seq := w\<rparr>)" for w by (simp add: demo_hdr_def hdr_ok_def RTP_VERSION_def)
  have num: "numbered (hdr_ssrc demo_hdr) 65534 [demo_packet 65534, demo_packet 65535, demo_packet 65536]"
    unfolding numbered.simps demo_packet_def rest_lay
    using ok by (auto simp: SHA_DIGEST_LENGTH_def intro!: exI [of _ "demo_hdr\<lparr>hdr_seq := _\<rparr>"])
  show ?thesis
    using srtp_session_delivers [OF demo_laws S, of "hdr_ssrc demo_hdr" 65534
        "[(demo_packet 65534, True), (demo_packet 65535, False), (demo_packet 65536, True)]" "\<lambda>_. False"] S num
    by simp
qed

text \<open>
  (C6) A receiver never accepts two packets with the same source and index: in a session that checks
  the window of each packet once, as allocation makes it, whatever packets arrive.
\<close>

theorem srtp_no_replay:
  assumes "one_check (srtp_rtp R)" and "srtp_streaml R = []" and "accepted_ids cr mem R mbs = Some ids"
  shows "distinct ids"
  using rtp_receiver.accepts_distinct [OF assms(1) _ assms(3) [unfolded accepted_ids_run]] assms(2) by (simp add: window_of_def)

definition demo_receiver :: "(bytes \<times> bytes, bytes) srtp" where
  "demo_receiver = (let c = comp_zero\<lparr>comp_aes := Some ([], []), comp_hmac := Some [], comp_tag_len := 4\<rparr>
     in \<lparr>srtp_rtp = c, srtp_rtcp = c, srtp_streaml = []\<rparr>)"

definition demo_wire :: mbuf where
  "demo_wire = of_wire [128, 0, 0, 5, 0, 0, 0, 0, 0, 0, 0, 7, 130, 0, 0, 0, 0]"

theorem srtp_no_replay_witness:
  "accepted_ids demo_crypto (\<lambda>_. False) demo_receiver [(demo_wire, True), (demo_wire, True)] = Some [(7, 5)]
   \<and> distinct [(7 :: u32, 5 :: u64)]"
proof -
  have run: "accepted_ids demo_crypto (\<lambda>_. False) demo_receiver [(demo_wire, True), (demo_wire, True)] = Some [(7, 5)]"
    by code_simp
  moreover have "distinct [(7 :: u32, 5 :: u64)]"
    by (rule srtp_no_replay [OF _ _ run]) (simp_all add: demo_receiver_def one_check_def comp_zero_def Let_def)
  ultimately show ?thesis by blast
qed

text \<open>
  (C39) The index estimate of a receiver: the product of the guessed counter and 65536 is one of \<^verbatim>\<open>int\<close>. For
  counters below 32767 it is defined, has the packet's sequence number as its low half, and is within
  32768 of the receiver's own index. For counters from 32768 to 2147483646 the estimate for a packet whose
  sequence number is less than 32768 away from the receiver's overflows.
\<close>

theorem srtp_get_index_near:
  "(uint roc < 32767 \<longrightarrow> (\<exists>ix. srtp_get_index roc s_l seq = Some ix \<and> sint ix mod 65536 = uint seq
      \<and> \<bar>sint ix - (65536 * uint roc + uint s_l)\<bar> \<le> 32768))
   \<and> (32768 \<le> uint roc \<and> uint roc < 2147483647 \<and> \<bar>uint seq - uint s_l\<bar> < 32768 \<longrightarrow> srtp_get_index roc s_l seq = None)"
proof (intro conjI impI; (elim conjE)?)
  let ?v = "guess roc s_l seq"
  have b: "0 \<le> uint roc" "0 \<le> uint seq" "uint seq < 65536" "0 \<le> uint s_l" "uint s_l < 65536"
    using unsigned_less [of seq] unsigned_less [of s_l] by simp_all
  {
    assume r: "uint roc < 32767"
    have g: "- 1 \<le> ?v" "?v \<le> 32767" using b(1) r guess_bounds [of roc s_l seq] by linarith+
    then have range: "- 2147483648 \<le> uint seq + ?v * 65536" "uint seq + ?v * 65536 < 2147483648" using b by linarith+
    have "srtp_get_index roc s_l seq = Some (word_of_int (uint seq + ?v * 65536))"
      using r range by (simp add: get_index_guess add.commute)
    moreover have "(uint seq + ?v * 65536) mod 65536 = uint seq" using b by simp
    moreover have "\<bar>uint seq + ?v * 65536 - (65536 * uint roc + uint s_l)\<bar> \<le> 32768"
      unfolding guess_def using b by (intro guess_distance)
    ultimately show "\<exists>ix. srtp_get_index roc s_l seq = Some ix \<and> sint ix mod 65536 = uint seq
      \<and> \<bar>sint ix - (65536 * uint roc + uint s_l)\<bar> \<le> 32768"
      using sint_u64 [OF range] by auto
  next
    assume r: "32768 \<le> uint roc" "uint roc < 2147483647" "\<bar>uint seq - uint s_l\<bar> < 32768"
    then have "?v = uint roc" by (auto simp: guess_def abs_less_iff)
    moreover have "\<not> uint roc * 65536 + uint seq < 2147483648" using r(1) b(2) by linarith
    ultimately show "srtp_get_index roc s_l seq = None" using r(2) by (simp add: get_index_guess)
  }
qed

theorem srtp_get_index_near_witness:
  "\<exists>ix. srtp_get_index 1 65530 3 = Some ix \<and> sint ix mod 65536 = 3 \<and> \<bar>sint ix - 131066\<bar> \<le> 32768"
  using srtp_get_index_near [of 1 65530 3] by simp

end
