(* ===== verification/Srtcp.thy ===== *)
theory Srtcp
  imports SrtpSession
begin

text \<open>
  Secure RTCP of re, \<^verbatim>\<open>deps/re/src/srtp/srtcp.c\<close>: control packets carry their index, so that a receiver need not guess it.
  Shown are the way of a packet from a sender to a receiver across losses, and what the replay window of control packets
  guards.
\<close>

section \<open>Operations\<close>

definition get_rtcp_ssrc :: "mbuf \<Rightarrow> (mbuf \<times> (int + u32)) option" where
  "get_rtcp_ssrc mb =
     (if mbuf_get_left mb < 8 then Some (mb, Inl EBADMSG)
      else map_option (\<lambda>(mb, v). (mb, Inr (ntohl v))) (mbuf_read_u32 (mb\<lparr>mb_pos := mb_pos mb + 4\<rparr>)))"

text \<open>Protection with GCM: header and index are associated data, and the tag follows the payload.\<close>

definition rtcp_gcm_encrypt ::
  "('a, 'h) crypto \<Rightarrow> (nat \<Rightarrow> bool) \<Rightarrow> ('a, 'h) comp \<Rightarrow> 'a \<Rightarrow> u32 \<Rightarrow> u32 \<Rightarrow> nat \<Rightarrow> mbuf \<Rightarrow> (('a, 'h) comp \<times> mbuf \<times> int) option" where
  "rtcp_gcm_encrypt cr mem cmp aes ssrc ix start mb =
     (let ix_be = htonl (0x80000000 OR ix);
          aes = aes_set_iv cr aes (srtp_iv_calc_gcm (comp_k_s cmp) ssrc (ucast ix)) in do {
        ad \<leftarrow> mem_read (mb_buf mb) start (mb_pos mb - start);
        case aes_encr_ad cr aes ad of (aes, e1) \<Rightarrow>
        case aes_encr_ad cr aes (le32 ix_be) of (aes, e2) \<Rightarrow>
        (let err = e1 OR e2 in
        if err \<noteq> 0 then Some (cmp\<lparr>comp_aes := Some aes\<rparr>, mb, err)
        else do {
          (aes, mb, err) \<leftarrow> cipher_in_place (aes_encr cr) aes mb (mbuf_get_left mb);
          if err \<noteq> 0 then Some (cmp\<lparr>comp_aes := Some aes\<rparr>, mb, err)
          else (case aes_get_authtag cr aes GCM_TAGLEN of (aes, tag, err) \<Rightarrow>
            if err \<noteq> 0 then Some (cmp\<lparr>comp_aes := Some aes\<rparr>, mb, err)
            else (case mbuf_write_mem mem (mb\<lparr>mb_pos := mb_end mb\<rparr>) tag of (mb, err) \<Rightarrow>
              Some (cmp\<lparr>comp_aes := Some aes\<rparr>, mb, err)))
        })
      })"

text \<open>The tag is the digest of the packet with its index.\<close>

definition rtcp_tag_append :: "('a, 'h) crypto \<Rightarrow> (nat \<Rightarrow> bool) \<Rightarrow> ('a, 'h) comp \<Rightarrow> nat \<Rightarrow> mbuf \<Rightarrow> (mbuf \<times> int) option" where
  "rtcp_tag_append cr mem cmp start mb =
     (case comp_hmac cmp of
        None \<Rightarrow> Some (mb, 0)
      | Some h \<Rightarrow> (let mb = mb\<lparr>mb_pos := start\<rparr> in do {
          d \<leftarrow> mem_read (mb_buf mb) (mb_pos mb) (mbuf_get_left mb);
          case hmac_digest cr h d of (tag, err) \<Rightarrow>
          if err \<noteq> 0 then Some (mb, err)
          else do {
            tag \<leftarrow> mem_read tag 0 (comp_tag_len cmp);
            Some (mbuf_write_mem mem (mb\<lparr>mb_pos := mb_end mb\<rparr>) tag)
          }
        }))"

definition srtcp_encrypt ::
  "('a, 'h) crypto \<Rightarrow> (nat \<Rightarrow> bool) \<Rightarrow> bool \<Rightarrow> ('a, 'h) srtp \<Rightarrow> mbuf \<Rightarrow> (('a, 'h) srtp \<times> mbuf \<times> int) option" where
  "srtcp_encrypt cr mem mem_strm srtp mb =
     (let start = mb_pos mb; cmp = srtp_rtcp srtp in do {
        (mb, r) \<leftarrow> get_rtcp_ssrc mb;
        (case r of
           Inl err \<Rightarrow> Some (srtp, mb, err)
         | Inr ssrc \<Rightarrow>
             (case stream_get mem_strm srtp ssrc of
                (srtp, Inl err) \<Rightarrow> Some (srtp, mb, err)
              | (srtp, Inr i) \<Rightarrow>
                  (let strm = srtp_streaml srtp ! i;
                       ix = (strm_rtcp_index strm + 1) AND 0x7fffffff;
                       srtp = srtp\<lparr>srtp_streaml := (srtp_streaml srtp)[i := strm\<lparr>strm_rtcp_index := ix\<rparr>]\<rparr>
                   in do {
                     (cmp, mb, err, ep) \<leftarrow>
                       (case comp_aes cmp of
                          None \<Rightarrow> Some (cmp, mb, 0, 0 :: u32)
                        | Some aes \<Rightarrow> map_option (\<lambda>(cmp, mb, err). (cmp, mb, err, 1))
                            (case comp_mode cmp of
                               AES_MODE_CTR \<Rightarrow> ctr_encrypt cr cmp aes ssrc (ucast ix) mb
                             | AES_MODE_GCM \<Rightarrow> rtcp_gcm_encrypt cr mem cmp aes ssrc ix start mb));
                     let srtp = srtp\<lparr>srtp_rtcp := cmp\<rparr> in
                     if err \<noteq> 0 then Some (srtp, mb, err)
                     else (case mbuf_write_u32 mem (mb\<lparr>mb_pos := mb_end mb\<rparr>) (htonl (push_bit 31 ep OR ix)) of (mb, err) \<Rightarrow>
                       if err \<noteq> 0 then Some (srtp, mb, err)
                       else do {
                         (mb, err) \<leftarrow> rtcp_tag_append cr mem cmp start mb;
                         if err \<noteq> 0 then Some (srtp, mb, err) else Some (srtp, mb\<lparr>mb_pos := start\<rparr>, 0)
                       })
                   })))
      })"

text \<open>The replay window of the control packets of stream \<open>i\<close>.\<close>

definition replay_rtcp :: "('a, 'h) srtp \<Rightarrow> nat \<Rightarrow> u64 \<Rightarrow> ('a, 'h) srtp \<times> int" where
  "replay_rtcp srtp i ix =
     (let strm = srtp_streaml srtp ! i in
      case srtp_replay_check (strm_replay_rtcp strm) ix of (r, b) \<Rightarrow>
        (srtp\<lparr>srtp_streaml := (srtp_streaml srtp)[i := strm\<lparr>strm_replay_rtcp := r\<rparr>]\<rparr>, if b then 0 else EALREADY))"

text \<open>The tag is at the position; what is authenticated ends there. The index is checked only here.\<close>

definition rtcp_tag_check ::
  "('a, 'h) crypto \<Rightarrow> ('a, 'h) comp \<Rightarrow> nat \<Rightarrow> nat \<Rightarrow> u32 \<Rightarrow> ('a, 'h) srtp \<Rightarrow> mbuf \<Rightarrow> (('a, 'h) srtp \<times> mbuf \<times> int) option" where
  "rtcp_tag_check cr cmp start i ix srtp mb =
     (case comp_hmac cmp of
        None \<Rightarrow> Some (srtp, mb, 0)
      | Some h \<Rightarrow> (let tag_start = mb_pos mb in do {
          (mb, r) \<leftarrow> mbuf_read_mem mb (comp_tag_len cmp);
          (case r of
             Inl err \<Rightarrow> Some (srtp, mb, err)
           | Inr tag_pkt \<Rightarrow> (let mb = mb\<lparr>mb_pos := start, mb_end := tag_start\<rparr> in do {
               d \<leftarrow> mem_read (mb_buf mb) (mb_pos mb) (mbuf_get_left mb);
               case hmac_digest cr h d of (tag, err) \<Rightarrow>
               if err \<noteq> 0 then Some (srtp, mb, err)
               else do {
                 tag \<leftarrow> mem_read tag 0 (comp_tag_len cmp);
                 if tag \<noteq> tag_pkt then Some (srtp, mb, EAUTH)
                 else (case replay_rtcp srtp i (ucast ix) of (srtp, err) \<Rightarrow> Some (srtp, mb, err))
               }
             }))
        }))"

definition rtcp_gcm_decrypt ::
  "('a, 'h) crypto \<Rightarrow> ('a, 'h) comp \<Rightarrow> 'a \<Rightarrow> u32 \<Rightarrow> u32 \<Rightarrow> nat \<Rightarrow> nat \<Rightarrow> nat \<Rightarrow> mbuf \<Rightarrow> (('a, 'h) comp \<times> mbuf \<times> int) option" where
  "rtcp_gcm_decrypt cr cmp aes ssrc ix start pld_start eix_start mb =
     (let aes = aes_set_iv cr aes (srtp_iv_calc_gcm (comp_k_s cmp) ssrc (ucast ix)) in do {
        ad \<leftarrow> mem_read (mb_buf mb) start (pld_start - start);
        eix \<leftarrow> mem_read (mb_buf mb) eix_start 4;
        case aes_decr_ad cr aes ad of (aes, e1) \<Rightarrow>
        case aes_decr_ad cr aes eix of (aes, e2) \<Rightarrow>
        (let err = e1 OR e2 in
        if err \<noteq> 0 then Some (cmp\<lparr>comp_aes := Some aes\<rparr>, mb, err)
        else (let mb = mb\<lparr>mb_pos := pld_start\<rparr> in
          if mbuf_get_left mb < GCM_TAGLEN then Some (cmp\<lparr>comp_aes := Some aes\<rparr>, mb, EBADMSG)
          else (let tag_start = mb_end mb - GCM_TAGLEN in do {
            (aes, mb, err) \<leftarrow> cipher_in_place (aes_decr cr) aes mb (tag_start - pld_start);
            if err \<noteq> 0 then Some (cmp\<lparr>comp_aes := Some aes\<rparr>, mb, err)
            else do {
              tag \<leftarrow> mem_read (mb_buf mb) tag_start GCM_TAGLEN;
              case aes_authenticate cr aes tag of (aes, err) \<Rightarrow>
              Some (cmp\<lparr>comp_aes := Some aes\<rparr>, if err \<noteq> 0 then mb else mb\<lparr>mb_end := tag_start\<rparr>, err)
            }
          })))
      })"

definition srtcp_decrypt ::
  "('a, 'h) crypto \<Rightarrow> bool \<Rightarrow> ('a, 'h) srtp \<Rightarrow> mbuf \<Rightarrow> (('a, 'h) srtp \<times> mbuf \<times> int) option" where
  "srtcp_decrypt cr mem_strm srtp mb =
     (let start = mb_pos mb; cmp = srtp_rtcp srtp in do {
        (mb, r) \<leftarrow> get_rtcp_ssrc mb;
        (case r of
           Inl err \<Rightarrow> Some (srtp, mb, err)
         | Inr ssrc \<Rightarrow>
             (case stream_get mem_strm srtp ssrc of
                (srtp, Inl err) \<Rightarrow> Some (srtp, mb, err)
              | (srtp, Inr i) \<Rightarrow>
                  (let pld_start = mb_pos mb in
                   if mbuf_get_left mb < 4 + comp_tag_len cmp then Some (srtp, mb, EBADMSG)
                   else (let eix_start = mb_end mb - (4 + comp_tag_len cmp) in do {
                     (mb, v) \<leftarrow> mbuf_read_u32 (mb\<lparr>mb_pos := eix_start\<rparr>);
                     let v = ntohl v; ep = drop_bit 31 v AND 1; ix = v AND 0x7fffffff in do {
                       (srtp, mb, err) \<leftarrow> rtcp_tag_check cr cmp start i ix srtp mb;
                       if err \<noteq> 0 then Some (srtp, mb, err)
                       else (let mb = mb\<lparr>mb_end := eix_start\<rparr> in do {
                         (cmp, mb, err) \<leftarrow>
                           (case comp_aes cmp of
                              None \<Rightarrow> Some (cmp, mb, 0)
                            | Some aes \<Rightarrow>
                                if ep = 0 then Some (cmp, mb, 0)
                                else (case comp_mode cmp of
                                   AES_MODE_CTR \<Rightarrow> ctr_decrypt cr cmp aes ssrc (ucast ix) (mb\<lparr>mb_pos := pld_start\<rparr>)
                                 | AES_MODE_GCM \<Rightarrow> rtcp_gcm_decrypt cr cmp aes ssrc ix start pld_start eix_start mb));
                         let srtp = srtp\<lparr>srtp_rtcp := cmp\<rparr> in
                         if err \<noteq> 0 then Some (srtp, mb, err) else Some (srtp, mb\<lparr>mb_pos := start\<rparr>, 0)
                       })
                     }
                   }))))
      })"

section \<open>Streams\<close>

definition rtcp_window_of :: "('a, 'h) srtp \<Rightarrow> u32 \<Rightarrow> replay" where
  "rtcp_window_of srtp ssrc = (case stream_find (srtp_streaml srtp) ssrc of
     None \<Rightarrow> srtp_replay_init | Some i \<Rightarrow> strm_replay_rtcp (srtp_streaml srtp ! i))"

definition rtcp_index_of :: "('a, 'h) srtp \<Rightarrow> u32 \<Rightarrow> u32" where
  "rtcp_index_of srtp ssrc = (case stream_find (srtp_streaml srtp) ssrc of
     None \<Rightarrow> 0 | Some i \<Rightarrow> strm_rtcp_index (srtp_streaml srtp ! i))"

text \<open>A session that has the stream or room for it.\<close>

definition has_room :: "('a, 'h) srtp \<Rightarrow> u32 \<Rightarrow> bool" where
  "has_room srtp ssrc \<longleftrightarrow> stream_find (srtp_streaml srtp) ssrc \<noteq> None \<or> length (srtp_streaml srtp) < SRTP_MAX_STREAMS"

lemma get_room:
  assumes "has_room srtp ssrc"
  obtains ss i where "stream_get True srtp ssrc = (srtp\<lparr>srtp_streaml := ss\<rparr>, Inr i)" "stream_find ss ssrc = Some i"
    "strm_replay_rtcp (ss ! i) = rtcp_window_of srtp ssrc" "strm_rtcp_index (ss ! i) = rtcp_index_of srtp ssrc"
proof (cases "stream_find (srtp_streaml srtp) ssrc")
  case None
  let ?new = "\<lparr>strm_replay_rtp = srtp_replay_init, strm_replay_rtcp = srtp_replay_init, strm_ssrc = ssrc,
    strm_roc = 0, strm_s_l = 0, strm_s_l_set = False, strm_rtcp_index = 0\<rparr>"
  show ?thesis
    using assms None
    by (intro that [of "srtp_streaml srtp @ [?new]" "length (srtp_streaml srtp)"])
      (simp_all add: has_room_def stream_get_def stream_new_def stream_find_append rtcp_window_of_def rtcp_index_of_def)
next
  case (Some i)
  then show ?thesis
    by (intro that [of "srtp_streaml srtp" i]) (simp_all add: stream_get_def rtcp_window_of_def rtcp_index_of_def)
qed

text \<open>A change of the found stream shows in what is looked up for its source.\<close>

lemma rtcp_put:
  assumes "stream_find ss ssrc = Some i" and "strm_ssrc s' = ssrc"
  shows "stream_find (ss[i := s']) ssrc = Some i"
    "rtcp_window_of (srtp\<lparr>srtp_rtcp := c, srtp_streaml := ss[i := s']\<rparr>) ssrc = strm_replay_rtcp s'"
    "rtcp_index_of (srtp\<lparr>srtp_rtcp := c, srtp_streaml := ss[i := s']\<rparr>) ssrc = strm_rtcp_index s'"
    "has_room (srtp\<lparr>srtp_rtcp := c, srtp_streaml := ss[i := s']\<rparr>) ssrc"
  using stream_find_Some [OF assms(1)] assms
  by (simp_all add: stream_find_update rtcp_window_of_def rtcp_index_of_def has_room_def)

section \<open>One packet\<close>

text \<open>What goes on the wire for header \<open>H\<close> and payload \<open>p\<close> of the control packet with index \<open>ix\<close>.\<close>

definition rtcp_sealed :: "(bytes \<Rightarrow> bytes \<Rightarrow> bytes \<Rightarrow> bytes) \<Rightarrow> bytes \<Rightarrow> bytes \<Rightarrow> u32 \<Rightarrow> u32 \<Rightarrow> bytes \<Rightarrow> bytes \<Rightarrow> bytes" where
  "rtcp_sealed enc k s ssrc ix H p = H @ enc k (srtp_iv_calc s ssrc (ucast ix)) p @ be32 (0x80000000 OR ix)"

definition rtcp_wire ::
  "('a, 'h) crypto \<Rightarrow> (bytes \<Rightarrow> bytes \<Rightarrow> bytes \<Rightarrow> bytes) \<Rightarrow> bytes \<Rightarrow> 'h \<Rightarrow> bytes \<Rightarrow> nat \<Rightarrow> u32 \<Rightarrow> u32 \<Rightarrow> bytes \<Rightarrow> bytes \<Rightarrow> bytes" where
  "rtcp_wire cr enc k h s t ssrc ix H p =
     (let e = rtcp_sealed enc k s ssrc ix H p in e @ take t (fst (hmac_digest cr h e)))"

lemma ssrc_lay:
  assumes "length H = 8"
  shows "get_rtcp_ssrc (lay pre (H @ xs) post 0) = Some (lay pre (H @ xs) post 8, Inr (be32_of (drop 4 H)))"
proof -
  have "take 4 (drop 4 H @ xs) = drop 4 H" using assms by simp
  moreover have "bswap32 (le32_of bs) = be32_of bs" if "length bs = 4" for bs :: bytes
    using that by (simp add: bswap32_def be32_of_def)
  ultimately show ?thesis
    using assms by (simp add: get_rtcp_ssrc_def mbuf_read_u32_def mbuf_read_mem_ok)
qed

lemma index_bits:
  assumes "ix AND 0x7fffffff = (ix :: u32)"
  shows "drop_bit 31 (0x80000000 OR ix) AND 1 = 1" "(0x80000000 OR ix) AND 0x7fffffff = ix"
proof -
  have "(0x80000000 :: u32) AND 0x7fffffff = 0" by simp
  then show "(0x80000000 OR ix) AND 0x7fffffff = ix" using assms by (simp add: bit.conj_disj_distrib2)
  have "odd (drop_bit 31 (0x80000000 OR ix))" by (simp add: even_or_iff)
  then show "drop_bit 31 (0x80000000 OR ix) AND 1 = 1" by (simp add: and_one_eq odd_iff_mod_2_eq_one)
qed

lemma rtcp_encrypt_packet:
  assumes laws: "ctr_laws cr key enc" "hmac_laws cr" and c: "ctr_comp key k h s t (srtp_rtcp srtp)"
    and H: "length H = 8" "ssrc = be32_of (drop 4 H)" and room: "has_room srtp ssrc" "4 + t \<le> length post"
    and ix: "ix = (rtcp_index_of srtp ssrc + 1) AND 0x7fffffff"
  shows "\<exists>srtp' post'. srtcp_encrypt cr mem True srtp (lay pre (H @ p) post 0) =
      Some (srtp', lay pre (rtcp_wire cr enc k h s t ssrc ix H p) post' 0, 0)
    \<and> ctr_comp key k h s t (srtp_rtcp srtp') \<and> rtcp_index_of srtp' ssrc = ix \<and> has_room srtp' ssrc"
proof -
  obtain ss i where get: "stream_get True srtp ssrc = (srtp\<lparr>srtp_streaml := ss\<rparr>, Inr i)" and i: "stream_find ss ssrc = Some i"
      "strm_rtcp_index (ss ! i) = rtcp_index_of srtp ssrc"
    using get_room [OF room(1)] by metis
  obtain a where a: "comp_aes (srtp_rtcp srtp) = Some a" "key a = Some k" and cm: "comp_mode (srtp_rtcp srtp) = AES_MODE_CTR"
    "comp_k_s (srtp_rtcp srtp) = s" "comp_hmac (srtp_rtcp srtp) = Some h" "comp_tag_len (srtp_rtcp srtp) = t" "t \<le> SHA_DIGEST_LENGTH"
    using c by (auto simp: ctr_comp_def)
  let ?iv = "srtp_iv_calc s ssrc (ucast ix)"
  obtain a' where enc: "aes_encr cr (aes_set_iv cr a ?iv) p = (a', enc k ?iv p, 0)" "key a' = Some k"
    "length (enc k ?iv p) = length p"
    using laws(1) a(2) unfolding ctr_laws_def by meson
  define c' where "c' = (srtp_rtcp srtp)\<lparr>comp_aes := Some a'\<rparr>"
  have c'c: "ctr_comp key k h s t c'" using c enc(2) by (simp add: ctr_comp_def c'_def)
  let ?ct = "enc k ?iv p" and ?e = "rtcp_sealed enc k s ssrc ix H p"
  have ctr: "ctr_encrypt cr (srtp_rtcp srtp) a ssrc (ucast ix) (lay pre (H @ p) post 8) = Some (c', lay pre (H @ ?ct) post 8, 0)"
    using cipher_lay [of "aes_encr cr", OF enc(1,3), of 8 H pre post] cm H(1) enc(3) by (simp add: ctr_encrypt_def c'_def)
  have w: "mbuf_write_mem mem (lay pre (H @ ?ct) post (length (H @ ?ct))) (be32 (0x80000000 OR ix)) =
      (lay pre ?e (drop 4 post) (length (H @ ?ct) + 4), 0)"
    using room(2) write_lay [of "be32 (0x80000000 OR ix)" post "length (H @ ?ct)" "H @ ?ct" mem pre] by (simp add: rtcp_sealed_def)
  obtain tag where tag: "hmac_digest cr h ?e = (tag, 0)" "length tag = SHA_DIGEST_LENGTH"
    using laws(2) unfolding hmac_laws_def by meson
  have w2: "mbuf_write_mem mem (lay pre ?e (drop 4 post) (length ?e)) (take t tag) =
      (lay pre (?e @ take t tag) (drop t (drop 4 post)) (length ?e + t), 0)"
    using room(2) tag(2) cm(5) write_lay [of "take t tag" "drop 4 post" "length ?e" ?e mem pre] by simp
  have app: "rtcp_tag_append cr mem c' (length pre) (lay pre ?e (drop 4 post) j) =
      Some (lay pre (rtcp_wire cr enc k h s t ssrc ix H p) (drop t (drop 4 post)) (length ?e + t), 0)" for j
    using cm tag w2 by (simp add: rtcp_tag_append_def c'_def Let_def mem_simps rtcp_wire_def)
  let ?strm = "(ss ! i)\<lparr>strm_rtcp_index := ix\<rparr>"
  let ?srtp' = "srtp\<lparr>srtp_rtcp := c', srtp_streaml := ss[i := ?strm]\<rparr>"
  have sh: "push_bit 31 (1 :: u32) = 0x80000000" by simp
  have "srtcp_encrypt cr mem True srtp (lay pre (H @ p) post 0) =
      Some (?srtp', lay pre (rtcp_wire cr enc k h s t ssrc ix H p) (drop t (drop 4 post)) 0, 0)"
    using ssrc_lay [OF H(1), of pre p post] H(2) get a(1) cm(1) ctr i(2) ix w app
    by (simp add: srtcp_encrypt_def Let_def mbuf_write_u32_def le_bswap sh)
  moreover have "strm_ssrc ?strm = ssrc" using stream_find_Some [OF i(1)] by simp
  ultimately show ?thesis
    using c'c rtcp_put(2-4) [OF i(1), of ?strm, where srtp = srtp and c = c'] by (intro exI [of _ ?srtp'] exI [of _ "drop t (drop 4 post)"]) simp
qed

lemma rtcp_decrypt_packet:
  assumes laws: "ctr_laws cr key enc" "hmac_laws cr" and c: "ctr_comp key k h s t (srtp_rtcp srtp)"
    and H: "length H = 8" "ssrc = be32_of (drop 4 H)" and room: "has_room srtp ssrc"
    and ix: "ix AND 0x7fffffff = ix" and fresh: "srtp_replay_check (rtcp_window_of srtp ssrc) (ucast ix) = (w, True)"
  shows "\<exists>srtp' post'. srtcp_decrypt cr True srtp (lay pre (rtcp_wire cr enc k h s t ssrc ix H p) post 0) =
      Some (srtp', lay pre (H @ p) post' 0, 0)
    \<and> ctr_comp key k h s t (srtp_rtcp srtp') \<and> rtcp_window_of srtp' ssrc = w \<and> has_room srtp' ssrc"
proof -
  obtain ss i where get: "stream_get True srtp ssrc = (srtp\<lparr>srtp_streaml := ss\<rparr>, Inr i)" and i: "stream_find ss ssrc = Some i"
      "strm_replay_rtcp (ss ! i) = rtcp_window_of srtp ssrc"
    using get_room [OF room(1)] by metis
  obtain a where a: "comp_aes (srtp_rtcp srtp) = Some a" "key a = Some k" and cm: "comp_mode (srtp_rtcp srtp) = AES_MODE_CTR"
    "comp_k_s (srtp_rtcp srtp) = s" "comp_hmac (srtp_rtcp srtp) = Some h" "comp_tag_len (srtp_rtcp srtp) = t" "t \<le> SHA_DIGEST_LENGTH" "4 \<le> t"
    using c by (auto simp: ctr_comp_def)
  let ?iv = "srtp_iv_calc s ssrc (ucast ix)" and ?e = "rtcp_sealed enc k s ssrc ix H p"
  define ct where "ct = enc k ?iv p"
  define eix where "eix = be32 (0x80000000 OR ix)"
  have e: "?e = H @ ct @ eix" by (simp add: rtcp_sealed_def ct_def eix_def)
  obtain tag where tag: "hmac_digest cr h ?e = (tag, 0)" "length tag = SHA_DIGEST_LENGTH"
    using laws(2) unfolding hmac_laws_def by meson
  define tg where "tg = take t tag"
  have tl: "length tg = t" "length eix = 4" using tag(2) cm(5) by (simp_all add: tg_def eix_def)
  have wire: "rtcp_wire cr enc k h s t ssrc ix H p = H @ ct @ eix @ tg" by (simp add: rtcp_wire_def Let_def tag(1) [unfolded e] tg_def e)
  let ?x = "H @ ct @ eix @ tg" and ?n = "length (H @ ct)"
  have rd: "mbuf_read_u32 (lay pre ?x post ?n) = Some (lay pre ?x post (?n + 4), htonl (0x80000000 OR ix))"
    using tl by (simp add: reads eix_def flip: le_bswap)
  have rt: "mbuf_read_mem (lay pre ?x post (?n + 4)) t = Some (lay pre ?x post (?n + 4 + t), Inr tg)"
    using tl cm(6) by (simp add: reads)
  have cut: "(lay pre ?x post 0)\<lparr>mb_end := length pre + (?n + 4)\<rparr> = lay pre (H @ ct @ eix) (tg @ post) 0"
    using tl by (simp add: lay_def)
  have mr: "mem_read tag 0 t = Some tg" "mem_read (pre @ H @ ct @ eix @ tg @ post) (length pre) (?n + 4) = Some (H @ ct @ eix)"
    using tag(2) cm(5) tl by (simp_all add: mem_simps tg_def)
  let ?strm = "(ss ! i)\<lparr>strm_replay_rtcp := w\<rparr>"
  have chk: "rtcp_tag_check cr (srtp_rtcp srtp) (length pre) i ix (srtp\<lparr>srtp_streaml := ss\<rparr>) (lay pre ?x post (?n + 4)) =
      Some (srtp\<lparr>srtp_streaml := ss[i := ?strm]\<rparr>, lay pre (H @ ct @ eix) (tg @ post) 0, 0)"
    using cm rt cut tag(1) mr fresh i(2) tl
    by (simp add: rtcp_tag_check_def Let_def replay_rtcp_def e mbuf_get_left_def)
  obtain a' where dcr: "aes_decr cr (aes_set_iv cr a ?iv) ct = (a', p, 0)" "key a' = Some k" "length p = length ct"
    using laws(1) a(2) unfolding ctr_laws_def ct_def by metis
  define c' where "c' = (srtp_rtcp srtp)\<lparr>comp_aes := Some a'\<rparr>"
  have c'c: "ctr_comp key k h s t c'" using c dcr(2) by (simp add: ctr_comp_def c'_def)
  have ctr: "ctr_decrypt cr (srtp_rtcp srtp) a ssrc (ucast ix) (lay pre (H @ ct) (eix @ tg @ post) 8) =
      Some (c', lay pre (H @ p) (eix @ tg @ post) 8, 0)"
    using cipher_lay [of "aes_decr cr", OF dcr(1,3), of 8 H pre "eix @ tg @ post"] cm H(1) by (simp add: ctr_decrypt_def c'_def)
  have pos: "(lay pre ?x post j)\<lparr>mb_pos := 8 + (length pre + length ct)\<rparr> = lay pre ?x post (8 + length ct)" for j
    by (simp add: lay_def)
  have cut2: "(lay pre (H @ ct @ eix) (tg @ post) 0)\<lparr>mb_end := 8 + (length pre + length ct)\<rparr> = lay pre (H @ ct) (eix @ tg @ post) 0"
    using H(1) by (simp add: lay_def)
  let ?srtp' = "srtp\<lparr>srtp_rtcp := c', srtp_streaml := ss[i := ?strm]\<rparr>"
  have "srtcp_decrypt cr True srtp (lay pre ?x post 0) = Some (?srtp', lay pre (H @ p) (eix @ tg @ post) 0, 0)"
    using ssrc_lay [OF H(1), of pre "ct @ eix @ tg" post] H get cm(1,4) a(1) rd tl index_bits [OF ix] chk ctr
    by (simp add: srtcp_decrypt_def Let_def pos cut2)
  moreover have "strm_ssrc ?strm = ssrc" using stream_find_Some [OF i(1)] by simp
  ultimately show ?thesis unfolding wire
    using c'c rtcp_put(2-4) [OF i(1), of ?strm, where srtp = srtp and c = c']
    by (intro exI [of _ ?srtp'] exI [of _ "eix @ tg @ post"]) simp
qed

section \<open>Sessions\<close>

text \<open>A sender protects control packets; those of the second component reach a receiver, in a buffer of its own.\<close>

fun rtcp_session ::
  "('a, 'h) crypto \<Rightarrow> (nat \<Rightarrow> bool) \<Rightarrow> ('a, 'h) srtp \<Rightarrow> ('a, 'h) srtp \<Rightarrow> (mbuf \<times> bool) list \<Rightarrow> (bytes \<times> int \<times> int) list option" where
  "rtcp_session cr mem S R [] = Some []"
| "rtcp_session cr mem S R ((mb, delivered) # ps) = do {
     (S, sent, err) \<leftarrow> srtcp_encrypt cr mem True S mb;
     if \<not> delivered then rtcp_session cr mem S R ps
     else do {
       (R, got, err') \<leftarrow> srtcp_decrypt cr True R (of_wire (mbuf_rest sent));
       rest \<leftarrow> rtcp_session cr mem S R ps;
       Some ((mbuf_rest got, err, err') # rest)
     }
   }"

text \<open>A control packet of a source, with room behind it for index and tag.\<close>

definition rtcp_packet :: "u32 \<Rightarrow> mbuf \<Rightarrow> bool" where
  "rtcp_packet ssrc mb \<longleftrightarrow> mbuf_ok mb \<and> mb_pos mb + 8 \<le> mb_end mb \<and> mb_end mb + 4 + SHA_DIGEST_LENGTH \<le> length (mb_buf mb)
     \<and> be32_of (take 4 (drop 4 (mbuf_rest mb))) = ssrc"

lemma of_wire_lay: "of_wire xs = lay [] xs [] 0"
  by (simp add: of_wire_def lay_def)

lemma rtcp_packet_lay:
  assumes "rtcp_packet ssrc mb"
  obtains pre H p post where "mb = lay pre (H @ p) post 0" "length H = 8" "ssrc = be32_of (drop 4 H)"
    "mbuf_rest mb = H @ p" "4 + SHA_DIGEST_LENGTH \<le> length post"
proof -
  have ok: "mbuf_ok mb" "mb_pos mb \<le> mb_end mb" "8 \<le> mbuf_get_left mb" using assms by (auto simp: rtcp_packet_def mbuf_get_left_def)
  obtain pre post where l: "mb = lay pre (mbuf_rest mb) post 0" "length post = length (mb_buf mb) - mb_end mb"
    using lay_exists [OF ok(1,2)] by blast
  have n: "8 \<le> length (mbuf_rest mb)" using ok by (simp add: length_mbuf_rest)
  let ?H = "take 8 (mbuf_rest mb)" and ?p = "drop 8 (mbuf_rest mb)"
  have "take 4 (drop 4 (mbuf_rest mb)) = drop 4 ?H" by (simp add: drop_take)
  then show ?thesis
    using that [of pre ?H ?p post] l n assms by (auto simp: rtcp_packet_def)
qed

lemma next_index: "n + 1 < 2147483648 \<Longrightarrow> ((of_nat n + 1) AND 0x7fffffff :: u32) = of_nat (Suc n)"
  by (rule word_unat_eq_iff [THEN iffD2])
    (use unat_and_mask_minus_1 [of "of_nat n + 1 :: u32" 31] in \<open>simp add: unat_word_ariths unat_of_nat\<close>)

lemma newer_fresh: "lix r < ix \<Longrightarrow> \<exists>w. srtp_replay_check r ix = (w, True) \<and> lix w = ix"
  by (simp add: srtp_replay_check_def Let_def)

lemma rtcp_session_run:
  assumes laws: "ctr_laws cr key enc" "hmac_laws cr"
  shows "ctr_comp key k h s t (srtp_rtcp S) \<Longrightarrow> ctr_comp key k h s t (srtp_rtcp R) \<Longrightarrow> has_room S ssrc \<Longrightarrow> has_room R ssrc \<Longrightarrow>
    rtcp_index_of S ssrc = of_nat n \<Longrightarrow> lix (rtcp_window_of R ssrc) \<le> of_nat n \<Longrightarrow> n + length ps < 2147483648 \<Longrightarrow>
    list_all (\<lambda>(mb, _). rtcp_packet ssrc mb) ps \<Longrightarrow>
    rtcp_session cr mem S R ps = Some (map (\<lambda>(mb, _). (mbuf_rest mb, 0, 0)) (filter snd ps))"
proof (induction ps arbitrary: S R n)
  case (Cons x ps)
  obtain mb d where x: "x = (mb, d)" by fastforce
  obtain pre H p post where mb: "mb = lay pre (H @ p) post 0" "length H = 8" "ssrc = be32_of (drop 4 H)" "mbuf_rest mb = H @ p"
      "4 + SHA_DIGEST_LENGTH \<le> length post"
    by (rule rtcp_packet_lay [of ssrc mb]) (use Cons.prems(8) x in auto)
  let ?ix = "of_nat (Suc n) :: u32"
  have ix: "?ix = (rtcp_index_of S ssrc + 1) AND 0x7fffffff" using next_index [of n] Cons.prems(5,7) by simp
  then have ix': "?ix AND 0x7fffffff = ?ix" by (simp add: and.assoc)
  have t: "4 + t \<le> length post" using mb(5) Cons.prems(1) by (simp add: ctr_comp_def)
  obtain S' post' where e: "srtcp_encrypt cr mem True S mb = Some (S', lay pre (rtcp_wire cr enc k h s t ssrc ?ix H p) post' 0, 0)"
      "ctr_comp key k h s t (srtp_rtcp S')" "rtcp_index_of S' ssrc = ?ix" "has_room S' ssrc"
    using rtcp_encrypt_packet [OF laws Cons.prems(1) mb(2,3) Cons.prems(3) t ix, of mem pre p] mb(1) by metis
  show ?case
  proof (cases d)
    case False
    have "lix (rtcp_window_of R ssrc) \<le> of_nat (Suc n)"
      using Cons.prems(6,7) by (simp add: word_le_nat_alt unat_of_nat del: of_nat_Suc)
    then show ?thesis using x e False Cons.IH [OF e(2) Cons.prems(2) e(4) Cons.prems(4) e(3)] Cons.prems(7,8) by simp
  next
    case True
    have "unat ?ix = Suc n" using Cons.prems(7) by (simp add: unat_of_nat del: of_nat_Suc)
    moreover have "ucast ?ix = (of_nat (unat ?ix) :: u64)" by simp
    ultimately have uc: "ucast ?ix = (of_nat (Suc n) :: u64)" by simp
    have "lix (rtcp_window_of R ssrc) < ucast ?ix"
      unfolding uc using Cons.prems(6,7) by (simp add: word_le_nat_alt word_less_nat_alt unat_of_nat del: of_nat_Suc)
    then obtain w where w: "srtp_replay_check (rtcp_window_of R ssrc) (ucast ?ix) = (w, True)" "lix w = ucast ?ix"
      using newer_fresh by metis
    obtain R' post'' where r: "srtcp_decrypt cr True R (lay [] (rtcp_wire cr enc k h s t ssrc ?ix H p) [] 0) =
        Some (R', lay [] (H @ p) post'' 0, 0)" "ctr_comp key k h s t (srtp_rtcp R')" "rtcp_window_of R' ssrc = w" "has_room R' ssrc"
      using rtcp_decrypt_packet [OF laws Cons.prems(2) mb(2,3) Cons.prems(4) ix' w(1)] by metis
    have "lix (rtcp_window_of R' ssrc) \<le> of_nat (Suc n)" using r(3) w(2) uc by simp
    then show ?thesis using x e r(1) True mb(4) Cons.IH [OF e(2) r(2) e(4) r(4) e(3)] Cons.prems(7,8) by (simp add: of_wire_lay)
  qed
qed simp

section \<open>The replay window\<close>

lemma rtcp_window_stream: "rtcp_window_of = of_stream srtp_replay_init strm_replay_rtcp"
  by (simp add: fun_eq_iff rtcp_window_of_def of_stream_def)

lemma rtcp_window_comp [simp]: "rtcp_window_of (srtp\<lparr>srtp_rtcp := c\<rparr>) = rtcp_window_of srtp"
  by (simp add: rtcp_window_of_def fun_eq_iff split: option.split)

lemma get_rtcp_window:
  assumes "stream_get ms srtp ssrc = (srtp', r)"
  shows "rtcp_window_of srtp' = rtcp_window_of srtp" "srtp_rtcp srtp' = srtp_rtcp srtp" "r = Inr i \<Longrightarrow> stream_find (srtp_streaml srtp') ssrc = Some i"
    "r = Inl e \<Longrightarrow> e \<noteq> 0"
  using assms
  by (auto simp: stream_get_def stream_new_def rtcp_window_of_def fun_eq_iff stream_find_append nth_append ENOSR_def ENOMEM_def
      split: if_splits option.splits dest: stream_find_Some)

lemma rtcp_cipher_comp:
  "ctr_decrypt cr c aes ssrc ix mb = Some (c', mb', err) \<Longrightarrow> comp_hmac c' = comp_hmac c \<and> comp_tag_len c' = comp_tag_len c"
  "rtcp_gcm_decrypt cr c aes ssrc ix' start pld eix mb = Some (c', mb', err) \<Longrightarrow> comp_hmac c' = comp_hmac c \<and> comp_tag_len c' = comp_tag_len c"
  by (auto simp: ctr_decrypt_def rtcp_gcm_decrypt_def Let_def split: if_splits prod.splits bind_splits)

text \<open>With an HMAC, success means that the window has let the index pass; without one the window is not looked at.\<close>

lemma rtcp_check_window:
  assumes "rtcp_tag_check cr c start i ix srtp mb = Some (srtp', mb', err)" and "stream_find (srtp_streaml srtp) ssrc = Some i"
  shows "srtp_rtcp srtp' = srtp_rtcp srtp"
    and "(if comp_hmac c = None then srtp' = srtp
       else (err \<noteq> 0 \<and> srtp' = srtp)
         \<or> (rtcp_window_of srtp' = (rtcp_window_of srtp)(ssrc := fst (srtp_replay_check (rtcp_window_of srtp ssrc) (ucast ix)))
            \<and> (err = 0 \<longrightarrow> snd (srtp_replay_check (rtcp_window_of srtp ssrc) (ucast ix)))))"
proof -
  note i = stream_find_Some [OF assms(2)]
  let ?strm = "srtp_streaml srtp ! i"
  have w: "rtcp_window_of srtp ssrc = strm_replay_rtcp ?strm" using assms(2) by (simp add: rtcp_window_of_def)
  obtain r b where rb: "srtp_replay_check (strm_replay_rtcp ?strm) (ucast ix) = (r, b)" by fastforce
  have rep: "replay_rtcp srtp i (ucast ix) =
      (srtp\<lparr>srtp_streaml := (srtp_streaml srtp)[i := ?strm\<lparr>strm_replay_rtcp := r\<rparr>]\<rparr>, if b then 0 else EALREADY)"
    by (simp add: replay_rtcp_def Let_def rb)
  have upd: "rtcp_window_of (srtp\<lparr>srtp_streaml := (srtp_streaml srtp)[i := ?strm\<lparr>strm_replay_rtcp := r\<rparr>]\<rparr>) = (rtcp_window_of srtp)(ssrc := r)"
    unfolding rtcp_window_stream using of_stream_update [OF assms(2), of "?strm\<lparr>strm_replay_rtcp := r\<rparr>" srtp_replay_init strm_replay_rtcp] i by simp
  have e: "srtp' = srtp \<and> (comp_hmac c \<noteq> None \<longrightarrow> err \<noteq> 0)
      \<or> comp_hmac c \<noteq> None \<and> replay_rtcp srtp i (ucast ix) = (srtp', err)"
    using assms(1)
    by (auto simp: rtcp_tag_check_def Let_def mbuf_read_mem_def EOVERFLOW_def EAUTH_def
        split: option.splits bind_splits if_splits sum.splits prod.splits)
  then show "srtp_rtcp srtp' = srtp_rtcp srtp" by (auto simp: rep)
  show "if comp_hmac c = None then srtp' = srtp
       else (err \<noteq> 0 \<and> srtp' = srtp)
         \<or> (rtcp_window_of srtp' = (rtcp_window_of srtp)(ssrc := fst (srtp_replay_check (rtcp_window_of srtp ssrc) (ucast ix)))
            \<and> (err = 0 \<longrightarrow> snd (srtp_replay_check (rtcp_window_of srtp ssrc) (ucast ix))))"
    using e upd by (auto simp: rep w rb EALREADY_def split: if_splits)
qed

text \<open>The source and the index a packet carries.\<close>

definition rtcp_id :: "nat \<Rightarrow> mbuf \<Rightarrow> (u32 \<times> u64) option" where
  "rtcp_id tag_len mb = do {
     (mb, r) \<leftarrow> get_rtcp_ssrc mb;
     (case r of
        Inl _ \<Rightarrow> None
      | Inr ssrc \<Rightarrow> do {
          (mb, v) \<leftarrow> mbuf_read_u32 (mb\<lparr>mb_pos := mb_end mb - (4 + tag_len)\<rparr>);
          Some (ssrc, ucast (ntohl v AND 0x7fffffff))
        })
   }"

lemma srtcp_decrypt_window:
  assumes dec: "srtcp_decrypt cr ms srtp mb = Some (srtp', mb', err)"
  shows "comp_hmac (srtp_rtcp srtp') = comp_hmac (srtp_rtcp srtp) \<and> comp_tag_len (srtp_rtcp srtp') = comp_tag_len (srtp_rtcp srtp)
    \<and> (if comp_hmac (srtp_rtcp srtp) = None then rtcp_window_of srtp' = rtcp_window_of srtp
       else (err \<noteq> 0 \<and> rtcp_window_of srtp' = rtcp_window_of srtp)
         \<or> (\<exists>ssrc ix. rtcp_id (comp_tag_len (srtp_rtcp srtp)) mb = Some (ssrc, ix)
              \<and> rtcp_window_of srtp' = (rtcp_window_of srtp)(ssrc := fst (srtp_replay_check (rtcp_window_of srtp ssrc) ix))
              \<and> (err = 0 \<longrightarrow> snd (srtp_replay_check (rtcp_window_of srtp ssrc) ix))))"
proof -
  let ?c = "srtp_rtcp srtp" and ?start = "mb_pos mb"
  obtain mb1 r where g: "get_rtcp_ssrc mb = Some (mb1, r)"
    using dec by (auto simp: srtcp_decrypt_def Let_def split: bind_splits)
  show ?thesis
  proof (cases r)
    case (Inl e)
    then have "e \<noteq> 0" using g by (auto simp: get_rtcp_ssrc_def EBADMSG_def split: if_splits)
    then show ?thesis using dec g Inl by (simp add: srtcp_decrypt_def Let_def)
  next
    case (Inr ssrc)
    obtain s1 r1 where s1: "stream_get ms srtp ssrc = (s1, r1)" by fastforce
    note gw = get_rtcp_window [OF s1]
    show ?thesis
    proof (cases "\<exists>i. r1 = Inr i \<and> \<not> mbuf_get_left mb1 < 4 + comp_tag_len ?c")
      case False
      then have "srtp' = s1 \<and> err \<noteq> 0"
        using dec g Inr s1 gw(4) by (cases r1) (auto simp: srtcp_decrypt_def Let_def EBADMSG_def)
      then show ?thesis using gw(1,2) by simp
    next
      case True
      then obtain i where i: "r1 = Inr i" "\<not> mbuf_get_left mb1 < 4 + comp_tag_len ?c" by blast
      let ?eix = "mb_end mb1 - (4 + comp_tag_len ?c)"
      obtain mb2 v where v: "mbuf_read_u32 (mb1\<lparr>mb_pos := ?eix\<rparr>) = Some (mb2, v)"
        using dec g Inr s1 i by (auto simp: srtcp_decrypt_def Let_def split: bind_splits)
      let ?ix = "ntohl v AND 0x7fffffff"
      have id: "rtcp_id (comp_tag_len ?c) mb = Some (ssrc, ucast ?ix)" using g Inr v by (simp add: rtcp_id_def)
      obtain s2 mb3 e2 where t: "rtcp_tag_check cr ?c ?start i ?ix s1 mb2 = Some (s2, mb3, e2)"
        using dec g Inr s1 i v by (auto simp: srtcp_decrypt_def Let_def split: bind_splits)
      note cw = rtcp_check_window [OF t gw(3) [OF i(1)]]
      have rest: "srtp_rtcp srtp' = ?c \<and> rtcp_window_of srtp' = rtcp_window_of s2 \<and> err = e2 \<and> e2 \<noteq> 0
          \<or> comp_hmac (srtp_rtcp srtp') = comp_hmac ?c \<and> comp_tag_len (srtp_rtcp srtp') = comp_tag_len ?c
            \<and> rtcp_window_of srtp' = rtcp_window_of s2 \<and> e2 = 0"
        using dec g Inr s1 i v t cw(1) gw(2)
        by (auto simp: srtcp_decrypt_def Let_def split: bind_splits if_splits option.splits aes_mode.splits dest!: rtcp_cipher_comp)
      show ?thesis
      proof (cases "comp_hmac ?c = None")
        case True
        then show ?thesis using rest cw(2) gw(1) by auto
      next
        case False
        then show ?thesis using rest cw(2) gw(1) id by auto
      qed
    qed
  qed
qed

definition srtcp_recv :: "('a, 'h) crypto \<Rightarrow> ('a, 'h) srtp \<Rightarrow> mbuf \<times> bool \<Rightarrow> (('a, 'h) srtp \<times> (u32 \<times> u64) option) option" where
  "srtcp_recv cr R = (\<lambda>(mb, ms). do {
     (R', mb', err) \<leftarrow> srtcp_decrypt cr ms R mb;
     Some (R', if err = 0 then rtcp_id (comp_tag_len (srtp_rtcp R)) mb else None)
   })"

interpretation rtcp_receiver: guarded_receiver "\<lambda>R. comp_hmac (srtp_rtcp R) \<noteq> None" rtcp_window_of "srtcp_recv cr" for cr
proof
  fix s p s' r assume ok: "comp_hmac (srtp_rtcp s) \<noteq> None" and recv: "srtcp_recv cr s p = Some (s', r)"
  obtain mb ms mb' err where p: "p = (mb, ms)" "srtcp_decrypt cr ms s mb = Some (s', mb', err)"
      "r = (if err = 0 then rtcp_id (comp_tag_len (srtp_rtcp s)) mb else None)"
    using recv by (auto simp: srtcp_recv_def split: prod.splits bind_splits)
  note w = srtcp_decrypt_window [OF p(2)]
  then show "comp_hmac (srtp_rtcp s') \<noteq> None" using ok by simp
  from w p(3) ok show "(r = None \<and> rtcp_window_of s' = rtcp_window_of s)
      \<or> (\<exists>k ix. r \<in> {None, Some (k, ix)} \<and> rtcp_window_of s' = (rtcp_window_of s)(k := fst (srtp_replay_check (rtcp_window_of s k) ix))
          \<and> (r \<noteq> None \<longrightarrow> snd (srtp_replay_check (rtcp_window_of s k) ix)))"
    by (cases "err = 0") auto
qed

section \<open>GCM\<close>

text \<open>
  Setting the vector starts a cipher object afresh: what it does next depends on its key \<open>key a\<close> only, and no operation
  changes the key.
\<close>

definition restart_laws :: "('a, 'h) crypto \<Rightarrow> ('a \<Rightarrow> bytes) \<Rightarrow> bool" where
  "restart_laws cr key \<longleftrightarrow>
     (\<forall>a b iv. key a = key b \<longrightarrow> aes_set_iv cr a iv = aes_set_iv cr b iv)
   \<and> (\<forall>a iv. key (aes_set_iv cr a iv) = key a) \<and> (\<forall>a p. key (fst (aes_decr_ad cr a p)) = key a)
   \<and> (\<forall>a p. key (fst (aes_decr cr a p)) = key a) \<and> (\<forall>a p. key (fst (aes_authenticate cr a p)) = key a)"

lemma gcm_decrypt_key:
  assumes "restart_laws cr key" and "rtcp_gcm_decrypt cr c aes ssrc ix start pld eix mb = Some (c', mb', err)"
  obtains aes' where "c' = c\<lparr>comp_aes := Some aes'\<rparr>" "key aes' = key aes"
proof -
  have law: "key (aes_set_iv cr a iv) = key a" "aes_decr_ad cr a p = (a', e) \<Longrightarrow> key a' = key a"
    "aes_decr cr a p = (a', q, e) \<Longrightarrow> key a' = key a" "aes_authenticate cr a p = (a', e) \<Longrightarrow> key a' = key a" for a a' iv p q e
    using assms(1) unfolding restart_laws_def by (metis fst_conv)+
  have "\<exists>aes'. c' = c\<lparr>comp_aes := Some aes'\<rparr> \<and> key aes' = key aes"
    using assms(2)
    by (auto simp: rtcp_gcm_decrypt_def cipher_in_place_def Let_def law(1) split: if_splits prod.splits bind_splits dest!: law(2-4))
  then show ?thesis using that by blast
qed

lemma gcm_decrypt_restart:
  assumes "restart_laws cr key" and "key aes' = key aes"
  shows "rtcp_gcm_decrypt cr (c\<lparr>comp_aes := x\<rparr>) aes' ssrc ix start pld eix mb =
    map_option (\<lambda>(c', r). (c\<lparr>comp_aes := comp_aes c'\<rparr>, r)) (rtcp_gcm_decrypt cr c aes ssrc ix start pld eix mb)"
proof -
  have iv: "aes_set_iv cr aes' iv = aes_set_iv cr aes iv" for iv
    using assms unfolding restart_laws_def by metis
  show ?thesis
    by (auto simp: rtcp_gcm_decrypt_def Let_def iv split: if_splits prod.splits bind_splits)
qed

lemma gcm_again:
  assumes laws: "restart_laws cr key" and c: "comp_hmac (srtp_rtcp R) = None" "comp_mode (srtp_rtcp R) = AES_MODE_GCM"
    and dec: "srtcp_decrypt cr ms R mb = Some (R', mb', 0)"
  shows "\<exists>R''. srtcp_decrypt cr ms R' mb = Some (R'', mb', 0)"
proof -
  let ?c = "srtp_rtcp R"
  obtain mb1 ssrc where g: "get_rtcp_ssrc mb = Some (mb1, Inr ssrc)"
    using dec by (auto simp: srtcp_decrypt_def Let_def get_rtcp_ssrc_def EBADMSG_def split: bind_splits if_splits)
  obtain s1 r1 where s1: "stream_get ms R ssrc = (s1, r1)" by fastforce
  note gw = get_rtcp_window [OF s1]
  obtain i where i: "r1 = Inr i" "\<not> mbuf_get_left mb1 < 4 + comp_tag_len ?c"
    using dec g s1 gw(4) by (cases r1) (auto simp: srtcp_decrypt_def Let_def EBADMSG_def split: if_splits)
  let ?eix = "mb_end mb1 - (4 + comp_tag_len ?c)"
  obtain mb2 v where v: "mbuf_read_u32 (mb1\<lparr>mb_pos := ?eix\<rparr>) = Some (mb2, v)"
    using dec g s1 i by (auto simp: srtcp_decrypt_def Let_def split: bind_splits)
  have chk: "rtcp_tag_check cr x start i ix s mb2 = Some (s, mb2, 0)" if "comp_hmac x = None" for x start ix and s :: "('a, 'b) srtp"
    using that by (simp add: rtcp_tag_check_def)
  let ?ix = "ntohl v AND 0x7fffffff" and ?mb = "mb2\<lparr>mb_end := ?eix\<rparr>"
  show ?thesis
  proof (cases "comp_aes ?c \<noteq> None \<and> drop_bit 31 (ntohl v) AND 1 \<noteq> 0")
    case False
    then have R': "R' = s1\<lparr>srtp_rtcp := ?c\<rparr>" and mb': "mb' = ?mb\<lparr>mb_pos := mb_pos mb\<rparr>"
      using dec g s1 i v chk [OF c(1)] by (auto simp: srtcp_decrypt_def Let_def split: option.splits)
    have "stream_get ms R' ssrc = (R', Inr i)" using gw(3) [OF i(1)] by (simp add: R' stream_get_def)
    then show ?thesis
      using False g i v chk [OF c(1)] by (auto simp: srtcp_decrypt_def Let_def R' mb' split: option.splits)
  next
    case True
    then obtain aes where aes: "comp_aes ?c = Some aes" by blast
    obtain c' mb3 where gcm: "rtcp_gcm_decrypt cr ?c aes ssrc ?ix (mb_pos mb) (mb_pos mb1) ?eix ?mb = Some (c', mb3, 0)"
        and R': "R' = s1\<lparr>srtp_rtcp := c'\<rparr>" and mb': "mb' = mb3\<lparr>mb_pos := mb_pos mb\<rparr>"
      using dec g s1 i v chk [OF c(1)] aes c(2) True by (auto simp: srtcp_decrypt_def Let_def split: bind_splits if_splits)
    obtain aes' where aes': "c' = ?c\<lparr>comp_aes := Some aes'\<rparr>" "key aes' = key aes" by (rule gcm_decrypt_key [OF laws gcm])
    have "rtcp_gcm_decrypt cr c' aes' ssrc ?ix (mb_pos mb) (mb_pos mb1) ?eix ?mb = Some (c', mb3, 0)"
      using gcm_decrypt_restart [OF laws aes'(2), where c = ?c and x = "Some aes'" and ssrc = ssrc and ix = ?ix and start = "mb_pos mb"
          and pld = "mb_pos mb1" and eix = ?eix and mb = ?mb] gcm
      by (simp add: aes'(1))
    moreover have "stream_get ms R' ssrc = (R', Inr i)" using gw(3) [OF i(1)] by (simp add: R' stream_get_def)
    moreover have "comp_hmac c' = None" "comp_mode c' = AES_MODE_GCM" "comp_tag_len c' = comp_tag_len ?c" "comp_aes c' = Some aes'"
      using c by (simp_all add: aes'(1))
    ultimately show ?thesis
      using g i v chk [of c'] True by (simp add: srtcp_decrypt_def Let_def R' mb')
  qed
qed

section \<open>Properties\<close>

lemma alloc_ctr_rtcp:
  assumes "srtp_alloc cr mem_srtp suite mkey False = Inr S" and "fst (suite_params suite) = AES_MODE_CTR" and "alloc_laws cr key"
  obtains k h s t where "ctr_comp key k h s t (srtp_rtcp S)" "srtp_streaml S = []"
proof -
  obtain cb sb t where par: "suite_params suite = (AES_MODE_CTR, cb, sb, t, True)" "4 \<le> t"
    using assms(2) by (cases suite) auto
  have len: "cb + sb = length mkey" "mem_srtp" using assms(1) par by (auto simp: srtp_alloc_def split: if_splits)
  obtain c1 e1 where c1: "comp_init cr comp_zero 0 (take cb mkey) (drop cb mkey) t True True AES_MODE_CTR = (c1, e1)" by fastforce
  obtain c2 e2 where c2: "comp_init cr comp_zero 3 (take cb mkey) (drop cb mkey) t True True AES_MODE_CTR = (c2, e2)" by fastforce
  have "e2 = 0" "srtp_rtcp S = c2" "srtp_streaml S = []"
    using assms(1) par len c1 c2 by (auto simp: srtp_alloc_def Let_def or_eq_0_iff split: if_splits)
  then show ?thesis
    using comp_init_ctr [of cr comp_zero 3 "take cb mkey" "drop cb mkey" t c2 key] c2 assms(3) par(2) that by metis
qed

text \<open>
  (C7) Two parties with the same key and a counter mode suite: of the control packets a sender protects for a source,
  any may be lost, any number of them in a row. Every one that arrives in order is accepted and is the packet that was sent.
\<close>

theorem srtcp_session_delivers:
  assumes "ctr_laws cr key enc" and "hmac_laws cr" and "alloc_laws cr key"
    and "srtp_alloc cr True suite mkey False = Inr S" and "fst (suite_params suite) = AES_MODE_CTR"
    and "list_all (\<lambda>(mb, _). rtcp_packet ssrc mb) ps" and "length ps < 2147483648"
  shows "rtcp_session cr mem S S ps = Some (map (\<lambda>(mb, _). (mbuf_rest mb, 0, 0)) (filter snd ps))"
proof -
  obtain k h s t where c: "ctr_comp key k h s t (srtp_rtcp S)" "srtp_streaml S = []"
    using alloc_ctr_rtcp [OF assms(4,5,3)] by metis
  show ?thesis
    by (rule rtcp_session_run [OF assms(1,2) c(1) c(1), of ssrc 0])
      (use assms c(2) in \<open>simp_all add: has_room_def rtcp_index_of_def rtcp_window_of_def srtp_replay_init_def SRTP_MAX_STREAMS_def\<close>)
qed

definition demo_report :: "u8 \<Rightarrow> mbuf" where
  "demo_report x = lay [] [128, 200, 0, 1, 0, 0, 0, 7, x, 2, 3, 4] (replicate 24 0) 0"

theorem srtcp_session_delivers_witness:
  "\<exists>S. srtp_alloc demo_crypto True SRTP_AES_CM_128_HMAC_SHA1_80 (replicate 30 7) False = Inr S
     \<and> rtcp_session demo_crypto (\<lambda>_. False) S S [(demo_report 1, True), (demo_report 2, False), (demo_report 3, True)]
       = Some [(mbuf_rest (demo_report 1), 0, 0), (mbuf_rest (demo_report 3), 0, 0)]"
proof -
  obtain S where S: "srtp_alloc demo_crypto True SRTP_AES_CM_128_HMAC_SHA1_80 (replicate 30 7) False = Inr S"
    by (simp add: srtp_alloc_def comp_init_def srtp_derive_def demo_crypto_def comp_zero_def Let_def rawr_defs)
  have p: "rtcp_packet 7 (demo_report x)" for x
    by (simp add: rtcp_packet_def demo_report_def SHA_DIGEST_LENGTH_def be32_of_def le32_of_def)
  show ?thesis
    using srtcp_session_delivers [OF demo_laws S, of 7 "[(demo_report 1, True), (demo_report 2, False), (demo_report 3, True)]" "\<lambda>_. False"] S p
    by simp
qed

text \<open>
  (C12) Replayed control packets. With an HMAC, as the counter mode suites have it, a receiver accepts no two packets with the same source and index, whatever
  arrives. With GCM the window is never consulted: a packet that was accepted is accepted again.
\<close>

theorem srtcp_replay:
  assumes "restart_laws cr key" and "srtp_streaml R = []"
  shows "(comp_hmac (srtp_rtcp R) \<noteq> None \<and> accept_run (srtcp_recv cr) R mbs = Some ids \<longrightarrow> distinct ids)
    \<and> (comp_hmac (srtp_rtcp R) = None \<and> comp_mode (srtp_rtcp R) = AES_MODE_GCM \<and> srtcp_decrypt cr ms R mb = Some (R', mb', 0) \<longrightarrow>
         (\<exists>R''. srtcp_decrypt cr ms R' mb = Some (R'', mb', 0)))"
  using rtcp_receiver.accepts_distinct [of R cr mbs ids] gcm_again [OF assms(1), of R ms mb R' mb'] assms(2)
  by (auto simp: rtcp_window_of_def)

definition demo_gcm :: "(bytes \<times> bytes, bytes) srtp" where
  "demo_gcm = demo_receiver\<lparr>srtp_rtcp := comp_zero\<lparr>comp_aes := Some ([], []), comp_mode := AES_MODE_GCM\<rparr>\<rparr>"

definition demo_gcm_wire :: mbuf where
  "demo_gcm_wire = of_wire ([128, 200, 0, 1, 0, 0, 0, 7, 1, 2] @ replicate 16 0 @ [128, 0, 0, 1])"

definition demo_ctr_wire :: mbuf where
  "demo_ctr_wire = of_wire ([128, 200, 0, 1, 0, 0, 0, 7, 5, 6, 7, 8] @ [128, 0, 0, 1] @ replicate 4 195)"

lemma demo_restart: "restart_laws demo_crypto fst"
  by (auto simp: restart_laws_def demo_crypto_def)

theorem srtcp_replay_witness:
  "accept_run (srtcp_recv demo_crypto) demo_receiver [(demo_ctr_wire, True), (demo_ctr_wire, True)] = Some [(7, 1)]
   \<and> distinct [(7 :: u32, 1 :: u64)]
   \<and> (\<exists>R' mb' R''. srtcp_decrypt demo_crypto True demo_gcm demo_gcm_wire = Some (R', mb', 0)
        \<and> srtcp_decrypt demo_crypto True R' demo_gcm_wire = Some (R'', mb', 0))"
proof -
  have run: "accept_run (srtcp_recv demo_crypto) demo_receiver [(demo_ctr_wire, True), (demo_ctr_wire, True)] = Some [(7, 1)]"
    by code_simp
  have hm: "comp_hmac (srtp_rtcp demo_receiver) \<noteq> None" "srtp_streaml demo_receiver = []"
    by (simp_all add: demo_receiver_def comp_zero_def Let_def)
  have gc: "comp_hmac (srtp_rtcp demo_gcm) = None" "comp_mode (srtp_rtcp demo_gcm) = AES_MODE_GCM" "srtp_streaml demo_gcm = []"
    by (simp_all add: demo_gcm_def demo_receiver_def comp_zero_def Let_def)
  have "case srtcp_decrypt demo_crypto True demo_gcm demo_gcm_wire of None \<Rightarrow> False | Some (_, _, err) \<Rightarrow> err = 0" by code_simp
  then obtain R' mb' where d: "srtcp_decrypt demo_crypto True demo_gcm demo_gcm_wire = Some (R', mb', 0)"
    by (auto split: option.splits prod.splits)
  show ?thesis
    using run d srtcp_replay [OF demo_restart hm(2), of "[(demo_ctr_wire, True), (demo_ctr_wire, True)]" "[(7, 1)]"] hm(1)
      srtcp_replay [OF demo_restart gc(3), of "[]" "[]" True demo_gcm_wire R' mb'] gc(1,2)
    by blast
qed

end
