(* ===== verification/Base64.thy ===== *)
theory Base64
  imports Mbuf
begin

text \<open>
  Base64 as the call uses it for SRTP keys, \<^verbatim>\<open>deps/re/src/base64/b64.c\<close>, and the hexadecimal and base64 readers of
  \<^verbatim>\<open>src/playground/srtp/util.c\<close>: their round trips, and that the two base64 readers agree.
\<close>

section \<open>Base64 of re\<close>

definition b64_table :: bytes where
  "b64_table = map of_nat ([65..<91] @ [97..<123] @ [48..<58] @ [43, 47])"

definition b64val :: "u8 \<Rightarrow> u32" where
  "b64val c =
     (if 65 \<le> c \<and> c \<le> 90 then ucast c - 65
      else if 97 \<le> c \<and> c \<le> 122 then ucast c - 97 + 26
      else if 48 \<le> c \<and> c \<le> 57 then ucast c - 48 + 52
      else if c = 43 then 62
      else if c = 47 then 63
      else if c = 61 then push_bit 24 1
      else 0)"

definition sextet :: "nat \<Rightarrow> u32 \<Rightarrow> u32" where
  "sextet k v = drop_bit k v AND 63"

definition b64_char :: "u32 \<Rightarrow> u8" where
  "b64_char s = b64_table ! unat s"

text \<open>The loop of the encoder: three bytes make four characters, the last ones are padded.\<close>

fun b64_encode_loop :: "bytes \<Rightarrow> bytes" where
  "b64_encode_loop [] = []"
| "b64_encode_loop [a] =
     (let v = push_bit 16 (ucast a)
      in [b64_char (sextet 18 v), b64_char (sextet 12 v), 61, 61])"
| "b64_encode_loop [a, b] =
     (let v = push_bit 16 (ucast a) OR push_bit 8 (ucast b)
      in [b64_char (sextet 18 v), b64_char (sextet 12 v), b64_char (sextet 6 v), 61])"
| "b64_encode_loop (a # b # c # rest) =
     (let v = push_bit 16 (ucast a) OR push_bit 8 (ucast b) OR ucast c
      in [b64_char (sextet 18 v), b64_char (sextet 12 v), b64_char (sextet 6 v), b64_char (sextet 0 v)]
         @ b64_encode_loop rest)"

definition base64_encode :: "bytes \<Rightarrow> nat \<Rightarrow> int + bytes" where
  "base64_encode inp olen =
     (if olen < 4 * ((length inp + 2) div 3) then Inl EOVERFLOW else Inr (b64_encode_loop inp))"

text \<open>The loop of the decoder: four characters make up to three bytes; what is left over is ignored.\<close>

fun b64_decode_loop :: "bytes \<Rightarrow> bytes" where
  "b64_decode_loop (p # q # r # s # rest) =
     (let v = push_bit 18 (b64val p) OR push_bit 12 (b64val q) OR push_bit 6 (b64val r) OR b64val s
      in [ucast (drop_bit 16 v)]
         @ (if bit v 30 then [] else [ucast (drop_bit 8 v AND 255)])
         @ (if bit v 24 then [] else [ucast (v AND 255)])
         @ b64_decode_loop rest)"
| "b64_decode_loop _ = []"

definition base64_decode :: "bytes \<Rightarrow> nat \<Rightarrow> int + bytes" where
  "base64_decode inp olen =
     (if olen < 3 * (length inp div 4) then Inl EOVERFLOW else Inr (b64_decode_loop inp))"

section \<open>Readers of the playground\<close>

definition hex_char_to_nibble :: "u8 \<Rightarrow> int" where
  "hex_char_to_nibble c =
     (if 48 \<le> c \<and> c \<le> 57 then uint (c - 48)
      else if 97 \<le> c \<and> c \<le> 102 then uint (c - 97 + 10)
      else if 65 \<le> c \<and> c \<le> 70 then uint (c - 65 + 10)
      else -1)"

definition nibble_to_hex_char :: "u8 \<Rightarrow> u8" where
  "nibble_to_hex_char nibble = map of_nat ([48..<58] @ [97..<103]) ! unat (nibble AND 15)"

text \<open>\<open>hex\<close> is read two characters per round while fewer than \<open>len\<close> characters were read. The result is
  the octets and the number of characters read; \<open>None\<close> is a read beyond the string.\<close>

function hex_loop :: "bytes \<Rightarrow> nat \<Rightarrow> nat \<Rightarrow> (bytes \<times> nat) option" where
  "hex_loop hex hex_len len =
     (if hex_len < len then
        (case hex of
           [] \<Rightarrow> None
         | h # hs \<Rightarrow>
             if hex_char_to_nibble h = -1 then Some ([], hex_len)
             else (case hs of
                 [] \<Rightarrow> None
               | l # rest \<Rightarrow>
                   if hex_char_to_nibble l = -1 then Some ([], hex_len + 1)
                   else map_option (\<lambda>(raw, n). ((word_of_int (hex_char_to_nibble h * 16) OR word_of_int (hex_char_to_nibble l)) # raw, n))
                          (hex_loop rest (hex_len + 2) len)))
      else Some ([], hex_len))"
  by pat_completeness auto
termination by (relation "measure (\<lambda>(hex, _, _). length hex)") auto

definition hex_string_to_octet_string :: "bytes \<Rightarrow> nat \<Rightarrow> (bytes \<times> nat) option" where
  "hex_string_to_octet_string hex len = hex_loop hex 0 len"

definition MAX_PRINT_STRING_LEN :: nat where "MAX_PRINT_STRING_LEN = 1024"

definition octet_string_hex_string :: "bytes \<Rightarrow> bytes" where
  "octet_string_hex_string s =
     (let len = (if length s * 2 > MAX_PRINT_STRING_LEN then MAX_PRINT_STRING_LEN else length s * 2)
      in concat (map (\<lambda>b. [nibble_to_hex_char (drop_bit 4 b), nibble_to_hex_char (b AND 15)]) (take (len div 2) s)))"

text \<open>\<^verbatim>\<open>strchr\<close> on the table; the zero byte is found behind its last character.\<close>

fun index_of :: "bytes \<Rightarrow> u8 \<Rightarrow> nat option" where
  "index_of [] c = None"
| "index_of (x # xs) c = (if x = c then Some 0 else map_option Suc (index_of xs c))"

definition b64chars :: bytes where "b64chars = b64_table @ [0]"

text \<open>One block: the octets it stores (positions 0 to 2, those not stored keep what was there) and the
  number of characters outside the table.\<close>

definition base64_block_to_octet_triple :: "bytes \<Rightarrow> bytes \<Rightarrow> bytes \<times> nat" where
  "base64_block_to_octet_triple old inp =
     (let s = map (\<lambda>i. case index_of b64chars (inp ! i) of Some p \<Rightarrow> of_nat p | None \<Rightarrow> (0 :: u8)) [0..<4];
          j = length (filter (\<lambda>i. index_of b64chars (inp ! i) = None) [0..<4]);
          o0 = push_bit 2 (s ! 0) OR drop_bit 4 (s ! 1);
          o1 = (if j < 2 then push_bit 4 (s ! 1) OR drop_bit 2 (s ! 2) else old ! 1);
          o2 = (if j < 1 then push_bit 6 (s ! 2) OR s ! 3 else old ! 2)
      in ([o0, o1, o2], j))"

text \<open>The blocks are read until one has padding; \<open>out\<close> is the output area. The result is the area, the
  padding and the number of characters read.\<close>

function b64_blocks :: "bytes \<Rightarrow> nat \<Rightarrow> bytes \<Rightarrow> nat \<Rightarrow> nat \<Rightarrow> nat \<Rightarrow> (bytes \<times> nat \<times> nat) option" where
  "b64_blocks out k inp len i j =
     (if i < len \<and> j = 0 then
        (if i + 4 \<le> length inp \<and> k + 3 \<le> length out
         then (case base64_block_to_octet_triple (take 3 (drop k out)) (take 4 (drop i inp)) of
                 (os, j) \<Rightarrow> b64_blocks (patch out k os) (k + 3) inp len (i + 4) j)
         else None)
      else Some (out, j, i))"
  by pat_completeness auto
termination by (relation "measure (\<lambda>(_, _, _, len, i, _). len - i)") auto

definition base64_string_to_octet_string :: "bytes \<Rightarrow> bytes \<Rightarrow> nat \<Rightarrow> (bytes \<times> nat option \<times> nat) option" where
  "base64_string_to_octet_string out inp len =
     (if len mod 4 \<noteq> 0 then Some (out, None, 0)
      else map_option (\<lambda>(out, j, i). (out, Some j, i)) (b64_blocks out 0 inp len 0 0))"

declare hex_loop.simps [simp del]
declare b64_blocks.simps [simp del]

section \<open>Characters and values\<close>

lemma all_below: "(\<forall>n<k. P (n::nat)) \<longleftrightarrow> list_all P [0..<k]"
  by (auto simp: list_all_iff)

lemma b64val_table: "n < 64 \<Longrightarrow> b64val (b64_table ! n) = of_nat n"
proof -
  have "list_all (\<lambda>n. b64val (b64_table ! n) = of_nat n) [0..<64]" by code_simp
  then show "n < 64 \<Longrightarrow> b64val (b64_table ! n) = of_nat n" by (simp add: list_all_iff)
qed

lemma mask6: "(63 :: u32) = mask 6"
  by (simp add: mask_eq_exp_minus_1)

lemma sextet_less: "unat (sextet k v) < 64"
proof -
  have "sextet k v = take_bit 6 (drop_bit k v)" by (simp add: sextet_def mask6 take_bit_eq_mask)
  then show ?thesis
    using take_bit_nat_less_exp [of 6 "unat (drop_bit k v)"] by (simp add: unsigned_take_bit_eq)
qed

lemma b64val_char: "b64val (b64_char (sextet k v)) = sextet k v"
  using b64val_table [OF sextet_less] by (simp add: b64_char_def)

lemma b64val_pad: "b64val 61 = push_bit 24 1"
  by (simp add: b64val_def)

lemma bit_sextet: "bit (sextet k v) n \<longleftrightarrow> n < 6 \<and> bit v (k + n)"
  by (auto simp: sextet_def mask6 bit_and_iff bit_drop_bit_eq bit_mask_iff dest: bit_imp_le_length)

section \<open>Blocks of re\<close>

definition triple :: "u8 \<Rightarrow> u8 \<Rightarrow> u8 \<Rightarrow> u32" where
  "triple a b c = push_bit 16 (ucast a) OR push_bit 8 (ucast b) OR ucast c"

lemma bit_triple:
  "bit (triple a b c) n \<longleftrightarrow>
     (n < 8 \<and> bit c n) \<or> (8 \<le> n \<and> n < 16 \<and> bit b (n - 8)) \<or> (16 \<le> n \<and> n < 24 \<and> bit a (n - 16))"
  by (auto simp: triple_def bit_simps dest: bit_u8D)

text \<open>The four values of a block put together, with one or two pads in the last places.\<close>

definition quad :: "u32 \<Rightarrow> u32 \<Rightarrow> u32 \<Rightarrow> u32 \<Rightarrow> u32" where
  "quad p q r s = push_bit 18 p OR push_bit 12 q OR push_bit 6 r OR s"

lemma bit_pad: "bit (push_bit 24 1 :: u32) n \<longleftrightarrow> n = 24" "bit (push_bit 6 (push_bit 24 1) :: u32) n \<longleftrightarrow> n = 30"
  using bit_exp_iff [of 24 n, where 'a = u32] bit_exp_iff [of 30 n, where 'a = u32]
  by (auto simp: push_bit_eq_mult)

lemma bit_quad:
  "bit (quad (sextet 18 v) (sextet 12 v) (sextet 6 v) (sextet 0 v)) n \<longleftrightarrow> n < 24 \<and> bit v n"
proof -
  consider "n < 6" | "6 \<le> n" "n < 12" | "12 \<le> n" "n < 18" | "18 \<le> n" "n < 24" | "24 \<le> n" by linarith
  then show ?thesis
    by cases (auto simp: quad_def bit_or_iff bit_push_bit_iff bit_sextet)
qed

lemma quad_join: "quad p q r (s OR t) = quad p q r s OR t" "quad p q (r OR r') s = quad p q r s OR push_bit 6 r'"
  by (auto simp: quad_def push_bit_or intro!: bit_eqI simp: bit_or_iff)

lemma octets_triple:
  fixes v :: u32
  assumes "\<And>n. n < 24 \<Longrightarrow> bit v n = bit (triple a b c) n"
  shows "ucast (drop_bit 16 v) = a" "ucast (drop_bit 8 v AND 255) = b" "ucast (v AND 255) = c"
proof -
  have 255: "(255 :: u32) = mask 8" by (simp add: mask_eq_exp_minus_1)
  show "ucast (drop_bit 16 v) = a" "ucast (drop_bit 8 v AND 255) = b" "ucast (v AND 255) = c"
    by (rule bit_word_eqI; use assms in \<open>auto simp: 255 bit_simps bit_triple\<close>)+
qed

lemma decode_quad:
  "b64_decode_loop (p # q # r # s # rest) =
     (let v = quad (b64val p) (b64val q) (b64val r) (b64val s)
      in [ucast (drop_bit 16 v)] @ (if bit v 30 then [] else [ucast (drop_bit 8 v AND 255)])
         @ (if bit v 24 then [] else [ucast (v AND 255)]) @ b64_decode_loop rest)"
  by (simp add: quad_def)

lemma decode_block3:
  "b64_decode_loop ([b64_char (sextet 18 v), b64_char (sextet 12 v), b64_char (sextet 6 v), b64_char (sextet 0 v)] @ rest) =
     a # b # c # b64_decode_loop rest" if v: "v = triple a b c"
proof -
  let ?w = "quad (sextet 18 v) (sextet 12 v) (sextet 6 v) (sextet 0 v)"
  have oct: "ucast (drop_bit 16 ?w) = a" "ucast (drop_bit 8 ?w AND 255) = b" "ucast (?w AND 255) = c"
    by (rule octets_triple; simp add: bit_quad v)+
  show ?thesis
    unfolding append_Cons append_Nil decode_quad b64val_char Let_def by (simp add: oct bit_quad)
qed

lemma decode_block2:
  "b64_decode_loop [b64_char (sextet 18 v), b64_char (sextet 12 v), b64_char (sextet 6 v), 61] = [a, b]"
  if v: "v = triple a b 0"
proof -
  have "sextet 0 v = 0" by (rule bit_eqI) (auto simp: bit_sextet v bit_triple)
  then have w: "quad (sextet 18 v) (sextet 12 v) (sextet 6 v) (push_bit 24 1) =
      quad (sextet 18 v) (sextet 12 v) (sextet 6 v) (sextet 0 v) OR push_bit 24 1" (is "?w = _")
    using quad_join(1) [of _ _ _ 0 "push_bit 24 1"] by simp
  have bits: "bit ?w n \<longleftrightarrow> (n < 24 \<and> bit v n) \<or> n = 24" for n
    unfolding w by (simp only: bit_or_iff bit_quad bit_pad)
  have "bit ?w n = bit (triple a b 0) n" if "n < 24" for n
    using bits [of n] that v by auto
  note oct = octets_triple [of ?w, OF this]
  show ?thesis
    unfolding decode_quad b64val_char b64val_pad Let_def by (simp add: oct bits del: push_bit_of_1)
qed

lemma decode_block1:
  "b64_decode_loop [b64_char (sextet 18 v), b64_char (sextet 12 v), 61, 61] = [a]"
  if v: "v = triple a 0 0"
proof -
  have "sextet 0 v = 0" "sextet 6 v = 0" by (rule bit_eqI, auto simp: bit_sextet v bit_triple)+
  then have w: "quad (sextet 18 v) (sextet 12 v) (push_bit 24 1) (push_bit 24 1) =
      (quad (sextet 18 v) (sextet 12 v) (sextet 6 v) (sextet 0 v) OR push_bit 6 (push_bit 24 1)) OR push_bit 24 1" (is "?w = _")
    using quad_join(1) [of _ _ "push_bit 24 1" 0 "push_bit 24 1"] quad_join(2) [of _ _ 0 "push_bit 24 1" 0] by simp
  have bits: "bit ?w n \<longleftrightarrow> (n < 24 \<and> bit v n) \<or> n = 24 \<or> n = 30" for n
    unfolding w by (auto simp only: bit_or_iff bit_quad bit_pad)
  have "bit ?w n = bit (triple a 0 0) n" if "n < 24" for n
    using bits [of n] that v by auto
  note oct = octets_triple [of ?w, OF this]
  show ?thesis
    unfolding decode_quad b64val_char b64val_pad Let_def by (simp add: oct bits del: push_bit_of_1)
qed

lemma decode_encode_loop: "b64_decode_loop (b64_encode_loop bs) = bs"
proof (induction bs rule: b64_encode_loop.induct)
  case (2 a)
  then show ?case using decode_block1 [of "triple a 0 0" a] by (simp add: triple_def Let_def del: b64_decode_loop.simps)
next
  case (3 a b)
  then show ?case using decode_block2 [of "triple a b 0" a b] by (simp add: triple_def Let_def del: b64_decode_loop.simps)
next
  case (4 a b c rest)
  then show ?case
    using decode_block3 [OF refl, of a b c "b64_encode_loop rest"] by (simp add: triple_def Let_def del: b64_decode_loop.simps)
qed simp

lemma length_encode_loop: "length (b64_encode_loop bs) = 4 * ((length bs + 2) div 3)"
proof (induction bs rule: b64_encode_loop.induct)
  case (4 a b c rest)
  have "(5 + length rest) div 3 = Suc ((2 + length rest) div 3)" by presburger
  with 4 show ?case by (simp add: Let_def)
qed (simp_all add: Let_def)

section \<open>Blocks of the playground\<close>

lemma index_of_table: "n < 64 \<Longrightarrow> index_of b64chars (b64_table ! n) = Some n"
proof -
  have "list_all (\<lambda>n. index_of b64chars (b64_table ! n) = Some n) [0..<64]" by code_simp
  then show "n < 64 \<Longrightarrow> index_of b64chars (b64_table ! n) = Some n" by (simp add: list_all_iff)
qed

lemma index_of_char: "index_of b64chars (b64_char (sextet k v)) = Some (unat (sextet k v))"
  using index_of_table [OF sextet_less] by (simp add: b64_char_def)

lemma index_of_pad: "index_of b64chars 61 = None"
  by code_simp

lemma bit_sextet_u8: "bit (of_nat (unat (sextet k v)) :: u8) n \<longleftrightarrow> n < 6 \<and> bit v (k + n)"
proof -
  have "(of_nat (unat (sextet k v)) :: u8) = ucast (sextet k v)" by simp
  then show ?thesis by (auto simp: bit_ucast_iff bit_sextet simp del: of_nat_unat)
qed

lemma upt4: "[0..<4] = [0, 1, 2, 3 :: nat]"
  by (simp add: upt_rec)

lemma playground_octets:
  fixes a b c :: u8
  assumes "v = triple a b c"
  defines "s k \<equiv> of_nat (unat (sextet k v)) :: u8"
  shows "push_bit 2 (s 18) OR drop_bit 4 (s 12) = a" "push_bit 4 (s 12) OR drop_bit 2 (s 6) = b"
    "push_bit 6 (s 6) OR s 0 = c"
proof -
  have s: "bit (s k) n \<longleftrightarrow> n < 6 \<and> bit v (k + n)" for k n unfolding s_def by (rule bit_sextet_u8)
  have t: "bit v (16 + n) = bit a n" "bit v (8 + n) = bit b n" "bit v n = bit c n" if "n < 8" for n
    using that by (simp_all add: assms(1) bit_triple)
  show "push_bit 2 (s 18) OR drop_bit 4 (s 12) = a"
  proof (rule bit_word_eqI)
    fix n assume n: "n < LENGTH(8)"
    have "18 + (n - 2) = 16 + n" if "2 \<le> n" using that by simp
    then show "bit (push_bit 2 (s 18) OR drop_bit 4 (s 12)) n = bit a n"
      using n t(1) [of n] by (auto simp: bit_or_iff bit_push_bit_iff bit_drop_bit_eq s)
  qed
  show "push_bit 4 (s 12) OR drop_bit 2 (s 6) = b"
  proof (rule bit_word_eqI)
    fix n assume n: "n < LENGTH(8)"
    have "12 + (n - 4) = 8 + n" if "4 \<le> n" using that by simp
    then show "bit (push_bit 4 (s 12) OR drop_bit 2 (s 6)) n = bit b n"
      using n t(2) [of n] by (auto simp: bit_or_iff bit_push_bit_iff bit_drop_bit_eq s)
  qed
  show "push_bit 6 (s 6) OR s 0 = c"
  proof (rule bit_word_eqI)
    fix n assume n: "n < LENGTH(8)"
    have "6 + (n - 6) = n" if "6 \<le> n" using that by simp
    then show "bit (push_bit 6 (s 6) OR s 0) n = bit c n"
      using n t(3) [of n] by (auto simp: bit_or_iff bit_push_bit_iff s)
  qed
qed

lemma playground_block3:
  "v = triple a b c \<Longrightarrow> base64_block_to_octet_triple old
     [b64_char (sextet 18 v), b64_char (sextet 12 v), b64_char (sextet 6 v), b64_char (sextet 0 v)] = ([a, b, c], 0)"
  by (simp add: base64_block_to_octet_triple_def upt4 index_of_char playground_octets Let_def del: of_nat_unat)

lemma playground_block2:
  "v = triple a b 0 \<Longrightarrow> base64_block_to_octet_triple old
     [b64_char (sextet 18 v), b64_char (sextet 12 v), b64_char (sextet 6 v), 61] = ([a, b, old ! 2], 1)"
  by (simp add: base64_block_to_octet_triple_def upt4 index_of_char index_of_pad playground_octets Let_def del: of_nat_unat)

lemma playground_block1:
  assumes "v = triple a 0 0"
  shows "base64_block_to_octet_triple old [b64_char (sextet 18 v), b64_char (sextet 12 v), 61, 61] = ([a, old ! 1, old ! 2], 2)"
  using playground_octets(1) [OF assms]
  by (simp add: base64_block_to_octet_triple_def upt4 index_of_char index_of_pad Let_def del: of_nat_unat)

definition b64_padding :: "nat \<Rightarrow> nat" where
  "b64_padding n = (if n mod 3 = 0 then 0 else 3 - n mod 3)"

lemma b64_blocks_encode:
  assumes "inp = pre @ b64_encode_loop bs" and "length pre = i" and "len = length inp"
    and "k + 3 * ((length bs + 2) div 3) \<le> length out"
  shows "\<exists>out'. b64_blocks out k inp len i 0 = Some (out', b64_padding (length bs), len) \<and> length out' = length out
     \<and> take (k + length bs) out' = take k out @ bs"
  using assms
proof (induction bs arbitrary: pre i k out rule: b64_encode_loop.induct)
  case 1
  then show ?case by (subst b64_blocks.simps) (simp add: b64_padding_def)
next
  case (2 a)
  let ?v = "triple a 0 0" and ?o = "take 3 (drop k out)"
  have "b64_blocks out k inp len i 0 = b64_blocks (patch out k [a, ?o ! 1, ?o ! 2]) (k + 3) inp len (i + 4) 2"
    using 2 playground_block1 [OF refl, of ?o a] by (subst b64_blocks.simps) (simp add: Let_def triple_def)
  then show ?case
    using 2 by (subst (asm) (2) b64_blocks.simps) (simp add: b64_padding_def Let_def patch_def)
next
  case (3 a b)
  let ?v = "triple a b 0" and ?o = "take 3 (drop k out)"
  have "b64_blocks out k inp len i 0 = b64_blocks (patch out k [a, b, ?o ! 2]) (k + 3) inp len (i + 4) 1"
    using 3 playground_block2 [OF refl, of ?o a b] by (subst b64_blocks.simps) (simp add: Let_def triple_def)
  then show ?case
    using 3 by (subst (asm) (2) b64_blocks.simps) (simp add: b64_padding_def Let_def patch_def)
next
  case (4 a b c rest)
  let ?v = "triple a b c" and ?out = "patch out k [a, b, c]"
  let ?chunk = "[b64_char (sextet 18 ?v), b64_char (sextet 12 ?v), b64_char (sextet 6 ?v), b64_char (sextet 0 ?v)]"
  have inp: "inp = (pre @ ?chunk) @ b64_encode_loop rest" using 4(2) by (simp add: Let_def triple_def)
  have d: "(5 + length rest) div 3 = Suc ((2 + length rest) div 3)" by presburger
  have fits: "k + 3 + 3 * ((length rest + 2) div 3) \<le> length out" using 4(5) d by simp
  have step: "b64_blocks out k inp len i 0 = b64_blocks ?out (k + 3) inp len (i + 4) 0"
    using 4(3,4) fits playground_block3 [OF refl, of "take 3 (drop k out)" a b c] inp
    by (subst b64_blocks.simps) simp
  have len: "length ?out = length out" using fits by simp
  obtain out' where o: "b64_blocks ?out (k + 3) inp len (i + 4) 0 = Some (out', b64_padding (length rest), len)"
    "length out' = length out" "take (k + 3 + length rest) out' = take (k + 3) ?out @ rest"
    using 4(1) [OF refl inp, of "i + 4" "k + 3" ?out] 4(3,4) fits len by auto
  have "take (k + 3) ?out = take k out @ [a, b, c]" using fits by (simp add: patch_def)
  moreover have "b64_padding (length (a # b # c # rest)) = b64_padding (length rest)" by (simp add: b64_padding_def)
  moreover have "k + length (a # b # c # rest) = k + 3 + length rest" by simp
  ultimately show ?case using o step by (metis append.assoc append_Cons append_Nil)
qed

section \<open>Hexadecimal\<close>

lemma all_bytes: "list_all P (map of_nat [0..<256]) \<Longrightarrow> P (b :: u8)"
proof -
  assume "list_all P (map of_nat [0..<256])"
  moreover have "b = of_nat (unat b)" "unat b < 256" using unsigned_less [of b] by simp_all
  ultimately show "P b" by (metis atLeast0LessThan list.pred_set list.set_map image_eqI lessThan_iff set_upt)
qed

lemma hex_nibbles:
  "hex_char_to_nibble (nibble_to_hex_char b) = uint (b AND 15)"
  by (rule all_bytes) code_simp

lemma uint_not_minus_1: "uint (x :: u8) \<noteq> -1"
  using uint_ge_0 [of x] by linarith

lemma hex_join: "(drop_bit 4 b AND 15) * 16 OR (b AND 15) = (b :: u8)"
  by (rule all_bytes [of _ b]) code_simp

lemma hex_loop_chars:
  assumes "n + 2 * length s = len"
  shows "hex_loop (concat (map (\<lambda>b. [nibble_to_hex_char (drop_bit 4 b), nibble_to_hex_char (b AND 15)]) s) @ rest) n len = Some (s, len)"
  using assms
proof (induction s arbitrary: n)
  case Nil
  then show ?case by (subst hex_loop.simps) simp
next
  case (Cons b s)
  then show ?case by (subst hex_loop.simps) (simp add: hex_nibbles hex_join uint_not_minus_1)
qed

section \<open>Properties\<close>

text \<open>
  (C19) Base64 text made by the encoder decodes to the encoded bytes, given room for the text and the
  three bytes per block the decoder asks for.
\<close>

theorem base64_roundtrip:
  assumes "base64_encode bs olen = Inr txt" and "3 * ((length bs + 2) div 3) \<le> n"
  shows "base64_decode txt n = Inr bs"
proof -
  have "txt = b64_encode_loop bs" using assms(1) by (simp add: base64_encode_def split: if_splits)
  then show ?thesis using assms(2) by (simp add: base64_decode_def decode_encode_loop length_encode_loop)
qed

theorem base64_roundtrip_witness:
  "base64_decode (b64_encode_loop (map of_nat [0..<30])) 30 = Inr (map of_nat [0..<30])"
  using base64_roundtrip [of "map of_nat [0..<30]" 255 "b64_encode_loop (map of_nat [0..<30])" 30]
  by (simp add: base64_encode_def)

text \<open>
  The two base64 readers of the repository agree: on text made by the encoder the playground's
  reader stores the same bytes, reports the padding and reads all of the text.
\<close>

lemma playground_base64_agrees:
  assumes "3 * ((length bs + 2) div 3) \<le> length out"
  shows "\<exists>out'. base64_string_to_octet_string out (b64_encode_loop bs) (length (b64_encode_loop bs)) =
       Some (out', Some (b64_padding (length bs)), length (b64_encode_loop bs))
     \<and> take (length bs) out' = bs \<and> b64_decode_loop (b64_encode_loop bs) = take (length bs) out'"
proof -
  obtain out' where "b64_blocks out 0 (b64_encode_loop bs) (length (b64_encode_loop bs)) 0 0 =
      Some (out', b64_padding (length bs), length (b64_encode_loop bs))" "take (length bs) out' = bs"
    using b64_blocks_encode [of "b64_encode_loop bs" "[]" bs 0 "length (b64_encode_loop bs)" 0 out] assms by auto
  then show ?thesis
    by (simp add: base64_string_to_octet_string_def length_encode_loop decode_encode_loop)
qed

end
