(* ===== verification/Sdp.thy ===== *)
theory Sdp
  imports Mbuf
begin

text \<open>
  Strings and SDP attributes of re, \<^verbatim>\<open>deps/re/src/fmt/str.c\<close> and \<^verbatim>\<open>deps/re/src/sdp/attr.c\<close>, as the call uses them:
  copies of strings, comparison without regard to case, and the list of attributes of a media line. A
  string is the list of its bytes before the terminator; a null pointer is \<open>None\<close>.
\<close>

definition chars :: "string \<Rightarrow> bytes" where
  "chars s = map of_char s"

section \<open>Strings\<close>

text \<open>\<open>mem\<close> is the outcome of the allocation; the source is the memory behind the pointer.\<close>

definition str_dup :: "bool \<Rightarrow> bytes option \<Rightarrow> (int + bytes) option" where
  "str_dup mem src =
     (case src of
        None \<Rightarrow> Some (Inl EINVAL)
      | Some b \<Rightarrow> map_option (\<lambda>s. if mem then Inr s else Inl ENOMEM) (cstr b))"

definition tolower :: "u8 \<Rightarrow> u8" where
  "tolower c = (if 65 \<le> c \<and> c \<le> 90 then c + 32 else c)"

text \<open>Whether the result is zero; two pointers to different copies of a string are told apart only by null.\<close>

definition str_casecmp_eq :: "bytes option \<Rightarrow> bytes option \<Rightarrow> bool" where
  "str_casecmp_eq s1 s2 =
     (case (s1, s2) of
        (None, None) \<Rightarrow> True
      | (Some a, Some b) \<Rightarrow> map tolower a = map tolower b
      | _ \<Rightarrow> False)"

section \<open>Attributes\<close>

record sdp_attr =
  attr_name :: "bytes option"
  attr_val :: "bytes option"

text \<open>
  An attribute from a piece of a message: \<open>mem\<close> has the outcomes of the three allocations. On an error the
  new entry is released, which takes it off the list again.
\<close>

definition sdp_attr_add :: "bool \<times> bool \<times> bool \<Rightarrow> sdp_attr list \<Rightarrow> bytes \<Rightarrow> bytes \<Rightarrow> sdp_attr list \<times> int" where
  "sdp_attr_add mem lst nam v = (case mem of (m1, m2, m3) \<Rightarrow>
     if \<not> m1 then (lst, ENOMEM)
     else (let err = (if m2 then 0 else ENOMEM);
               err = (if v \<noteq> [] then err OR (if m3 then 0 else ENOMEM) else err)
           in if err \<noteq> 0 then (lst, err)
              else (lst @ [\<lparr>attr_name = Some nam, attr_val = (if v \<noteq> [] then Some v else None)\<rparr>], 0)))"

text \<open>
  An attribute of our own: \<open>fmt\<close> is what \<^verbatim>\<open>re_vsdprintf\<close> makes of the value as a format without arguments, which
  is the value itself when it has no percent sign.
\<close>

definition sdp_attr_addv ::
  "bool \<times> bool \<times> bool \<Rightarrow> (bytes \<Rightarrow> bytes) \<Rightarrow> sdp_attr list \<Rightarrow> bytes \<Rightarrow> bytes \<Rightarrow> sdp_attr list \<times> int" where
  "sdp_attr_addv mem fmt lst nam v = (case mem of (m1, m2, m3) \<Rightarrow>
     if \<not> m1 then (lst, ENOMEM)
     else (let err = (if m2 then 0 else ENOMEM);
               err = (if v \<noteq> [] then err OR (if m3 then 0 else ENOMEM) else err)
           in if err \<noteq> 0 then (lst, err)
              else (lst @ [\<lparr>attr_name = Some nam, attr_val = (if v \<noteq> [] then Some (fmt v) else None)\<rparr>], 0)))"

definition sdp_attr_del :: "sdp_attr list \<Rightarrow> bytes \<Rightarrow> sdp_attr list" where
  "sdp_attr_del lst nam = filter (\<lambda>a. \<not> str_casecmp_eq (Some nam) (attr_name a)) lst"

text \<open>The handler runs on the attributes with the name until it returns true; \<open>None\<close> is a fault in the handler.\<close>

fun sdp_attr_apply :: "sdp_attr list \<Rightarrow> bytes \<Rightarrow> (bytes \<Rightarrow> 's \<Rightarrow> ('s \<times> bool) option) \<Rightarrow> 's \<Rightarrow> ('s \<times> bytes option) option" where
  "sdp_attr_apply [] nam attrh s = Some (s, None)"
| "sdp_attr_apply (attr # attrs) nam attrh s =
     (if attr_name attr \<noteq> Some nam then sdp_attr_apply attrs nam attrh s
      else (let v = (case attr_val attr of Some v \<Rightarrow> v | None \<Rightarrow> []) in
        case attrh v s of
          None \<Rightarrow> None
        | Some (s, stop) \<Rightarrow> if stop then Some (s, Some v) else sdp_attr_apply attrs nam attrh s))"

definition sdp_attr_print :: "sdp_attr \<Rightarrow> bytes" where
  "sdp_attr_print attr =
     (let nam = (case attr_name attr of Some n \<Rightarrow> n | None \<Rightarrow> []) in
      case attr_val attr of
        Some v \<Rightarrow> chars ''a='' @ nam @ chars '':'' @ v @ [13, 10]
      | None \<Rightarrow> chars ''a='' @ nam @ [13, 10])"

text \<open>Setting an attribute of a media line; the media line is the list of its local attributes.\<close>

definition sdp_media_set_lattr ::
  "bool \<times> bool \<times> bool \<Rightarrow> (bytes \<Rightarrow> bytes) \<Rightarrow> sdp_attr list \<Rightarrow> bool \<Rightarrow> bytes \<Rightarrow> bytes \<Rightarrow> sdp_attr list \<times> int" where
  "sdp_media_set_lattr mem fmt lattrl replace nam v =
     (let lattrl = (if replace then sdp_attr_del lattrl nam else lattrl)
      in sdp_attr_addv mem fmt lattrl nam v)"

section \<open>Properties\<close>

lemma sdp_attr_apply_skip:
  "\<forall>a\<in>set as. attr_name a \<noteq> Some nam \<Longrightarrow> sdp_attr_apply (as @ bs) nam attrh s = sdp_attr_apply bs nam attrh s"
  by (induction as) auto

lemma del_no_name: "a \<in> set (sdp_attr_del lst nam) \<Longrightarrow> attr_name a \<noteq> Some nam"
  by (auto simp: sdp_attr_del_def str_casecmp_eq_def)

text \<open>After a successful setting with replacement the attribute is the only one of the name.\<close>

lemma set_lattr_apply:
  assumes "sdp_media_set_lattr mem fmt lst True nam v = (lst', 0)" and "v \<noteq> []"
  shows "sdp_attr_apply lst' nam attrh s
         = (case attrh (fmt v) s of None \<Rightarrow> None | Some (s, stop) \<Rightarrow> Some (s, if stop then Some (fmt v) else None))"
proof -
  have "lst' = sdp_attr_del lst nam @ [\<lparr>attr_name = Some nam, attr_val = Some (fmt v)\<rparr>]"
    using assms by (auto simp: sdp_media_set_lattr_def sdp_attr_addv_def Let_def ENOMEM_def split: prod.splits if_splits)
  moreover have "\<forall>a\<in>set (sdp_attr_del lst nam). attr_name a \<noteq> Some nam" by (simp add: del_no_name)
  ultimately show ?thesis by (auto simp: sdp_attr_apply_skip split: option.splits)
qed

text \<open>Setting an attribute of another name, up to case, leaves it there.\<close>

lemma set_lattr_other:
  assumes "sdp_media_set_lattr mem fmt lst True nam v = (lst', err)" and "map tolower nam \<noteq> map tolower nam'"
  shows "sdp_attr_apply lst' nam' attrh s = sdp_attr_apply lst nam' attrh s"
proof -
  have del: "sdp_attr_apply (sdp_attr_del lst nam) nam' attrh s = sdp_attr_apply lst nam' attrh s" for s
  proof (induction lst arbitrary: s)
    case (Cons a lst)
    then show ?case using assms(2)
      by (cases "attr_name a") (auto simp: sdp_attr_del_def str_casecmp_eq_def Let_def split: option.splits)
  qed (simp add: sdp_attr_del_def)
  have app: "sdp_attr_apply (as @ [a]) nam' attrh s = sdp_attr_apply as nam' attrh s" if "attr_name a \<noteq> Some nam'" for as a s
    using that by (induction as arbitrary: s) (auto simp: Let_def split: option.splits)
  from assms(2) have "nam \<noteq> nam'" by auto
  then show ?thesis using assms(1) del
    by (auto simp: sdp_media_set_lattr_def sdp_attr_addv_def Let_def app split: prod.splits if_splits)
qed

end
