(* ===== verification/Call.thy ===== *)
theory Call
  imports AudioStream Srtp Base64 Sdp
begin

text \<open>
  The call, \<^verbatim>\<open>src/Call.c\<close>: its state, the handlers the SIP stack calls, the thread that sends audio, the
  handler of arriving packets, the signalling thread and the operations of the interface. The SIP, SDP
  and DNS code of re, the threads and the clock are represented by the results of the calls. A step
  that is \<open>None\<close> is a failed assertion or an access to memory that is not there.
\<close>

section \<open>State\<close>

datatype rawr_CallState = rawr_CallState_None | rawr_CallState_Starting | rawr_CallState_Started
  | rawr_CallState_Connecting | rawr_CallState_Ready | rawr_CallState_Progressing | rawr_CallState_Media
  | rawr_CallState_Connected | rawr_CallState_Stopping | rawr_CallState_Stopped

definition RAWR_CALL_SIPARG_MAX :: nat where "RAWR_CALL_SIPARG_MAX = 255"
definition RAWR_CALL_UDP_OVERHEAD_BYTES :: u64 where "RAWR_CALL_UDP_OVERHEAD_BYTES = 54"
definition RAWR_CALL_SRTP_SUITE :: srtp_suite where "RAWR_CALL_SRTP_SUITE = SRTP_AES_CM_128_HMAC_SHA1_80"
definition RAWR_CALL_SRTP_KEY_LEN :: nat where "RAWR_CALL_SRTP_KEY_LEN = 16"
definition RAWR_CALL_SRTP_SALT_LEN :: nat where "RAWR_CALL_SRTP_SALT_LEN = 14"
definition RAWR_CALL_SRTP_TAG_LEN :: nat where "RAWR_CALL_SRTP_TAG_LEN = 10"

text \<open>Offset of the second sample array, which follows the first in memory without a gap.\<close>

definition outputSamples_at :: nat where
  "outputSamples_at = RAWR_CODEC_OUTPUT_SAMPLES_MAX * sizeof_AudioSample"

definition sizeof_samples :: nat where
  "sizeof_samples = outputSamples_at + RAWR_CODEC_INPUT_SAMPLES_MAX * sizeof_AudioSample"

lemmas call_consts [rawr_defs] = RAWR_CALL_SIPARG_MAX_def RAWR_CALL_UDP_OVERHEAD_BYTES_def RAWR_CALL_SRTP_SUITE_def
  RAWR_CALL_SRTP_KEY_LEN_def RAWR_CALL_SRTP_SALT_LEN_def RAWR_CALL_SRTP_TAG_LEN_def outputSamples_at_def sizeof_samples_def

text \<open>
  Pointers to objects of re are \<open>Unset\<close> when null, \<open>Freed\<close> when the reference they stood for is given up. \<open>samples\<close> is the memory of
  \<^verbatim>\<open>inputSamples\<close> and, behind it, \<^verbatim>\<open>outputSamples\<close>: the code hands out pointers to both and a frame may reach
  from the one into the other. \<open>rtpThread\<close> counts the launches of the sending thread.
\<close>

record ('e, 'd, 'a, 'h) rawr_Call =
  call_encoder :: "('e, 'd) rawr_Codec handle"
  call_decoder :: "('e, 'd) rawr_Codec handle"
  call_stream :: "rawr_AudioStream handle"
  call_state :: rawr_CallState
  threadExiting :: bool
  reSip :: "unit handle"
  reRtpSock :: "unit handle"
  reSipReg :: "unit handle"
  reSipSess :: "unit handle"
  reSdpMedia :: "sdp_attr list handle"
  reSdpSess :: "unit handle"
  reSipSessSock :: "unit handle"
  sipInviteURI :: bytes
  sipURI :: bytes
  sipName :: bytes
  sipRegistrar :: bytes
  sipUsername :: bytes
  sipPassword :: bytes
  rtpHandlerIntialized :: bool
  rtpReceiver :: bool
  rtpThread :: nat
  rtpBytesSend :: u64
  rtpBytesRecv :: u64
  rtpSendTotal :: u64
  rtpRecvTotal :: u64
  rtpSendRate :: u64
  rtpRecvRate :: u64
  rtpTime :: u64
  rtpRecvCount :: u64
  rtpLastRecvTime :: u64
  samples :: bytes
  srtpSuite :: srtp_suite
  srtpTransmitContext :: "('a, 'h) srtp option"
  srtpReceiveContext :: "('a, 'h) srtp option"

fun get_keylen :: "srtp_suite \<Rightarrow> nat" where
  "get_keylen SRTP_AES_CM_128_HMAC_SHA1_32 = 16"
| "get_keylen SRTP_AES_CM_128_HMAC_SHA1_80 = 16"
| "get_keylen SRTP_AES_256_CM_HMAC_SHA1_32 = 32"
| "get_keylen SRTP_AES_256_CM_HMAC_SHA1_80 = 32"
| "get_keylen SRTP_AES_128_GCM = 16"
| "get_keylen SRTP_AES_256_GCM = 32"

fun get_saltlen :: "srtp_suite \<Rightarrow> nat" where
  "get_saltlen SRTP_AES_CM_128_HMAC_SHA1_32 = 14"
| "get_saltlen SRTP_AES_CM_128_HMAC_SHA1_80 = 14"
| "get_saltlen SRTP_AES_256_CM_HMAC_SHA1_32 = 14"
| "get_saltlen SRTP_AES_256_CM_HMAC_SHA1_80 = 14"
| "get_saltlen SRTP_AES_128_GCM = 12"
| "get_saltlen SRTP_AES_256_GCM = 12"

fun get_taglen :: "srtp_suite \<Rightarrow> nat" where
  "get_taglen SRTP_AES_CM_128_HMAC_SHA1_32 = 4"
| "get_taglen SRTP_AES_CM_128_HMAC_SHA1_80 = 10"
| "get_taglen SRTP_AES_256_CM_HMAC_SHA1_32 = 4"
| "get_taglen SRTP_AES_256_CM_HMAC_SHA1_80 = 10"
| "get_taglen SRTP_AES_128_GCM = 16"
| "get_taglen SRTP_AES_256_GCM = 16"

definition rawr_Call_SetState :: "('e, 'd, 'a, 'h) rawr_Call \<Rightarrow> rawr_CallState \<Rightarrow> ('e, 'd, 'a, 'h) rawr_Call" where
  "rawr_Call_SetState call s = call\<lparr>call_state := s\<rparr>"

definition rawr_Call_State :: "('e, 'd, 'a, 'h) rawr_Call \<Rightarrow> rawr_CallState" where
  "rawr_Call_State call = call_state call"

definition rawr_Call_SetExiting :: "('e, 'd, 'a, 'h) rawr_Call \<Rightarrow> ('e, 'd, 'a, 'h) rawr_Call" where
  "rawr_Call_SetExiting call = call\<lparr>threadExiting := True\<rparr>"

definition rawr_Call_Exiting :: "('e, 'd, 'a, 'h) rawr_Call \<Rightarrow> bool" where
  "rawr_Call_Exiting call = threadExiting call"

definition rawr_Call_Reset :: "('e, 'd, 'a, 'h) rawr_Call \<Rightarrow> ('e, 'd, 'a, 'h) rawr_Call" where
  "rawr_Call_Reset call = call\<lparr>threadExiting := False, rtpHandlerIntialized := False, rtpReceiver := False,
     rtpBytesSend := 0, rtpBytesRecv := 0, rtpTime := 0, rtpSendTotal := 0, rtpRecvTotal := 0, rtpSendRate := 0,
     rtpRecvRate := 0, rtpRecvCount := 0, rtpLastRecvTime := 0, samples := replicate sizeof_samples 0\<rparr>"

text \<open>What a pointer refers to when it is dereferenced, and \<^verbatim>\<open>mem_deref\<close>, which may not give up a reference twice.\<close>

fun target :: "'b handle \<Rightarrow> 'b option" where
  "target (Live x) = Some x"
| "target _ = None"

fun mem_deref :: "'b handle \<Rightarrow> 'b handle option" where
  "mem_deref Unset = Some Unset"
| "mem_deref (Live x) = Some Freed"
| "mem_deref Freed = None"

section \<open>Sending\<close>

text \<open>
  The client polls the stream until a frame is there; between two polls the device may run. When no
  frame came during the polls of the list, the number is 0 and the client still waits.
\<close>

type_synonym device = "rawr_AudioStream \<Rightarrow> rawr_AudioStream"

fun poll_read :: "device list \<Rightarrow> rawr_AudioStream \<Rightarrow> bytes \<Rightarrow> (rawr_AudioStream \<times> bytes \<times> size_t) option" where
  "poll_read [] s buf = Some (s, buf, 0)"
| "poll_read (d # ds) s buf =
     (case rawr_AudioStream_Read (d s) buf of
        None \<Rightarrow> None
      | Some (s, buf, n) \<Rightarrow> if n = 0 then poll_read ds s buf else Some (s, buf, n))"

fun poll_write :: "device list \<Rightarrow> rawr_AudioStream \<Rightarrow> bytes \<Rightarrow> (rawr_AudioStream \<times> size_t) option" where
  "poll_write [] s buf = Some (s, 0)"
| "poll_write (d # ds) s buf =
     (case rawr_AudioStream_Write (d s) buf of
        None \<Rightarrow> None
      | Some (s, n) \<Rightarrow> if n = 0 then poll_write ds s buf else Some (s, n))"

text \<open>The local variables of the sending thread.\<close>

record send_local =
  re_mb :: mbuf
  rtp_type :: u8
  rtpSeq :: u32
  tstamp_last :: u64
  last_recv_count :: u64
  recv_stasis :: u64

definition rtpSsrc :: u32 where "rtpSsrc = 0xdead1ee7"
definition rtp_wait_ns :: u64 where "rtp_wait_ns = 1000000000"

definition frame_size :: int where
  "frame_size = rawr_Codec_FrameSize rawr_CodecRate_48k rawr_CodecTiming_20ms"

text \<open>The header of the next packet; \<^verbatim>\<open>csrc\<close> and the extension keep what the stack holds, \<open>junk\<close>.\<close>

definition send_hdr :: "rtp_header \<Rightarrow> send_local \<Rightarrow> u64 \<Rightarrow> rtp_header" where
  "send_hdr junk loc time = junk\<lparr>hdr_ver := RTP_VERSION, hdr_pad := False, hdr_ext := False, hdr_cc := 0,
     hdr_m := (time = word_of_int frame_size), hdr_pt := rtp_type loc, hdr_seq := ucast (rtpSeq loc), hdr_ts := ucast time,
     hdr_ssrc := rtpSsrc\<rparr>"

definition send_init :: "(nat \<Rightarrow> bool) \<Rightarrow> u64 \<Rightarrow> ('e, 'd, 'a, 'h) rawr_Call \<Rightarrow> (('e, 'd, 'a, 'h) rawr_Call \<times> send_local) option" where
  "send_init mem now call = do {
     mb \<leftarrow> mbuf_alloc mem RAWR_CODEC_OUTPUT_BYTES_MAX;
     Some (call\<lparr>rtpBytesSend := 0, rtpSendTotal := 0, rtpSendRate := 0\<rparr>,
       \<lparr>re_mb = mb, rtp_type = (if rtpReceiver call then 0x66 else 0x74), rtpSeq = 1024, tstamp_last = now,
        last_recv_count = rtpRecvCount call, recv_stasis = 0\<rparr>)
   }"

text \<open>Once a second the totals and the rate are published and the receiver's progress is looked at.\<close>

definition send_stats :: "u64 \<Rightarrow> ('e, 'd, 'a, 'h) rawr_Call \<Rightarrow> send_local \<Rightarrow> ('e, 'd, 'a, 'h) rawr_Call \<times> send_local" where
  "send_stats now call loc =
     (if now - tstamp_last loc > rtp_wait_ns then
        (let call = call\<lparr>rtpSendTotal := rtpSendTotal call + rtpBytesSend call, rtpSendRate := rtpBytesSend call\<rparr>;
             call = call\<lparr>rtpBytesSend := 0\<rparr>;
             loc = loc\<lparr>tstamp_last := tstamp_last loc + rtp_wait_ns\<rparr>
         in (call, if rtpRecvCount call = last_recv_count loc then loc\<lparr>recv_stasis := recv_stasis loc + 1\<rparr>
                   else loc\<lparr>last_recv_count := rtpRecvCount call, recv_stasis := 0\<rparr>))
      else (call, loc))"

text \<open>What one round meets: the device between polls, the outcome of allocations, the result of \<^verbatim>\<open>udp_send\<close> and the
  clock.\<close>

record send_env =
  env_device :: "device list"
  env_mem :: "nat \<Rightarrow> bool"
  env_strm :: bool
  env_udp :: int
  env_now :: u64
  env_junk :: rtp_header

text \<open>
  \<^verbatim>\<open>udp_send\<close> to the address of the media line: a null pointer is refused with \<^verbatim>\<open>EINVAL\<close>, objects whose reference
  was given up may not be used; \<open>r\<close> is the result of sending.
\<close>

definition udp_send :: "unit handle \<Rightarrow> 'm handle \<Rightarrow> int \<Rightarrow> int option" where
  "udp_send us media r =
     (case (us, media) of
        (Unset, _) \<Rightarrow> Some EINVAL
      | (_, Unset) \<Rightarrow> Some EINVAL
      | (Live _, Live _) \<Rightarrow> Some r
      | _ \<Rightarrow> None)"

text \<open>
  One round of the loop ends in the next round, in the error branch that leaves the loop, or is still
  waiting for a frame. With it goes the datagram handed to the socket, if the round came that far.
\<close>

datatype 's send_outcome = Send_next 's | Send_left 's | Send_wait 's

type_synonym ('e, 'd, 'a, 'h) send_state = "('e, 'd, 'a, 'h) rawr_Call \<times> send_local"

definition send_packet ::
  "('a, 'h) crypto \<Rightarrow> send_env \<Rightarrow> ('e, 'd, 'a, 'h) rawr_Call \<Rightarrow> send_local \<Rightarrow> int \<Rightarrow>
   (('e, 'd, 'a, 'h) send_state send_outcome \<times> bytes option) option" where
  "send_packet cr env call loc len =
     (let mb = re_mb loc; mb = mb\<lparr>mb_end := mb_pos mb + nat len, mb_pos := 0\<rparr>;
          call = call\<lparr>rtpBytesSend := rtpBytesSend call + word_of_int len + RAWR_CALL_UDP_OVERHEAD_BYTES\<rparr>
      in case srtpTransmitContext call of
           None \<Rightarrow> Some (Send_left (call, loc\<lparr>re_mb := mb\<rparr>), None)
         | Some ctx \<Rightarrow> do {
             (ctx, mb, err) \<leftarrow> srtp_encrypt cr (env_mem env) (env_strm env) ctx mb;
             let call = call\<lparr>srtpTransmitContext := Some ctx\<rparr>; loc = loc\<lparr>re_mb := mb\<rparr>
             in if err \<noteq> 0 then Some (Send_left (call, loc), None)
                else do {
                  err \<leftarrow> udp_send (reRtpSock call) (reSdpMedia call) (env_udp env);
                  let out = (if reRtpSock call = Unset \<or> reSdpMedia call = Unset then None else Some (mbuf_rest mb))
                  in if err < 0 then Some (Send_left (call, loc), out)
                     else Some (Send_next (send_stats (env_now env) call loc), out)
                }
           })"

definition rawr_Call_RtpSendThread_round ::
  "('e, 'd) opus \<Rightarrow> ('a, 'h) crypto \<Rightarrow> send_env \<Rightarrow> ('e, 'd, 'a, 'h) send_state \<Rightarrow>
   (('e, 'd, 'a, 'h) send_state send_outcome \<times> bytes option) option" where
  "rawr_Call_RtpSendThread_round op cr env st = (case st of (call, loc) \<Rightarrow> do {
     guard (length (mb_buf (re_mb loc)) = RAWR_CODEC_OUTPUT_BYTES_MAX);
     let call = call\<lparr>rtpTime := rtpTime call + word_of_int frame_size\<rparr>;
         hdr = send_hdr (env_junk env) loc (rtpTime call);
         loc = loc\<lparr>rtpSeq := rtpSeq loc + 1\<rparr>
     in do {
       (mb, err) \<leftarrow> rtp_hdr_encode (env_mem env) (mbuf_rewind (re_mb loc)) hdr;
       let loc = loc\<lparr>re_mb := mb\<rparr>
       in if err \<noteq> 0 then Some (Send_left (call, loc), None)
          else do {
            s \<leftarrow> target (call_stream call);
            (s, smp, n) \<leftarrow> poll_read (env_device env) s (samples call);
            let call = call\<lparr>call_stream := Live s, samples := smp\<rparr>
            in if n = 0 then Some (Send_wait (call, loc), None)
               else do {
                 enc \<leftarrow> target (call_encoder call);
                 (enc, out, len) \<leftarrow> rawr_Codec_Encode op enc (samples call) (drop (mb_pos mb) (mb_buf mb));
                 let call = call\<lparr>call_encoder := Live enc\<rparr>;
                     loc = loc\<lparr>re_mb := mb\<lparr>mb_buf := take (mb_pos mb) (mb_buf mb) @ out\<rparr>\<rparr>
                 in if len < 0 then Some (Send_left (call, loc), None) else send_packet cr env call loc len
               }
          }
     }
   })"

text \<open>The thread: it runs rounds until the call is exiting; \<open>envs\<close> lists what the rounds meet, between them
  the rest of the program may change the call by \<open>env_other\<close>. The result has the datagrams sent.\<close>

fun rawr_Call_RtpSendThread_loop ::
  "('e, 'd) opus \<Rightarrow> ('a, 'h) crypto \<Rightarrow> (send_env \<times> (('e, 'd, 'a, 'h) rawr_Call \<Rightarrow> ('e, 'd, 'a, 'h) rawr_Call)) list \<Rightarrow>
   ('e, 'd, 'a, 'h) send_state \<Rightarrow> (('e, 'd, 'a, 'h) send_state send_outcome \<times> bytes list) option" where
  "rawr_Call_RtpSendThread_loop op cr [] st = Some (Send_next st, [])"
| "rawr_Call_RtpSendThread_loop op cr ((env, other) # envs) st =
     (case st of (call, loc) \<Rightarrow>
      if rawr_Call_Exiting call then Some (Send_left st, [])
      else do {
        (r, out) \<leftarrow> rawr_Call_RtpSendThread_round op cr env st;
        let sent = (case out of None \<Rightarrow> [] | Some d \<Rightarrow> [d])
        in (case r of
              Send_next (call, loc) \<Rightarrow>
                map_option (\<lambda>(r, ds). (r, sent @ ds)) (rawr_Call_RtpSendThread_loop op cr envs (other call, loc))
            | _ \<Rightarrow> Some (r, sent))
      })"

definition rawr_Call_RtpSendThread ::
  "('e, 'd) opus \<Rightarrow> ('a, 'h) crypto \<Rightarrow> (nat \<Rightarrow> bool) \<Rightarrow> u64 \<Rightarrow>
   (send_env \<times> (('e, 'd, 'a, 'h) rawr_Call \<Rightarrow> ('e, 'd, 'a, 'h) rawr_Call)) list \<Rightarrow> ('e, 'd, 'a, 'h) rawr_Call \<Rightarrow>
   (('e, 'd, 'a, 'h) send_state send_outcome \<times> bytes list) option" where
  "rawr_Call_RtpSendThread op cr mem now envs call =
     send_init mem now call \<bind> rawr_Call_RtpSendThread_loop op cr envs"

section \<open>Receiving\<close>

record recv_env =
  recv_device :: "device list"
  recv_mem :: "nat \<Rightarrow> bool"
  recv_strm :: bool
  recv_now :: "u64 \<times> u64"

text \<open>The statistics at the start of the handler; the clock is read once or twice.\<close>

definition recv_stats :: "u64 \<times> u64 \<Rightarrow> mbuf \<Rightarrow> ('e, 'd, 'a, 'h) rawr_Call \<Rightarrow> ('e, 'd, 'a, 'h) rawr_Call" where
  "recv_stats now mb call =
     (let call = (if rtpHandlerIntialized call then call
                  else call\<lparr>rtpHandlerIntialized := True, rtpBytesRecv := 0, rtpRecvTotal := 0, rtpRecvRate := 0,
                            rtpLastRecvTime := fst now\<rparr>);
          call = call\<lparr>rtpBytesRecv := rtpBytesRecv call + of_nat (mbuf_get_left mb) + RAWR_CALL_UDP_OVERHEAD_BYTES\<rparr>
      in if snd now - rtpLastRecvTime call > rtp_wait_ns then
           call\<lparr>rtpRecvTotal := rtpRecvTotal call + rtpBytesRecv call, rtpRecvRate := rtpBytesRecv call,
                rtpLastRecvTime := rtpLastRecvTime call + rtp_wait_ns, rtpBytesRecv := 0\<rparr>
         else call)"

text \<open>The packet is played, or dropped with an error, or the handler still waits for room in the stream.\<close>

datatype recv_outcome = Recv_played | Recv_dropped | Recv_wait

definition rawr_Call_OnRtp ::
  "('e, 'd) opus \<Rightarrow> ('a, 'h) crypto \<Rightarrow> recv_env \<Rightarrow> mbuf \<Rightarrow> ('e, 'd, 'a, 'h) rawr_Call \<Rightarrow> (('e, 'd, 'a, 'h) rawr_Call \<times> recv_outcome) option" where
  "rawr_Call_OnRtp op cr env mb call =
     (let call = recv_stats (recv_now env) mb call in
      case srtpReceiveContext call of
        None \<Rightarrow> Some (call, Recv_dropped)
      | Some ctx \<Rightarrow> do {
          (ctx, mb, err) \<leftarrow> srtp_decrypt cr (recv_mem env) (recv_strm env) ctx (mb\<lparr>mb_pos := 0\<rparr>);
          let call = call\<lparr>srtpReceiveContext := Some ctx\<rparr>
          in if err \<noteq> 0 then Some (call, Recv_dropped)
             else (let mb = mb\<lparr>mb_pos := 12\<rparr> in do {
               dec \<leftarrow> target (call_decoder call);
               (dec, out, n) \<leftarrow> rawr_Codec_Decode op dec (drop (mb_pos mb) (mb_buf mb)) (sint (of_nat (mbuf_get_left mb) :: u32))
                                (drop outputSamples_at (samples call));
               let call = call\<lparr>call_decoder := Live dec, samples := take outputSamples_at (samples call) @ out\<rparr>
               in if n < 0 then Some (call, Recv_dropped)
                  else do {
                    s \<leftarrow> target (call_stream call);
                    (s, n) \<leftarrow> poll_write (recv_device env) s (drop outputSamples_at (samples call));
                    let call = call\<lparr>call_stream := Live s\<rparr>
                    in if n = 0 then Some (call, Recv_wait)
                       else Some (call\<lparr>rtpRecvCount := rtpRecvCount call + 1\<rparr>, Recv_played)
                  }
             })
        })"

text \<open>The header is decoded and its errors are only reported: the packet is handled in any case.\<close>

definition rawr_Call_OnUdpRecv ::
  "('e, 'd) opus \<Rightarrow> ('a, 'h) crypto \<Rightarrow> recv_env \<Rightarrow> mbuf \<Rightarrow> ('e, 'd, 'a, 'h) rawr_Call \<Rightarrow> (('e, 'd, 'a, 'h) rawr_Call \<times> recv_outcome) option" where
  "rawr_Call_OnUdpRecv op cr env mb call = do {
     (hdr, mb, err) \<leftarrow> rtp_hdr_decode hdr_local mb;
     rawr_Call_OnRtp op cr env mb call
   }"

section \<open>Signalling\<close>

definition dup_err :: "int + bytes \<Rightarrow> int" where
  "dup_err r = (case r of Inl e \<Rightarrow> e | Inr _ \<Rightarrow> 0)"

definition rawr_Call_OnAuth :: "bool \<Rightarrow> bool \<Rightarrow> ('e, 'd, 'a, 'h) rawr_Call \<Rightarrow> ((int + bytes) \<times> (int + bytes) \<times> int) option" where
  "rawr_Call_OnAuth mem1 mem2 call = do {
     user \<leftarrow> str_dup mem1 (Some (sipUsername call));
     pass \<leftarrow> str_dup mem2 (Some (sipPassword call));
     Some (user, pass, dup_err user OR dup_err pass)
   }"

text \<open>The tokens \<^verbatim>\<open>strtok\<close> finds with a space as delimiter.\<close>

function tokens :: "bytes \<Rightarrow> bytes list" where
  "tokens s = (case dropWhile (\<lambda>b. b = 32) s of
     [] \<Rightarrow> []
   | c # cs \<Rightarrow> (c # takeWhile (\<lambda>b. b \<noteq> 32) cs) # tokens (dropWhile (\<lambda>b. b \<noteq> 32) cs))"
  by pat_completeness auto
termination
proof (relation "measure length")
  fix s c cs
  assume "dropWhile (\<lambda>b. b = (32 :: u8)) s = c # cs"
  then have "length (c # cs) \<le> length s" by (metis length_dropWhile_le)
  moreover have "length (dropWhile (\<lambda>b. b \<noteq> (32 :: u8)) cs) \<le> length cs" by (rule length_dropWhile_le)
  ultimately show "(dropWhile (\<lambda>b. b \<noteq> 32) cs, s) \<in> measure length" by simp
qed simp

declare tokens.simps [simp del]

text \<open>The key token: the text behind the first colon is decoded over \<open>junk\<close>, the 30 bytes of the stack array.\<close>

definition crypto_key ::
  "('a, 'h) crypto \<Rightarrow> bool \<Rightarrow> bytes \<Rightarrow> bytes \<Rightarrow> ('e, 'd, 'a, 'h) rawr_Call \<Rightarrow> ('e, 'd, 'a, 'h) rawr_Call \<times> bool" where
  "crypto_key cr mem_srtp junk token call =
     (case dropWhile (\<lambda>b. b \<noteq> 58) token of
        [] \<Rightarrow> (call, False)
      | _ # inline_key \<Rightarrow>
          (case base64_decode inline_key (RAWR_CALL_SRTP_KEY_LEN + RAWR_CALL_SRTP_SALT_LEN) of
             Inl err \<Rightarrow> (call, False)
           | Inr key \<Rightarrow>
               (case srtp_alloc cr mem_srtp (srtpSuite call) (patch junk 0 key) False of
                  Inl err \<Rightarrow> (call, False)
                | Inr ctx \<Rightarrow> (call\<lparr>srtpReceiveContext := Some ctx\<rparr>, True))))"

fun crypto_tokens ::
  "('a, 'h) crypto \<Rightarrow> bool \<Rightarrow> bytes \<Rightarrow> nat \<Rightarrow> bytes list \<Rightarrow> ('e, 'd, 'a, 'h) rawr_Call \<Rightarrow> ('e, 'd, 'a, 'h) rawr_Call \<times> bool" where
  "crypto_tokens cr mem_srtp junk i [] call = (call, False)"
| "crypto_tokens cr mem_srtp junk i (token # ts) call =
     (if i = 1 \<and> token \<noteq> chars (srtp_suite_name (srtpSuite call)) then (call, False)
      else if i = 2 then crypto_key cr mem_srtp junk token call
      else crypto_tokens cr mem_srtp junk (i + 1) ts call)"

text \<open>\<open>mem_dup\<close> is the outcome of \<^verbatim>\<open>strdup\<close>; its null result is handed to \<^verbatim>\<open>strtok\<close>.\<close>

definition rawr_Call_CryptoAttribHandler ::
  "('a, 'h) crypto \<Rightarrow> bool \<Rightarrow> bool \<Rightarrow> bytes \<Rightarrow> bytes \<Rightarrow> ('e, 'd, 'a, 'h) rawr_Call \<Rightarrow> (('e, 'd, 'a, 'h) rawr_Call \<times> bool) option" where
  "rawr_Call_CryptoAttribHandler cr mem_dup mem_srtp junk val call =
     (if srtpReceiveContext call = None
      then do { guard mem_dup; Some (crypto_tokens cr mem_srtp junk 0 (tokens val) call) }
      else Some (call, False))"

text \<open>What a SIP message and the SDP code bring: whether there is a body, the error codes, whether the
  peer offers Opus, and the attributes of its media line.\<close>

record sdp_env =
  sdp_body :: bool
  sdp_decode_err :: int
  sdp_encode_err :: int
  sdp_opus :: bool
  sdp_rattrs :: "sdp_attr list"
  sdp_mem :: "bool \<times> bool"
  sdp_stack :: bytes

definition rawr_Call_UpdateMedia :: "('a, 'h) crypto \<Rightarrow> sdp_env \<Rightarrow> ('e, 'd, 'a, 'h) rawr_Call \<Rightarrow> ('e, 'd, 'a, 'h) rawr_Call option" where
  "rawr_Call_UpdateMedia cr env call =
     (if \<not> sdp_opus env then Some call
      else if srtpReceiveContext call = None then
        map_option fst (sdp_attr_apply (sdp_rattrs env) (chars ''crypto'')
          (rawr_Call_CryptoAttribHandler cr (fst (sdp_mem env)) (snd (sdp_mem env)) (sdp_stack env)) call)
      else Some call)"

definition rawr_Call_OnOffer :: "('a, 'h) crypto \<Rightarrow> sdp_env \<Rightarrow> ('e, 'd, 'a, 'h) rawr_Call \<Rightarrow> (('e, 'd, 'a, 'h) rawr_Call \<times> int) option" where
  "rawr_Call_OnOffer cr env call =
     (if sdp_body env then
        (if sdp_decode_err env \<noteq> 0 then Some (call, sdp_decode_err env)
         else map_option (\<lambda>call. (call, sdp_encode_err env)) (rawr_Call_UpdateMedia cr env (call\<lparr>rtpReceiver := False\<rparr>)))
      else Some (call, sdp_encode_err env))"

definition rawr_Call_OnAnswer :: "('a, 'h) crypto \<Rightarrow> sdp_env \<Rightarrow> ('e, 'd, 'a, 'h) rawr_Call \<Rightarrow> (('e, 'd, 'a, 'h) rawr_Call \<times> int) option" where
  "rawr_Call_OnAnswer cr env call =
     (if sdp_decode_err env \<noteq> 0 then Some (call, sdp_decode_err env)
      else map_option (\<lambda>call. (call, 0)) (rawr_Call_UpdateMedia cr env (call\<lparr>rtpReceiver := False\<rparr>)))"

text \<open>Launching the sending thread; the code of a failed launch is not looked at.\<close>

definition launch_rtp :: "int \<Rightarrow> ('e, 'd, 'a, 'h) rawr_Call \<Rightarrow> ('e, 'd, 'a, 'h) rawr_Call" where
  "launch_rtp launch_err call = (if launch_err \<noteq> 0 then call else call\<lparr>rtpThread := rtpThread call + 1\<rparr>)"

definition rawr_Call_OnEstablish :: "int \<Rightarrow> ('e, 'd, 'a, 'h) rawr_Call \<Rightarrow> ('e, 'd, 'a, 'h) rawr_Call" where
  "rawr_Call_OnEstablish launch_err call = launch_rtp launch_err call"

text \<open>
  \<^verbatim>\<open>sip_close\<close> without force: nothing for a null pointer; a stack that is there stays until its transactions are
  done, and one whose reference was given up may not be used.
\<close>

fun sip_close :: "unit handle \<Rightarrow> unit option" where
  "sip_close Unset = Some ()"
| "sip_close (Live _) = Some ()"
| "sip_close Freed = None"

text \<open>The session and the registration are given up, the threads told to end and the stack closed.\<close>

definition rawr_Call_Terminate :: "('e, 'd, 'a, 'h) rawr_Call \<Rightarrow> ('e, 'd, 'a, 'h) rawr_Call option" where
  "rawr_Call_Terminate call = do {
     _ \<leftarrow> mem_deref (reSipSess call);
     _ \<leftarrow> mem_deref (reSipReg call);
     let call = rawr_Call_SetExiting (call\<lparr>reSipSess := Unset, reSipReg := Unset\<rparr>)
     in do { _ \<leftarrow> sip_close (reSip call); Some call }
   }"

definition rawr_Call_OnClose :: "('e, 'd, 'a, 'h) rawr_Call \<Rightarrow> ('e, 'd, 'a, 'h) rawr_Call option" where
  "rawr_Call_OnClose call = rawr_Call_Terminate call"

text \<open>An incoming call: the reply is 486 during a call, 500 on an error and none here when it is accepted, which
  answers it with 200.\<close>

definition rawr_Call_OnConnect ::
  "('a, 'h) crypto \<Rightarrow> sdp_env \<Rightarrow> int \<Rightarrow> int \<Rightarrow> ('e, 'd, 'a, 'h) rawr_Call \<Rightarrow>
   (('e, 'd, 'a, 'h) rawr_Call \<times> nat option) option" where
  "rawr_Call_OnConnect cr env accept_err launch_err call =
     (if reSipSess call \<noteq> Unset then Some (call, Some 486)
      else if sdp_body env \<and> sdp_decode_err env \<noteq> 0 then Some (call, Some 500)
      else do {
        call \<leftarrow> (if sdp_body env then rawr_Call_UpdateMedia cr env (call\<lparr>rtpReceiver := True\<rparr>) else Some call);
        if sdp_encode_err env \<noteq> 0 then Some (call, Some 500)
        else if accept_err \<noteq> 0 then Some (call, Some 500)
        else Some (launch_rtp launch_err (call\<lparr>reSipSess := Live ()\<rparr>), None)
      })"

section \<open>The main loop\<close>

text \<open>
  What the main loop of re dispatches to the call, one per poll: messages of the SIP session, datagrams,
  the handlers that end the loop, and an error of the poll itself. \<open>Other\<close> is what the rest of the program does to
  the call meanwhile.
\<close>

datatype ('e, 'd, 'a, 'h) event =
    Offer sdp_env | Answer sdp_env | Progress nat | Establish int | Close int | Connect sdp_env int int | Register int
  | Udp recv_env mbuf | Exit | Signal int | Poll_error int | Other "('e, 'd, 'a, 'h) rawr_Call \<Rightarrow> ('e, 'd, 'a, 'h) rawr_Call"

text \<open>After a handler the loop goes on, or ends with a code, or is held up because the handler has not returned.\<close>

datatype loop_outcome = Loop_next | Loop_done int | Loop_held

definition EINTR :: int where "EINTR = 4"

fun handle ::
  "('e, 'd) opus \<Rightarrow> ('a, 'h) crypto \<Rightarrow> ('e, 'd, 'a, 'h) event \<Rightarrow> ('e, 'd, 'a, 'h) rawr_Call \<Rightarrow>
   (('e, 'd, 'a, 'h) rawr_Call \<times> loop_outcome) option" where
  "handle op cr (Offer env) call = map_option (\<lambda>(c, _). (c, Loop_next)) (rawr_Call_OnOffer cr env call)"
| "handle op cr (Answer env) call = map_option (\<lambda>(c, _). (c, Loop_next)) (rawr_Call_OnAnswer cr env call)"
| "handle op cr (Progress scode) call = Some (call, Loop_next)"
| "handle op cr (Establish err) call = Some (rawr_Call_OnEstablish err call, Loop_next)"
| "handle op cr (Close err) call = map_option (\<lambda>c. (c, Loop_next)) (rawr_Call_OnClose call)"
| "handle op cr (Connect env err launch_err) call =
     map_option (\<lambda>(c, _). (c, Loop_next)) (rawr_Call_OnConnect cr env err launch_err call)"
| "handle op cr (Register err) call = Some (call, Loop_next)"
| "handle op cr (Udp env mb) call =
     map_option (\<lambda>(c, r). (c, if r = Recv_wait then Loop_held else Loop_next)) (rawr_Call_OnUdpRecv op cr env mb call)"
| "handle op cr Exit call = Some (call, Loop_done 0)"
| "handle op cr (Signal s) call = Some (call, Loop_done 0)"
| "handle op cr (Poll_error err) call = Some (call, if err = 0 \<or> err = EINTR then Loop_next else Loop_done err)"
| "handle op cr (Other f) call = Some (f call, Loop_next)"

text \<open>The code the loop ends with, or \<open>None\<close> with the call as it is when the loop still runs after the events.\<close>

fun re_main ::
  "('e, 'd) opus \<Rightarrow> ('a, 'h) crypto \<Rightarrow> ('e, 'd, 'a, 'h) event list \<Rightarrow> ('e, 'd, 'a, 'h) rawr_Call \<Rightarrow>
   (('e, 'd, 'a, 'h) rawr_Call \<times> int option) option" where
  "re_main op cr [] call = Some (call, None)"
| "re_main op cr (ev # evs) call =
     (case handle op cr ev call of
        None \<Rightarrow> None
      | Some (call, Loop_next) \<Rightarrow> re_main op cr evs call
      | Some (call, Loop_done err) \<Rightarrow> Some (call, Some err)
      | Some (call, Loop_held) \<Rightarrow> Some (call, None))"

section \<open>The signalling thread\<close>

text \<open>
  What the thread meets: the audio devices and PortAudio, memory for the stream and the codecs, the codes
  of the calls into re, the random key, the events of the main loop and whether the sending thread ends.
\<close>

record ('e, 'd, 'a, 'h) sip_env =
  sip_audio :: rawr_AudioPrivate
  sip_pa :: pa
  sip_stream_mem :: "nat \<Rightarrow> bool"
  sip_stream_junk :: rawr_AudioStream
  sip_enc_mem :: "('e, 'd) rawr_Codec option \<times> ('e, 'd) rawr_CodecPriv option"
  sip_dec_mem :: "('e, 'd) rawr_Codec option \<times> ('e, 'd) rawr_CodecPriv option"
  dns_srv_get_err :: int
  dnsc_alloc_err :: int
  sip_alloc_err :: int
  net_default_source_addr_get_err :: int
  tls_alloc_err :: int
  sip_transp_add_err :: int
  sipsess_listen_err :: int
  udp_listen_err :: int
  sdp_session_alloc_err :: int
  sdp_media_add_err :: int
  rand_key :: bytes
  sip_srtp_mem :: bool
  sip_attr_mem :: "(bool \<times> bool \<times> bool) \<times> (bool \<times> bool \<times> bool)"
  sip_fmt :: "bytes \<Rightarrow> bytes"
  sdp_format_add_err :: int
  sdp_offer_err :: int
  sipsess_connect_err :: int
  sip_events :: "('e, 'd, 'a, 'h) event list"
  sip_rtp_ends :: bool

text \<open>The stages of the thread; the flag is false when the stage jumped to the clean-up.\<close>

definition sip_audio_setup ::
  "('e, 'd) opus \<Rightarrow> ('e, 'd, 'a, 'h) sip_env \<Rightarrow> ('e, 'd, 'a, 'h) rawr_Call \<Rightarrow> (('e, 'd, 'a, 'h) rawr_Call \<times> bool) option" where
  "sip_audio_setup op env call = do {
     (h, _) \<leftarrow> rawr_AudioStream_Setup (sip_stream_mem env) (sip_stream_junk env) (call_stream call) 48000 1 frame_size;
     s \<leftarrow> target h;
     (s, _) \<leftarrow> rawr_AudioStream_AddDevice s (rawr_AudioDevice_DefaultInput (sip_audio env));
     (s, _) \<leftarrow> rawr_AudioStream_AddDevice s (rawr_AudioDevice_DefaultOutput (sip_audio env));
     let call = call\<lparr>call_stream := Live s\<rparr>;
         enc = rawr_Codec_Setup op (fst (sip_enc_mem env)) (snd (sip_enc_mem env)) (call_encoder call)
                 rawr_CodecType_Encoder rawr_CodecRate_48k rawr_CodecTiming_20ms;
         call = call\<lparr>call_encoder := fst enc\<rparr>
     in if snd enc \<noteq> 0 then Some (call, False)
        else (let dec = rawr_Codec_Setup op (fst (sip_dec_mem env)) (snd (sip_dec_mem env)) (call_decoder call)
                          rawr_CodecType_Decoder rawr_CodecRate_48k rawr_CodecTiming_20ms;
                  call = call\<lparr>call_decoder := fst dec\<rparr>
              in if snd dec \<noteq> 0 then Some (call, False)
                 else do {
                   (s, err) \<leftarrow> rawr_AudioStream_Start (sip_pa env) s;
                   Some (call\<lparr>call_stream := Live s\<rparr>, err = 0)
                 })
   }"

definition sip_transport ::
  "('e, 'd, 'a, 'h) sip_env \<Rightarrow> ('e, 'd, 'a, 'h) rawr_Call \<Rightarrow> ('e, 'd, 'a, 'h) rawr_Call \<times> unit handle \<times> bool" where
  "sip_transport env call =
     (if dns_srv_get_err env \<noteq> 0 then (call, Unset, False)
      else if dnsc_alloc_err env \<noteq> 0 then (call, Unset, False)
      else (let dnsClient = Live () in
        if sip_alloc_err env \<noteq> 0 then (call, dnsClient, False)
        else (let call = call\<lparr>reSip := Live ()\<rparr> in
          if net_default_source_addr_get_err env \<noteq> 0 \<or> tls_alloc_err env \<noteq> 0 \<or> sip_transp_add_err env \<noteq> 0
          then (call, dnsClient, False)
          else if sipsess_listen_err env \<noteq> 0 then (call, dnsClient, False)
          else (let call = call\<lparr>reSipSessSock := Live ()\<rparr> in
            if udp_listen_err env \<noteq> 0 then (call, dnsClient, False)
            else (call\<lparr>reRtpSock := Live ()\<rparr>, dnsClient, True)))))"

text \<open>The line that tells the peer the key, in a buffer of 4096 bytes.\<close>

definition sdp_crypto_line :: "srtp_suite \<Rightarrow> bytes \<Rightarrow> bytes" where
  "sdp_crypto_line suite tx_key_str =
     take 4094 (chars ''1 '' @ chars (srtp_suite_name suite) @ chars '' inline:'' @ tx_key_str)"

definition sip_keys ::
  "('a, 'h) crypto \<Rightarrow> ('e, 'd, 'a, 'h) sip_env \<Rightarrow> ('e, 'd, 'a, 'h) rawr_Call \<Rightarrow> ('e, 'd, 'a, 'h) rawr_Call option" where
  "sip_keys cr env call =
     (let tx_key = take (RAWR_CALL_SRTP_KEY_LEN + RAWR_CALL_SRTP_SALT_LEN) (rand_key env);
          tx_key_str = (case base64_encode tx_key 255 of Inr s \<Rightarrow> s | Inl _ \<Rightarrow> []);
          call = (case srtp_alloc cr (sip_srtp_mem env) (srtpSuite call) tx_key False of
                    Inr ctx \<Rightarrow> call\<lparr>srtpTransmitContext := Some ctx\<rparr> | Inl _ \<Rightarrow> call)
      in do {
        media \<leftarrow> target (reSdpMedia call);
        let media = fst (sdp_media_set_lattr (fst (sip_attr_mem env)) (sip_fmt env) media True (chars ''crypto'')
                           (sdp_crypto_line (srtpSuite call) tx_key_str));
            media = fst (sdp_media_set_lattr (snd (sip_attr_mem env)) (sip_fmt env) media True (chars ''encryption'')
                           (chars ''required''))
        in Some (call\<lparr>reSdpMedia := Live media\<rparr>)
      })"

definition sip_session ::
  "('a, 'h) crypto \<Rightarrow> ('e, 'd, 'a, 'h) sip_env \<Rightarrow> ('e, 'd, 'a, 'h) rawr_Call \<Rightarrow> (('e, 'd, 'a, 'h) rawr_Call \<times> bool) option" where
  "sip_session cr env call =
     (if sdp_session_alloc_err env \<noteq> 0 then Some (call, False)
      else (let call = call\<lparr>reSdpSess := Live ()\<rparr> in
        if sdp_media_add_err env \<noteq> 0 then Some (call, False)
        else do {
          call \<leftarrow> sip_keys cr env (call\<lparr>reSdpMedia := Live []\<rparr>);
          if sdp_format_add_err env \<noteq> 0 \<or> sdp_offer_err env \<noteq> 0 \<or> sipsess_connect_err env \<noteq> 0
          then Some (call, False)
          else Some (call\<lparr>reSipSess := Live ()\<rparr>, True)
        }))"

text \<open>After the main loop: the call is stopping and its audio is taken down once the sending thread has ended.\<close>

definition sip_finish :: "pa \<Rightarrow> ('e, 'd, 'a, 'h) rawr_Call \<Rightarrow> ('e, 'd, 'a, 'h) rawr_Call option" where
  "sip_finish p call = do {
     s \<leftarrow> target (call_stream call);
     err \<leftarrow> rawr_AudioStream_Stop p s;
     if err \<noteq> 0 then Some call
     else do {
       h \<leftarrow> rawr_AudioStream_Cleanup (call_stream call);
       enc \<leftarrow> rawr_Codec_Cleanup (call_encoder call);
       dec \<leftarrow> rawr_Codec_Cleanup (call_decoder call);
       Some (call\<lparr>call_stream := h, call_encoder := fst enc, call_decoder := fst dec\<rparr>)
     }
   }"

text \<open>The clean-up gives the references up but leaves the pointers as they are; the media line goes with its session.\<close>

definition sip_cleanup :: "unit handle \<Rightarrow> ('e, 'd, 'a, 'h) rawr_Call \<Rightarrow> ('e, 'd, 'a, 'h) rawr_Call option" where
  "sip_cleanup dnsClient call = do {
     sess \<leftarrow> mem_deref (reSdpSess call);
     rtp \<leftarrow> mem_deref (reRtpSock call);
     sock \<leftarrow> mem_deref (reSipSessSock call);
     sip \<leftarrow> mem_deref (reSip call);
     _ \<leftarrow> mem_deref dnsClient;
     Some (call\<lparr>reSip := sip, reRtpSock := rtp, reSdpMedia := (if reSdpMedia call = Unset then Unset else Freed),
                reSdpSess := sess, reSipSessSock := sock\<rparr>)
   }"

datatype sip_outcome = Sip_running | Sip_returned

definition rawr_Call_SipThread ::
  "('e, 'd) opus \<Rightarrow> ('a, 'h) crypto \<Rightarrow> ('e, 'd, 'a, 'h) sip_env \<Rightarrow> ('e, 'd, 'a, 'h) rawr_Call \<Rightarrow>
   (('e, 'd, 'a, 'h) rawr_Call \<times> sip_outcome) option" where
  "rawr_Call_SipThread op cr env call =
     (let call = rawr_Call_SetState call rawr_CallState_Started;
          leave = (\<lambda>dns call. map_option (\<lambda>call. (call, Sip_returned)) (sip_cleanup dns call))
      in do {
        (call, ok) \<leftarrow> sip_audio_setup op env call;
        if \<not> ok then leave Unset call
        else (case sip_transport env call of (call, dnsClient, ok) \<Rightarrow>
          if \<not> ok then leave dnsClient call
          else do {
            (call, ok) \<leftarrow> sip_session cr env call;
            if \<not> ok then leave dnsClient call
            else do {
              (call, r) \<leftarrow> re_main op cr (sip_events env) call;
              case r of
                None \<Rightarrow> Some (call, Sip_running)
              | Some err \<Rightarrow>
                  if err \<noteq> 0 then leave dnsClient call
                  else (let call = rawr_Call_SetState (rawr_Call_SetExiting call) rawr_CallState_Stopping in
                    if \<not> sip_rtp_ends env then Some (call, Sip_running)
                    else sip_finish (sip_pa env) call \<bind> leave dnsClient)
            }
          })
      })"

section \<open>The interface\<close>

text \<open>\<^verbatim>\<open>snprintf\<close> of a string into one of the arrays; \<open>src\<close> is the memory behind the argument.\<close>

definition set_arg :: "bytes \<Rightarrow> bytes \<Rightarrow> bytes option" where
  "set_arg arr src = map_option (\<lambda>s. patch arr 0 (take (RAWR_CALL_SIPARG_MAX - 1) s @ [0])) (cstr src)"

definition zero_call :: "('e, 'd, 'a, 'h) rawr_Call" where
  "zero_call = \<lparr>call_encoder = Unset, call_decoder = Unset, call_stream = Unset, call_state = rawr_CallState_None,
     threadExiting = False, reSip = Unset, reRtpSock = Unset, reSipReg = Unset, reSipSess = Unset, reSdpMedia = Unset,
     reSdpSess = Unset, reSipSessSock = Unset, sipInviteURI = replicate RAWR_CALL_SIPARG_MAX 0,
     sipURI = replicate RAWR_CALL_SIPARG_MAX 0, sipName = replicate RAWR_CALL_SIPARG_MAX 0,
     sipRegistrar = replicate RAWR_CALL_SIPARG_MAX 0, sipUsername = replicate RAWR_CALL_SIPARG_MAX 0,
     sipPassword = replicate RAWR_CALL_SIPARG_MAX 0, rtpHandlerIntialized = False, rtpReceiver = False, rtpThread = 0,
     rtpBytesSend = 0, rtpBytesRecv = 0, rtpSendTotal = 0, rtpRecvTotal = 0, rtpSendRate = 0, rtpRecvRate = 0,
     rtpTime = 0, rtpRecvCount = 0, rtpLastRecvTime = 0, samples = replicate sizeof_samples 0,
     srtpSuite = SRTP_AES_CM_128_HMAC_SHA1_32, srtpTransmitContext = None, srtpReceiveContext = None\<rparr>"

definition rawr_Call_Setup ::
  "bool \<Rightarrow> int \<Rightarrow> bytes \<Rightarrow> bytes \<Rightarrow> bytes \<Rightarrow> bytes \<Rightarrow> bytes \<Rightarrow> (('e, 'd, 'a, 'h) rawr_Call handle \<times> int) option" where
  "rawr_Call_Setup mem thread_err registrar uri nam username password =
     (if \<not> mem then Some (Unset, rawr_Error)
      else (let call = zero_call in do {
        u \<leftarrow> set_arg (sipURI call) uri;
        n \<leftarrow> set_arg (sipName call) nam;
        r \<leftarrow> set_arg (sipRegistrar call) registrar;
        us \<leftarrow> set_arg (sipUsername call) username;
        p \<leftarrow> set_arg (sipPassword call) password;
        Some (Live (call\<lparr>sipURI := u, sipName := n, sipRegistrar := r, sipUsername := us, sipPassword := p,
                         srtpSuite := RAWR_CALL_SRTP_SUITE\<rparr>),
              if thread_err \<noteq> 0 then rawr_Error else rawr_Success)
      }))"

definition rawr_Call_Start ::
  "int \<Rightarrow> bytes \<Rightarrow> ('e, 'd, 'a, 'h) rawr_Call \<Rightarrow> (('e, 'd, 'a, 'h) rawr_Call \<times> int) option" where
  "rawr_Call_Start launch_err uri call =
     (let call = rawr_Call_Reset call in do {
        u \<leftarrow> set_arg (sipInviteURI call) uri;
        let call = rawr_Call_SetState (call\<lparr>sipInviteURI := u\<rparr>) rawr_CallState_Starting
        in Some (call, if launch_err \<noteq> 0 then rawr_Error else rawr_Success)
      })"

text \<open>Stopping returns once the signalling thread has returned, which the caller waits for.\<close>

definition rawr_Call_Stop :: "('e, 'd, 'a, 'h) rawr_Call \<Rightarrow> (('e, 'd, 'a, 'h) rawr_Call \<times> int) option" where
  "rawr_Call_Stop call = map_option (\<lambda>call. (call, rawr_Success)) (rawr_Call_Terminate call)"

fun state_blocks :: "rawr_CallState \<Rightarrow> bool" where
  "state_blocks rawr_CallState_Starting = True"
| "state_blocks rawr_CallState_Started = True"
| "state_blocks rawr_CallState_Connecting = True"
| "state_blocks rawr_CallState_Ready = True"
| "state_blocks rawr_CallState_Progressing = True"
| "state_blocks rawr_CallState_Media = True"
| "state_blocks rawr_CallState_Connected = True"
| "state_blocks rawr_CallState_None = False"
| "state_blocks rawr_CallState_Stopping = False"
| "state_blocks rawr_CallState_Stopped = False"

text \<open>The call as it is at the successive turns of the loop; \<open>None\<close> when the loop still runs after them.\<close>

fun rawr_Call_BlockOnCall :: "('e, 'd, 'a, 'h) rawr_Call list \<Rightarrow> int option" where
  "rawr_Call_BlockOnCall [] = None"
| "rawr_Call_BlockOnCall (call # calls) =
     (if state_blocks (rawr_Call_State call) then rawr_Call_BlockOnCall calls else Some rawr_Success)"

definition rawr_Call_InputLevel :: "('e, 'd, 'a, 'h) rawr_Call \<Rightarrow> real option" where
  "rawr_Call_InputLevel call = map_option rawr_AudioStream_InputLevel (target (call_stream call))"

definition rawr_Call_OutputLevel :: "('e, 'd, 'a, 'h) rawr_Call \<Rightarrow> real option" where
  "rawr_Call_OutputLevel call = map_option rawr_AudioStream_OutputLevel (target (call_stream call))"

end
