(* ===== verification/CallLife.thy ===== *)
theory CallLife
  imports Call SrtpSession
begin

text \<open>
  The life of a call: what the handlers leave alone, the arrays of the call, how the signalling thread
  ends and what a client that waits for the end of the call sees.
\<close>

section \<open>What the handlers leave alone\<close>

text \<open>
  From one state of a call to a later one: the handlers never touch the call's own state, its
  arguments, the transmitting key or the objects of the transport; the exit flag stays, sending
  threads are only added, and a receiving key that is set is never given up.
\<close>

definition serves :: "('e, 'd, 'a, 'h) rawr_Call \<Rightarrow> ('e, 'd, 'a, 'h) rawr_Call \<Rightarrow> bool" where
  "serves c c' \<longleftrightarrow> call_state c' = call_state c \<and> srtpSuite c' = srtpSuite c
     \<and> (sipInviteURI c', sipURI c', sipName c', sipRegistrar c', sipUsername c', sipPassword c')
       = (sipInviteURI c, sipURI c, sipName c, sipRegistrar c, sipUsername c, sipPassword c)
     \<and> srtpTransmitContext c' = srtpTransmitContext c \<and> (reSip c', reRtpSock c', reSdpSess c', reSipSessSock c')
       = (reSip c, reRtpSock c, reSdpSess c, reSipSessSock c)
     \<and> (threadExiting c \<longrightarrow> threadExiting c') \<and> rtpThread c \<le> rtpThread c' \<and> length (samples c') = length (samples c)
     \<and> (srtpReceiveContext c \<noteq> None \<longrightarrow> srtpReceiveContext c' \<noteq> None)"

lemma serves_refl [simp]: "serves c c"
  by (simp add: serves_def)

lemma serves_trans: "serves a b \<Longrightarrow> serves b c \<Longrightarrow> serves a c"
  by (auto simp: serves_def)

lemma serves_updates [simp]:
  "serves c (c\<lparr>rtpReceiver := b\<rparr>)" "serves c (c\<lparr>reSipSess := h\<rparr>)" "serves c (c\<lparr>rtpThread := Suc (rtpThread c)\<rparr>)"
  "serves c (c\<lparr>srtpReceiveContext := Some ctx\<rparr>)"
  "serves c (c\<lparr>call_stream := hs\<rparr>)" "serves c (c\<lparr>rtpRecvCount := n\<rparr>)"
  by (simp_all add: serves_def)

lemma launch_serves [simp]: "serves c (launch_rtp e c)"
  by (simp add: launch_rtp_def serves_def)

lemma key_serves: "crypto_key cr m junk tok c = (c', b) \<Longrightarrow> serves c c'"
  by (auto simp: crypto_key_def split: list.splits sum.splits)

lemma tokens_serves: "crypto_tokens cr m junk i ts c = (c', b) \<Longrightarrow> serves c c'"
  by (induction cr m junk i ts c rule: crypto_tokens.induct) (auto split: if_splits dest: key_serves)

lemma handler_serves: "rawr_Call_CryptoAttribHandler cr md m junk v c = Some (c', b) \<Longrightarrow> serves c c'"
  by (auto simp: rawr_Call_CryptoAttribHandler_def split: if_splits bind_splits dest: tokens_serves)

lemma apply_serves:
  assumes "\<And>v c c' b. attrh v c = Some (c', b) \<Longrightarrow> serves c c'"
  shows "sdp_attr_apply as nam attrh c = Some (c', r) \<Longrightarrow> serves c c'"
proof (induction as arbitrary: c)
  case (Cons a as)
  then show ?case by (auto simp: Let_def split: if_splits option.splits prod.splits dest!: assms intro: serves_trans)
qed simp

lemma update_serves: "rawr_Call_UpdateMedia cr env c = Some c' \<Longrightarrow> serves c c'"
  by (auto simp: rawr_Call_UpdateMedia_def split: if_splits elim!: apply_serves [rotated] intro: handler_serves)

lemma recv_stats_serves [simp]: "serves c (recv_stats now mb c)"
  by (simp add: recv_stats_def serves_def Let_def)

lemma length_Decode: "rawr_Codec_Decode op cdc inb n out = Some (cdc', out', k) \<Longrightarrow> length out' = length out"
  by (auto simp: rawr_Codec_Decode_def split: bind_splits sum.splits prod.splits if_splits dest: length_mem_write)

lemma OnRtp_serves:
  assumes "rawr_Call_OnRtp op cr env mb c = Some (c', r)"
  shows "serves c c'"
proof -
  let ?c = "recv_stats (recv_now env) mb c"
  have "serves ?c c'" using assms
    by (auto simp: rawr_Call_OnRtp_def Let_def serves_def dest!: length_Decode
        split: option.splits if_splits bind_splits prod.splits)
  then show ?thesis by (rule serves_trans [OF recv_stats_serves])
qed

lemma Terminate_serves: "rawr_Call_Terminate c = Some c' \<Longrightarrow> serves c c' \<and> threadExiting c'"
  by (auto simp: rawr_Call_Terminate_def rawr_Call_SetExiting_def serves_def split: bind_splits)

text \<open>What other threads do to the call during an event is not the handlers' business.\<close>

fun quiet :: "(('e, 'd, 'a, 'h) rawr_Call \<Rightarrow> ('e, 'd, 'a, 'h) rawr_Call \<Rightarrow> bool) \<Rightarrow> ('e, 'd, 'a, 'h) event \<Rightarrow> bool" where
  "quiet R (Other f) \<longleftrightarrow> (\<forall>c. R c (f c))"
| "quiet R _ \<longleftrightarrow> True"

lemma accept_serves:
  "serves c (launch_rtp e (c\<lparr>reSipSess := h\<rparr>))"
  "serves (c\<lparr>rtpReceiver := b\<rparr>) x \<Longrightarrow> serves c (launch_rtp e (x\<lparr>reSipSess := h\<rparr>))"
  by (simp_all add: serves_def launch_rtp_def)

lemma handle_serves:
  assumes "handle op cr ev c = Some (c', r)" and "quiet serves ev"
  shows "serves c c'"
  using assms
  by (cases "(op, cr, ev, c)" rule: handle.cases)
    (auto simp: accept_serves rawr_Call_OnOffer_def rawr_Call_OnAnswer_def rawr_Call_OnEstablish_def rawr_Call_OnClose_def
      rawr_Call_OnConnect_def rawr_Call_OnUdpRecv_def split: if_splits bind_splits
      dest!: Terminate_serves update_serves OnRtp_serves intro: serves_trans [OF serves_updates(1)])

text \<open>
  What every other thread of the program respects while the signalling thread runs: the state of the call and the objects of
  the transport are the signalling thread's own, and the exit flag is never taken back. The sending thread and a
  client that stops the call satisfy it.
\<close>

definition undisturbed :: "('e, 'd, 'a, 'h) rawr_Call \<Rightarrow> ('e, 'd, 'a, 'h) rawr_Call \<Rightarrow> bool" where
  "undisturbed c c' \<longleftrightarrow> call_state c' = call_state c \<and> (threadExiting c \<longrightarrow> threadExiting c')
     \<and> (reSip c', reRtpSock c', reSdpSess c', reSipSessSock c') = (reSip c, reRtpSock c, reSdpSess c, reSipSessSock c)"

lemma undisturbed_refl: "undisturbed c c"
  by (simp add: undisturbed_def)

lemma undisturbed_trans: "undisturbed a b \<Longrightarrow> undisturbed b c \<Longrightarrow> undisturbed a c"
  by (simp add: undisturbed_def)

lemma serves_undisturbed: "serves c c' \<Longrightarrow> undisturbed c c'"
  by (simp add: serves_def undisturbed_def)

lemma handle_undisturbed:
  assumes "handle op cr ev c = Some (c', r)" and "quiet undisturbed ev"
  shows "undisturbed c c'"
proof (cases "\<exists>f. ev = Other f")
  case False
  then have "quiet serves ev" by (cases ev) simp_all
  then show ?thesis by (rule serves_undisturbed [OF handle_serves [OF assms(1)]])
qed (use assms in auto)

lemma main_undisturbed:
  "re_main op cr evs c = Some (c', r) \<Longrightarrow> list_all (quiet undisturbed) evs \<Longrightarrow> undisturbed c c'"
  by (induction op cr evs c rule: re_main.induct)
    (auto simp: undisturbed_refl split: option.splits prod.splits loop_outcome.splits dest: handle_undisturbed intro: undisturbed_trans)

section \<open>The arrays of a call\<close>

definition arg_ok :: "bytes \<Rightarrow> bool" where
  "arg_ok a \<longleftrightarrow> length a = RAWR_CALL_SIPARG_MAX \<and> 0 \<in> set a"

definition call_ok :: "('e, 'd, 'a, 'h) rawr_Call \<Rightarrow> bool" where
  "call_ok c \<longleftrightarrow> length (samples c) = sizeof_samples \<and> arg_ok (sipInviteURI c) \<and> arg_ok (sipURI c) \<and> arg_ok (sipName c)
     \<and> arg_ok (sipRegistrar c) \<and> arg_ok (sipUsername c) \<and> arg_ok (sipPassword c)"

lemma call_ok_serves: "serves c c' \<Longrightarrow> call_ok c \<Longrightarrow> call_ok c'"
  by (simp add: serves_def call_ok_def)

lemma set_arg_ok: "set_arg a src = Some a' \<Longrightarrow> length a = RAWR_CALL_SIPARG_MAX \<Longrightarrow> arg_ok a'"
  by (auto simp: set_arg_def arg_ok_def patch_def RAWR_CALL_SIPARG_MAX_def)

lemma zero_call_ok: "call_ok zero_call"
  by (simp add: call_ok_def zero_call_def arg_ok_def RAWR_CALL_SIPARG_MAX_def)

lemma Setup_ok: "rawr_Call_Setup mem te reg uri nam us pw = Some (Live c, r) \<Longrightarrow> call_ok c"
  using zero_call_ok
  by (auto simp: rawr_Call_Setup_def call_ok_def arg_ok_def [of "_ zero_call"] Let_def split: if_splits bind_splits intro: set_arg_ok)

lemma Start_ok: "rawr_Call_Start le uri c = Some (c', r) \<Longrightarrow> call_ok c \<Longrightarrow> call_ok c'"
  by (auto simp: rawr_Call_Start_def rawr_Call_Reset_def rawr_Call_SetState_def call_ok_def arg_ok_def [of "_ c"] Let_def
      split: bind_splits intro: set_arg_ok)

text \<open>Parts of a call the stages of the thread and the sending thread do not touch.\<close>

definition same_arrays :: "('e, 'd, 'a, 'h) rawr_Call \<Rightarrow> ('e, 'd, 'a, 'h) rawr_Call \<Rightarrow> bool" where
  "same_arrays c c' \<longleftrightarrow> call_state c' = call_state c \<and> length (samples c') = length (samples c) \<and> srtpSuite c' = srtpSuite c
     \<and> threadExiting c' = threadExiting c
     \<and> (sipInviteURI c', sipURI c', sipName c', sipRegistrar c', sipUsername c', sipPassword c')
       = (sipInviteURI c, sipURI c, sipName c, sipRegistrar c, sipUsername c, sipPassword c)"

lemma call_ok_same: "same_arrays c c' \<Longrightarrow> call_ok c \<Longrightarrow> call_ok c'"
  by (simp add: same_arrays_def call_ok_def)

lemma stages_same:
  "sip_audio_setup op env c = Some (c', b) \<Longrightarrow> same_arrays c c'"
  "sip_transport env c = (c', dns, b) \<Longrightarrow> same_arrays c c'"
  "sip_keys cr env c = Some c' \<Longrightarrow> same_arrays c c'"
  "sip_session cr env c = Some (c', b) \<Longrightarrow> same_arrays c c'"
  "sip_finish p c = Some c' \<Longrightarrow> same_arrays c c'"
  "sip_cleanup dns c = Some c' \<Longrightarrow> same_arrays c c'"
proof -
  show keys: "sip_keys cr env c = Some c' \<Longrightarrow> same_arrays c c'" for c c'
    by (auto simp: sip_keys_def same_arrays_def Let_def split: bind_splits sum.splits)
  show "sip_session cr env c = Some (c', b) \<Longrightarrow> same_arrays c c'"
    by (auto simp: sip_session_def Let_def split: if_splits bind_splits dest!: keys) (auto simp: same_arrays_def)
  show "sip_audio_setup op env c = Some (c', b) \<Longrightarrow> same_arrays c c'"
    by (auto simp: sip_audio_setup_def same_arrays_def Let_def split: if_splits bind_splits)
  show "sip_transport env c = (c', dns, b) \<Longrightarrow> same_arrays c c'"
    by (auto simp: sip_transport_def same_arrays_def Let_def split: if_splits)
  show "sip_finish p c = Some c' \<Longrightarrow> same_arrays c c'"
    by (auto simp: sip_finish_def same_arrays_def split: if_splits bind_splits)
  show "sip_cleanup dns c = Some c' \<Longrightarrow> same_arrays c c'"
    by (auto simp: sip_cleanup_def same_arrays_def split: bind_splits)
qed

section \<open>How the signalling thread ends\<close>

text \<open>Whether the set-up succeeds and the main loop then ends without an error.\<close>

definition main_ended :: "('e, 'd) opus \<Rightarrow> ('a, 'h) crypto \<Rightarrow> ('e, 'd, 'a, 'h) sip_env \<Rightarrow> ('e, 'd, 'a, 'h) rawr_Call \<Rightarrow> bool" where
  "main_ended op cr env c =
     (case sip_audio_setup op env (rawr_Call_SetState c rawr_CallState_Started) of
        Some (c, True) \<Rightarrow>
          (case sip_transport env c of
             (c, _, True) \<Rightarrow>
               (case sip_session cr env c of
                  Some (c, True) \<Rightarrow> (case re_main op cr (sip_events env) c of Some (_, Some err) \<Rightarrow> err = 0 | _ \<Rightarrow> False)
                | _ \<Rightarrow> False)
           | _ \<Rightarrow> False)
      | _ \<Rightarrow> False)"

text \<open>The state and the exit flag of a call as a step leaves them.\<close>

definition keeps :: "('e, 'd, 'a, 'h) rawr_Call \<Rightarrow> ('e, 'd, 'a, 'h) rawr_Call \<Rightarrow> bool" where
  "keeps c c' \<longleftrightarrow> call_state c' = call_state c \<and> (threadExiting c \<longrightarrow> threadExiting c')"

lemma keeps_trans: "keeps a b \<Longrightarrow> keeps b c \<Longrightarrow> keeps a c"
  by (simp add: keeps_def)

lemma same_keeps: "same_arrays c c' \<Longrightarrow> keeps c c'"
  by (simp add: same_arrays_def keeps_def)

lemma main_keeps: "re_main op cr evs c = Some (c', r) \<Longrightarrow> list_all (quiet undisturbed) evs \<Longrightarrow> keeps c c'"
  by (drule (1) main_undisturbed) (simp add: undisturbed_def keeps_def)

lemmas stages_keep = stages_same [THEN same_keeps] main_keeps

text \<open>Either a stage fails and the clean-up follows, or the main loop is reached.\<close>

lemma SipThread_cases:
  assumes run: "rawr_Call_SipThread op cr env c = Some (c', r)"
  obtains (failed) c1 dns where "keeps (rawr_Call_SetState c rawr_CallState_Started) c1" "sip_cleanup dns c1 = Some c'"
      "r = Sip_returned" "\<not> main_ended op cr env c"
  | (main) c1 dns c2 e where "keeps (rawr_Call_SetState c rawr_CallState_Started) c1"
      "re_main op cr (sip_events env) c1 = Some (c2, e)" "main_ended op cr env c \<longleftrightarrow> e = Some 0"
      "case e of None \<Rightarrow> r = Sip_running \<and> c' = c2
       | Some err \<Rightarrow> if err \<noteq> 0 then r = Sip_returned \<and> sip_cleanup dns c2 = Some c'
           else (let c3 = rawr_Call_SetState (rawr_Call_SetExiting c2) rawr_CallState_Stopping
                 in if sip_rtp_ends env
                    then r = Sip_returned \<and> (\<exists>c4. sip_finish (sip_pa env) c3 = Some c4 \<and> sip_cleanup dns c4 = Some c')
                    else r = Sip_running \<and> c' = c3)"
proof -
  let ?c = "rawr_Call_SetState c rawr_CallState_Started"
  obtain c1 ok1 where a: "sip_audio_setup op env ?c = Some (c1, ok1)"
    using run by (auto simp: rawr_Call_SipThread_def Let_def split: bind_splits)
  obtain c2 dns ok2 where t: "sip_transport env c1 = (c2, dns, ok2)" by (metis prod_cases3)
  note k = stages_keep(1) [OF a] keeps_trans [OF stages_keep(1) [OF a] stages_keep(2) [OF t]]
  show ?thesis
  proof (cases "ok1 \<and> ok2")
    case False
    have "sip_cleanup (if ok1 then dns else Unset) (if ok1 then c2 else c1) = Some c'" "r = Sip_returned" "\<not> main_ended op cr env c"
      using run a t False by (cases ok1; auto simp: rawr_Call_SipThread_def main_ended_def Let_def)+
    then show ?thesis using k by (auto intro: failed split: if_splits)
  next
    case ok: True
    obtain c3 ok3 where s: "sip_session cr env c2 = Some (c3, ok3)"
      using run a t ok by (auto simp: rawr_Call_SipThread_def Let_def split: bind_splits)
    note k3 = keeps_trans [OF k(2) stages_keep(4) [OF s]]
    show ?thesis
    proof (cases ok3)
      case False
      show ?thesis
        by (rule failed [OF k3, of dns]) (use run a t s ok False in \<open>auto simp: rawr_Call_SipThread_def main_ended_def Let_def\<close>)
    next
      case True
      obtain c4 e where m: "re_main op cr (sip_events env) c3 = Some (c4, e)"
        using run a t s ok True by (auto simp: rawr_Call_SipThread_def Let_def split: bind_splits)
      show ?thesis
        by (rule main [OF k3 m, of dns]) (use run a t s ok True m in
          \<open>auto simp: rawr_Call_SipThread_def main_ended_def Let_def split: option.splits if_splits bind_splits\<close>)
    qed
  qed
qed

lemma SipThread_ends:
  assumes run: "rawr_Call_SipThread op cr env c = Some (c', r)" and evs: "list_all (quiet undisturbed) (sip_events env)"
  shows "call_state c' = (if main_ended op cr env c then rawr_CallState_Stopping else rawr_CallState_Started)"
    and "main_ended op cr env c \<Longrightarrow> threadExiting c'"
proof -
  have "call_state c' = (if main_ended op cr env c then rawr_CallState_Stopping else rawr_CallState_Started)
      \<and> (main_ended op cr env c \<longrightarrow> threadExiting c')"
    using run
  proof (cases rule: SipThread_cases)
    case (failed c1 dns)
    then show ?thesis using keeps_trans [OF failed(1) stages_keep(6)]
      by (auto simp: keeps_def rawr_Call_SetState_def)
  next
    case (main c1 dns c2 e)
    note k = keeps_trans [OF main(1) main_keeps [OF main(2) evs]]
    show ?thesis
    proof (cases "e = Some 0")
      case False
      then have "keeps c2 c'" using main(4) by (auto simp: keeps_def split: option.splits dest: stages_keep(6))
      from keeps_trans [OF k this] show ?thesis using main(3) False
        by (simp add: keeps_def rawr_Call_SetState_def)
    next
      case True
      let ?c3 = "rawr_Call_SetState (rawr_Call_SetExiting c2) rawr_CallState_Stopping"
      have "keeps ?c3 c'"
        using main(4) True by (auto simp: Let_def split: if_splits dest: stages_keep(5,6) intro: keeps_trans) (simp add: keeps_def)
      then show ?thesis using k main(3) True
        by (simp add: keeps_def rawr_Call_SetState_def rawr_Call_SetExiting_def)
    qed
  qed
  then show "call_state c' = (if main_ended op cr env c then rawr_CallState_Stopping else rawr_CallState_Started)"
    and "main_ended op cr env c \<Longrightarrow> threadExiting c'" by simp_all
qed

section \<open>The sending thread and the arrays\<close>

lemma length_copy_out: "copy_out mem rg esize data = Some data' \<Longrightarrow> length data' = length data"
  by (auto simp: copy_out_def split: if_splits bind_splits prod.splits dest!: length_mem_write)

lemma length_Read: "rawr_AudioStream_Read s buf = Some (s', buf', n) \<Longrightarrow> length buf' = length buf"
  by (auto simp: rawr_AudioStream_Read_def rawr_RingBuffer_Read_def split: if_splits bind_splits prod.splits dest: length_copy_out)

lemma length_poll_read: "poll_read ds s buf = Some (s', buf', n) \<Longrightarrow> length buf' = length buf"
  by (induction ds s buf rule: poll_read.induct)
    (auto split: option.splits prod.splits if_splits dest: length_Read)

fun outcome :: "'s send_outcome \<Rightarrow> 's" where
  "outcome (Send_next s) = s"
| "outcome (Send_left s) = s"
| "outcome (Send_wait s) = s"

lemma send_packet_same: "send_packet cr env c loc len = Some (r, out) \<Longrightarrow> same_arrays c (fst (outcome r))"
  by (auto simp: send_packet_def send_stats_def same_arrays_def Let_def split: option.splits if_splits bind_splits)

lemma round_same:
  assumes "rawr_Call_RtpSendThread_round op cr env (c, loc) = Some (r, out)"
  shows "same_arrays c (fst (outcome r))"
  using assms
  by (auto simp: rawr_Call_RtpSendThread_round_def Let_def split: if_splits bind_splits dest!: send_packet_same length_poll_read)
    (auto simp: same_arrays_def)

lemma Stop_ok: "rawr_Call_Stop c = Some (c', r) \<Longrightarrow> call_ok c \<Longrightarrow> call_ok c'"
  using Terminate_serves call_ok_serves by (auto simp: rawr_Call_Stop_def)

section \<open>The objects of the transport\<close>

text \<open>Once the SIP stack has been created, a run of the thread that returns leaves a pointer to a reference it gave up.\<close>

lemma cleanup_gives_up: "sip_cleanup dns c = Some c' \<Longrightarrow> reSip c = Live () \<Longrightarrow> reSip c' = Freed"
  by (auto simp: sip_cleanup_def split: bind_splits)

lemma finish_sip: "sip_finish p c = Some c' \<Longrightarrow> reSip c' = reSip c"
  by (auto simp: sip_finish_def split: if_splits bind_splits)

lemma session_sip: "sip_session cr env c = Some (c', b) \<Longrightarrow> reSip c' = reSip c"
  by (auto simp: sip_session_def sip_keys_def Let_def split: if_splits bind_splits sum.splits)

lemma transport_sip:
  assumes "sip_transport env c = (c', dns, b)" and "dns_srv_get_err env = 0" "dnsc_alloc_err env = 0" "sip_alloc_err env = 0"
  shows "reSip c' = Live ()"
  using assms by (auto simp: sip_transport_def Let_def split: if_splits)

lemma SipThread_gives_up:
  assumes run: "rawr_Call_SipThread op cr env c = Some (c', Sip_returned)" and evs: "list_all (quiet undisturbed) (sip_events env)"
    and audio: "sip_audio_setup op env (rawr_Call_SetState c rawr_CallState_Started) = Some (c1, True)"
    and sip: "dns_srv_get_err env = 0" "dnsc_alloc_err env = 0" "sip_alloc_err env = 0"
  shows "reSip c' = Freed"
proof -
  obtain c2 dns b where t: "sip_transport env c1 = (c2, dns, b)" by (metis prod_cases3)
  have "\<exists>c3. reSip c3 = Live () \<and> sip_cleanup dns c3 = Some c'"
    using run audio t transport_sip [OF t sip]
    by (auto simp: rawr_Call_SipThread_def Let_def rawr_Call_SetState_def rawr_Call_SetExiting_def
        split: if_splits bind_splits option.splits dest!: session_sip finish_sip main_undisturbed [OF _ evs])
      (auto simp: undisturbed_def)
  then show ?thesis by (auto intro: cleanup_gives_up)
qed

text \<open>The four objects a run of the thread releases when it ends, besides the resolver.\<close>

definition transport_objects :: "('e, 'd, 'a, 'h) rawr_Call \<Rightarrow> unit handle list" where
  "transport_objects c = [reSdpSess c, reRtpSock c, reSipSessSock c, reSip c]"

lemma cleanup_objects: "sip_cleanup dns c = Some c' \<Longrightarrow> set (transport_objects c') \<subseteq> {Unset, Freed}"
  by (cases "reSdpSess c"; cases "reRtpSock c"; cases "reSipSessSock c"; cases "reSip c")
    (auto simp: sip_cleanup_def transport_objects_def split: bind_splits)

lemma SipThread_cleaned:
  assumes "rawr_Call_SipThread op cr env c = Some (c', Sip_returned)"
  shows "set (transport_objects c') \<subseteq> {Unset, Freed}"
  using assms
proof (cases rule: SipThread_cases)
  case (main c1 dns c2 e)
  then have "\<exists>x. sip_cleanup dns x = Some c'" by (auto simp: Let_def split: option.splits if_splits)
  then show ?thesis using cleanup_objects by blast
qed (rule cleanup_objects)

lemma Start_objects: "rawr_Call_Start le uri c = Some (c', r) \<Longrightarrow> transport_objects c' = transport_objects c"
  by (auto simp: rawr_Call_Start_def rawr_Call_Reset_def rawr_Call_SetState_def transport_objects_def Let_def split: bind_splits)

lemma audio_objects: "sip_audio_setup op env c = Some (c', b) \<Longrightarrow> transport_objects c' = transport_objects c"
  by (auto simp: sip_audio_setup_def transport_objects_def Let_def split: if_splits bind_splits)

text \<open>A run that fails before it creates a SIP stack of its own reaches the clean-up with the objects it found.\<close>

lemma SipThread_stale:
  assumes audio: "sip_audio_setup op env (rawr_Call_SetState c rawr_CallState_Started) = Some (a, ok)"
    and err: "dns_srv_get_err env \<noteq> 0 \<or> dnsc_alloc_err env \<noteq> 0 \<or> sip_alloc_err env \<noteq> 0"
  shows "\<exists>d dns. (if ok then sip_transport env a = (d, dns, False) else d = a \<and> dns = Unset)
     \<and> transport_objects d = transport_objects c
     \<and> rawr_Call_SipThread op cr env c = map_option (\<lambda>c'. (c', Sip_returned)) (sip_cleanup dns d)"
proof -
  obtain d dns b where t: "sip_transport env a = (d, dns, b)" by (metis prod_cases3)
  then have d: "d = a" "\<not> b" using err by (auto simp: sip_transport_def Let_def split: if_splits)
  have ob: "transport_objects a = transport_objects c"
    using audio_objects [OF audio] by (simp add: transport_objects_def rawr_Call_SetState_def)
  show ?thesis
  proof (cases ok)
    case True
    then show ?thesis using t d ob audio by (auto simp: rawr_Call_SipThread_def)
  next
    case False
    then show ?thesis using ob audio by (auto simp: rawr_Call_SipThread_def)
  qed
qed

lemma cleanup_stale: "reSip c = Freed \<Longrightarrow> sip_cleanup dns c = None"
  by (auto simp: sip_cleanup_def split: bind_split)

section \<open>A concrete environment\<close>

definition demo_dev :: "int \<Rightarrow> int \<Rightarrow> rawr_AudioDevice" where
  "demo_dev i ou = \<lparr>deviceInfo = \<lparr>name = ''dev'', maxInputChannels = i, maxOutputChannels = ou, defaultLowInputLatency = 0\<rparr>,
     dev_id = 0, props = 0, rates = 0\<rparr>"

definition demo_env :: "(unit, unit, bytes \<times> bytes, bytes) sip_env" where
  "demo_env = \<lparr>sip_audio = \<lparr>initialized = True, defaultInputId = 0, defaultOutputId = 1,
       deviceList = [demo_dev 1 0, demo_dev 0 1], deviceCount = 2\<rparr>,
     sip_pa = demo_pa\<lparr>Pa_OpenStream := \<lambda>_ _ _ _. 0\<rparr>, sip_stream_mem = \<lambda>_. True, sip_stream_junk = demo_stream,
     sip_enc_mem = (Some demo_codec, Some \<lparr>opus_enc = None, opus_dec = None\<rparr>),
     sip_dec_mem = (Some demo_codec, Some \<lparr>opus_enc = None, opus_dec = None\<rparr>), dns_srv_get_err = 0, dnsc_alloc_err = 0,
     sip_alloc_err = 0, net_default_source_addr_get_err = 0, tls_alloc_err = 0, sip_transp_add_err = 0, sipsess_listen_err = 0,
     udp_listen_err = 0, sdp_session_alloc_err = 0, sdp_media_add_err = 0, rand_key = replicate 30 7, sip_srtp_mem = True,
     sip_attr_mem = ((True, True, True), (True, True, True)), sip_fmt = \<lambda>v. v, sdp_format_add_err = 0, sdp_offer_err = 0,
     sipsess_connect_err = 0, sip_events = [], sip_rtp_ends = True\<rparr>"

definition demo_sdp :: sdp_env where
  "demo_sdp = \<lparr>sdp_body = False, sdp_decode_err = 0, sdp_encode_err = 0, sdp_opus = True, sdp_rattrs = [], sdp_mem = (True, True),
     sdp_stack = replicate 30 0\<rparr>"

lemma demo_codecs:
  "\<exists>c. rawr_Codec_Setup demo_opus (Some demo_codec) (Some \<lparr>opus_enc = None, opus_dec = None\<rparr>) ou ty rawr_CodecRate_48k
     rawr_CodecTiming_20ms = (Live c, rawr_Success)"
proof -
  obtain e where "opus_ctls demo_opus () (encoder_ctls (rawr_Codec_FrameSizeCode rawr_CodecRate_48k
      (rawr_Codec_FrameSize rawr_CodecRate_48k rawr_CodecTiming_20ms))) = Some e"
    using opus_ctls_ok [of demo_opus "()"] by (auto simp: demo_opus_def OPUS_OK_def)
  then show ?thesis by (cases ty) (simp_all add: rawr_Codec_Setup_def Let_def demo_opus_def OPUS_OK_def)
qed

lemma demo_audio:
  assumes "sip_audio env = sip_audio demo_env" "sip_pa env = sip_pa demo_env" "sip_stream_mem env = sip_stream_mem demo_env"
    "sip_stream_junk env = sip_stream_junk demo_env" "sip_enc_mem env = sip_enc_mem demo_env" "sip_dec_mem env = sip_dec_mem demo_env"
  shows "\<exists>a. sip_audio_setup demo_opus env (rawr_Call_SetState c rawr_CallState_Started) = Some (a, True)"
proof -
  have fs: "frame_size = 960" by (simp add: frame_size_def rawr_Codec_FrameSize_def)
  obtain s k where s: "rawr_AudioStream_Setup (\<lambda>_. True) demo_stream ou 48000 1 960 = Some (Live s, rawr_Success)" for ou
    using demo_stream_ready by (auto simp: rawr_AudioStream_Setup_def)
  have sf: "inDevice s = None" "outDevice s = None" "stream_channelCount s = 1" "stream_priv s \<noteq> None"
    using s [of Unset] by (auto simp: rawr_AudioStream_Setup_def Let_def split: if_splits)
  obtain ce cd where "rawr_Codec_Setup demo_opus (Some demo_codec) (Some \<lparr>opus_enc = None, opus_dec = None\<rparr>) (call_encoder c)
      rawr_CodecType_Encoder rawr_CodecRate_48k rawr_CodecTiming_20ms = (Live ce, rawr_Success)"
    "rawr_Codec_Setup demo_opus (Some demo_codec) (Some \<lparr>opus_enc = None, opus_dec = None\<rparr>) (call_decoder c)
      rawr_CodecType_Decoder rawr_CodecRate_48k rawr_CodecTiming_20ms = (Live cd, rawr_Success)"
    using demo_codecs by meson
  then show ?thesis using s sf
    by (auto simp: sip_audio_setup_def assms demo_env_def fs rawr_Call_SetState_def rawr_AudioDevice_DefaultInput_def
        rawr_AudioDevice_DefaultOutput_def rawr_AudioStream_AddDevice_def demo_dev_def rawr_AudioDevice_OutputChannels_def
        rawr_AudioDevice_InputChannels_def Let_def rawr_Success_def rawr_AudioStream_Start_def demo_pa_def)
qed

lemma demo_errs:
  "dns_srv_get_err demo_env = 0" "dnsc_alloc_err demo_env = 0" "sip_alloc_err demo_env = 0"
  "net_default_source_addr_get_err demo_env = 0" "sip_events demo_env = []"
  by (simp_all add: demo_env_def)

lemma demo_runs:
  "\<exists>c'. rawr_Call_SipThread demo_opus demo_crypto (demo_env\<lparr>dns_srv_get_err := 2\<rparr>) zero_call = Some (c', Sip_returned)
     \<and> \<not> main_ended demo_opus demo_crypto (demo_env\<lparr>dns_srv_get_err := 2\<rparr>) zero_call"
  "\<exists>c'. rawr_Call_SipThread demo_opus demo_crypto (demo_env\<lparr>tls_alloc_err := 2\<rparr>) zero_call = Some (c', Sip_returned)"
proof -
  have ob: "reSip a = Unset \<and> reRtpSock a = Unset \<and> reSdpSess a = Unset \<and> reSipSessSock a = Unset"
    if "sip_audio_setup op env (rawr_Call_SetState zero_call rawr_CallState_Started) = Some (a, b)"
    for op :: "(unit, unit) opus" and env :: "(unit, unit, bytes \<times> bytes, bytes) sip_env" and a b
    using audio_objects [OF that] by (simp add: transport_objects_def zero_call_def rawr_Call_SetState_def)
  obtain a b where
    a: "sip_audio_setup demo_opus (demo_env\<lparr>dns_srv_get_err := 2\<rparr>) (rawr_Call_SetState zero_call rawr_CallState_Started) = Some (a, True)"
    and b: "sip_audio_setup demo_opus (demo_env\<lparr>tls_alloc_err := 2\<rparr>) (rawr_Call_SetState zero_call rawr_CallState_Started) = Some (b, True)"
    using demo_audio [of "demo_env\<lparr>dns_srv_get_err := 2\<rparr>" zero_call, simplified]
      demo_audio [of "demo_env\<lparr>tls_alloc_err := 2\<rparr>" zero_call, simplified] by blast
  show "\<exists>c'. rawr_Call_SipThread demo_opus demo_crypto (demo_env\<lparr>dns_srv_get_err := 2\<rparr>) zero_call = Some (c', Sip_returned)
     \<and> \<not> main_ended demo_opus demo_crypto (demo_env\<lparr>dns_srv_get_err := 2\<rparr>) zero_call"
    using a ob [OF a] by (simp add: rawr_Call_SipThread_def main_ended_def sip_transport_def sip_cleanup_def Let_def)
  show "\<exists>c'. rawr_Call_SipThread demo_opus demo_crypto (demo_env\<lparr>tls_alloc_err := 2\<rparr>) zero_call = Some (c', Sip_returned)"
    using b ob [OF b] by (simp add: rawr_Call_SipThread_def sip_transport_def sip_cleanup_def Let_def demo_errs)
qed

section \<open>Properties\<close>

text \<open>
  (C16) How the signalling thread leaves the call, when the other threads leave the state and the transport's objects alone and do
  not take the exit flag back: after the
  main loop ends without an error the call is exiting and its state is Stopping, and a client in
  BlockOnCall is released. On every other way out the state stays Started, and the client waits for
  ever.
\<close>

theorem SipThread_releases_client:
  assumes "rawr_Call_SipThread op cr env c = Some (c', r)" and "list_all (quiet undisturbed) (sip_events env)"
  shows "call_state c' = (if main_ended op cr env c then rawr_CallState_Stopping else rawr_CallState_Started)
     \<and> (main_ended op cr env c \<longrightarrow> threadExiting c')
     \<and> rawr_Call_BlockOnCall (replicate (Suc n) c') = (if main_ended op cr env c then Some rawr_Success else None)"
proof -
  have "rawr_Call_BlockOnCall (replicate k c') = None" if "call_state c' = rawr_CallState_Started" for k
    using that by (induction k) (simp_all add: rawr_Call_State_def)
  then show ?thesis using SipThread_ends [OF assms] by (auto simp: rawr_Call_State_def)
qed

theorem SipThread_releases_client_witness:
  "\<exists>c'. rawr_Call_SipThread demo_opus demo_crypto (demo_env\<lparr>dns_srv_get_err := 2\<rparr>) zero_call = Some (c', Sip_returned)
     \<and> rawr_Call_BlockOnCall (replicate (Suc 4) c') = None"
proof -
  obtain c' where run: "rawr_Call_SipThread demo_opus demo_crypto (demo_env\<lparr>dns_srv_get_err := 2\<rparr>) zero_call = Some (c', Sip_returned)"
    "\<not> main_ended demo_opus demo_crypto (demo_env\<lparr>dns_srv_get_err := 2\<rparr>) zero_call"
    using demo_runs(1) by blast
  have "rawr_Call_BlockOnCall (replicate (Suc 4) c') =
      (if main_ended demo_opus demo_crypto (demo_env\<lparr>dns_srv_get_err := 2\<rparr>) zero_call then Some rawr_Success else None)"
    using SipThread_releases_client [OF run(1), of 4] by (simp add: demo_errs)
  then show ?thesis using run by simp
qed

text \<open>
  (C21) Waiting for the end of a call: whatever the other threads do to the call between the turns of the
  loop, the loop ends, with success, exactly when at some turn the state is None, Stopping or
  Stopped.
\<close>

theorem BlockOnCall_returns:
  "(\<exists>n. rawr_Call_BlockOnCall (map calls [0..<n]) = Some rawr_Success)
   \<longleftrightarrow> (\<exists>k. call_state (calls k) = rawr_CallState_None \<or> call_state (calls k) = rawr_CallState_Stopping
            \<or> call_state (calls k) = rawr_CallState_Stopped)"
proof -
  have run: "rawr_Call_BlockOnCall cs = (if \<exists>c\<in>set cs. \<not> state_blocks (call_state c) then Some rawr_Success else None)"
    for cs :: "('a, 'b, 'c, 'd) rawr_Call list"
    by (induction cs) (auto simp: rawr_Call_State_def)
  have st: "\<not> state_blocks s \<longleftrightarrow> s = rawr_CallState_None \<or> s = rawr_CallState_Stopping \<or> s = rawr_CallState_Stopped" for s
    by (cases s) simp_all
  have "(\<exists>n. \<exists>c\<in>set (map calls [0..<n]). P c) \<longleftrightarrow> (\<exists>k. P (calls k))" for P
    by (metis (no_types, lifting) image_eqI in_set_conv_nth length_map lessI map_nth nth_mem list.set_map imageE length_upt set_upt atLeastLessThan_iff zero_le)
  then show ?thesis unfolding run by (simp add: st)
qed

text \<open>
  (C23) The pointers to the transport's objects survive a call. Once a call got as far as creating the
  SIP stack and its thread has returned, \<^verbatim>\<open>reSip\<close> points to a stack whose reference was given up. Stopping the
  call then closes that stack, after its reference is gone. And when the call is started again and the new run
  fails before it has a stack of its own, in the audio set-up or after it, the run reaches the clean-up with no live object, and the
  clean-up gives the reference of the old stack up a second time.
\<close>

theorem restart_releases_twice:
  assumes "rawr_Call_SipThread op cr env c = Some (c1, Sip_returned)" and "list_all (quiet undisturbed) (sip_events env)"
    and "sip_audio_setup op env (rawr_Call_SetState c rawr_CallState_Started) = Some (a, True)"
    and "dns_srv_get_err env = 0" and "dnsc_alloc_err env = 0" and "sip_alloc_err env = 0"
    and "rawr_Call_Start le uri c1 = Some (c2, r)"
    and "sip_audio_setup op env2 (rawr_Call_SetState c2 rawr_CallState_Started) = Some (a2, ok2)"
    and "dns_srv_get_err env2 \<noteq> 0 \<or> dnsc_alloc_err env2 \<noteq> 0 \<or> sip_alloc_err env2 \<noteq> 0"
  shows "reSip c1 = Freed \<and> sip_close (reSip c1) = None \<and> rawr_Call_Stop c1 = None
     \<and> (\<exists>d dns. (if ok2 then sip_transport env2 a2 = (d, dns, False) else d = a2 \<and> dns = Unset)
          \<and> rawr_Call_SipThread op cr env2 c2 = map_option (\<lambda>c'. (c', Sip_returned)) (sip_cleanup dns d)
          \<and> {reSdpSess d, reRtpSock d, reSipSessSock d} \<subseteq> {Unset, Freed}
          \<and> reSip d = Freed \<and> mem_deref (reSip d) = None \<and> sip_cleanup dns d = None)"
proof -
  have sip: "reSip c1 = Freed" by (rule SipThread_gives_up [OF assms(1-6)])
  have ob: "transport_objects c2 = transport_objects c1" by (rule Start_objects [OF assms(7)])
  obtain d dns where d: "if ok2 then sip_transport env2 a2 = (d, dns, False) else d = a2 \<and> dns = Unset"
    "transport_objects d = transport_objects c2"
    "rawr_Call_SipThread op cr env2 c2 = map_option (\<lambda>c'. (c', Sip_returned)) (sip_cleanup dns d)"
    using SipThread_stale [OF assms(8,9), of cr] by blast
  have fields: "reSdpSess d = reSdpSess c1" "reRtpSock d = reRtpSock c1" "reSipSessSock d = reSipSessSock c1" "reSip d = reSip c1"
    using d(2) ob by (simp_all add: transport_objects_def)
  have "rawr_Call_Stop c1 = None"
    using sip by (simp add: rawr_Call_Stop_def rawr_Call_Terminate_def rawr_Call_SetExiting_def Let_def split: bind_split)
  moreover have "{reSdpSess d, reRtpSock d, reSipSessSock d} \<subseteq> {Unset, Freed}"
    using SipThread_cleaned [OF assms(1)] by (simp add: transport_objects_def fields)
  moreover have "reSip d = Freed" "sip_cleanup dns d = None" using sip fields(4) cleanup_stale by simp_all
  ultimately show ?thesis
    using sip d(1,3) by (intro conjI exI [of _ d] exI [of _ dns]) simp_all
qed

theorem restart_releases_twice_witness:
  "\<exists>c1 c2 a2 ok2 d dns. rawr_Call_SipThread demo_opus demo_crypto (demo_env\<lparr>tls_alloc_err := 2\<rparr>) zero_call = Some (c1, Sip_returned)
     \<and> rawr_Call_Start 0 [0] c1 = Some (c2, rawr_Success)
     \<and> sip_audio_setup demo_opus (demo_env\<lparr>dns_srv_get_err := 2\<rparr>) (rawr_Call_SetState c2 rawr_CallState_Started) = Some (a2, ok2)
     \<and> rawr_Call_SipThread demo_opus demo_crypto (demo_env\<lparr>dns_srv_get_err := 2\<rparr>) c2
         = map_option (\<lambda>c'. (c', Sip_returned)) (sip_cleanup dns d)
     \<and> mem_deref (reSip d) = None \<and> sip_cleanup dns d = None"
proof -
  obtain a where a: "sip_audio_setup demo_opus (demo_env\<lparr>tls_alloc_err := 2\<rparr>) (rawr_Call_SetState zero_call rawr_CallState_Started) = Some (a, True)"
    using demo_audio [of "demo_env\<lparr>tls_alloc_err := 2\<rparr>" zero_call, simplified] by blast
  obtain c1 where c1: "rawr_Call_SipThread demo_opus demo_crypto (demo_env\<lparr>tls_alloc_err := 2\<rparr>) zero_call = Some (c1, Sip_returned)"
    using demo_runs(2) by blast
  obtain c2 where c2: "rawr_Call_Start 0 [0] c1 = Some (c2, rawr_Success)"
    by (auto simp: rawr_Call_Start_def set_arg_def cstr_def Let_def)
  obtain a2 where a2: "sip_audio_setup demo_opus (demo_env\<lparr>dns_srv_get_err := 2\<rparr>) (rawr_Call_SetState c2 rawr_CallState_Started) = Some (a2, True)"
    using demo_audio [of "demo_env\<lparr>dns_srv_get_err := 2\<rparr>" c2, simplified] by blast
  show ?thesis
    using restart_releases_twice [OF c1 _ a _ _ _ c2 a2] c1 c2 a2 by (simp add: demo_errs) blast
qed

end
