(* ===== verification/CallMedia.thy ===== *)
theory CallMedia
  imports CallLife
begin

text \<open>
  Two calls with each other: the key that travels in the session description, and the voice that
  travels under it. The lemmas put the components together: Base64 and the attribute lists for the
  key, the audio stream, Opus, RTP and SRTP for the voice.
\<close>

section \<open>The key in the session description\<close>

lemma b64_table_chars: "b \<in> set b64_table \<Longrightarrow> b \<noteq> 32 \<and> b \<noteq> 37"
proof -
  have "list_all (\<lambda>b. b \<noteq> 32 \<and> b \<noteq> 37) b64_table" by code_simp
  then show "b \<in> set b64_table \<Longrightarrow> b \<noteq> 32 \<and> b \<noteq> 37" by (simp add: list_all_iff)
qed

lemma b64_char_table: "b64_char (sextet k v) \<in> set b64_table"
proof -
  have "length b64_table = 64" by (simp add: b64_table_def)
  then show ?thesis using sextet_less [of k v] unfolding b64_char_def by (metis nth_mem)
qed

lemma encode_chars: "b \<in> set (b64_encode_loop bs) \<Longrightarrow> b \<noteq> 32 \<and> b \<noteq> 37"
  by (induction bs rule: b64_encode_loop.induct)
    (use b64_table_chars [OF b64_char_table] in \<open>auto simp: Let_def\<close>)

text \<open>The first token of a string: a word without spaces and what follows it.\<close>

lemma word_end:
  assumes "32 \<notin> set cs"
  shows "takeWhile (\<lambda>b. b \<noteq> (32 :: u8)) (cs @ 32 # s) = cs" "dropWhile (\<lambda>b. b \<noteq> (32 :: u8)) (cs @ 32 # s) = 32 # s"
    "takeWhile (\<lambda>b. b \<noteq> (32 :: u8)) cs = cs" "dropWhile (\<lambda>b. b \<noteq> (32 :: u8)) cs = []"
  using assms by (induction cs) auto

lemma tokens_Nil: "tokens [] = []"
  by (subst tokens.simps) simp

lemma tokens_space: "tokens (32 # s) = tokens s"
  by (subst (1 2) tokens.simps) simp

lemma tokens_word: "c \<noteq> 32 \<Longrightarrow> 32 \<notin> set cs \<Longrightarrow> tokens (c # cs @ 32 # s) = (c # cs) # tokens s"
  by (subst tokens.simps) (simp add: word_end tokens_space)

lemma tokens_last: "c \<noteq> 32 \<Longrightarrow> 32 \<notin> set cs \<Longrightarrow> tokens (c # cs) = [c # cs]"
  by (subst tokens.simps) (simp add: word_end tokens_Nil)

lemma chars_words: "chars ''1'' = [49]" "chars ''1 '' = [49, 32]" "chars '' inline:'' = [32, 105, 110, 108, 105, 110, 101, 58]"
  "chars ''inline:'' = [105, 110, 108, 105, 110, 101, 58]"
  by (simp_all add: chars_def)

lemma suite_name_chars: "32 \<notin> set (chars (srtp_suite_name suite))" "37 \<notin> set (chars (srtp_suite_name suite))"
  "length (chars (srtp_suite_name suite)) \<le> 30" "\<exists>cs. chars (srtp_suite_name suite) = 65 # cs"
  by (cases suite; simp add: chars_def)+

lemma crypto_line_tokens:
  assumes "32 \<notin> set key" and "length key \<le> 1000"
  shows "tokens (sdp_crypto_line suite key) = [chars ''1'', chars (srtp_suite_name suite), chars ''inline:'' @ key]"
proof -
  obtain cs where cs: "chars (srtp_suite_name suite) = 65 # cs" using suite_name_chars(4) by blast
  have no: "32 \<notin> set cs" "length cs \<le> 30" using suite_name_chars(1,3) [of suite] cs by auto
  have "sdp_crypto_line suite key = 49 # [] @ 32 # (65 # cs @ 32 # (105 # ([110, 108, 105, 110, 101, 58] @ key)))"
    using assms(2) no(2) by (simp add: sdp_crypto_line_def chars_words cs)
  also have "tokens \<dots> = [[49], 65 # cs, 105 # ([110, 108, 105, 110, 101, 58] @ key)]"
    using assms(1) no(1) by (subst tokens_word, simp, simp, subst tokens_word, simp, simp, subst tokens_last) auto
  finally show ?thesis by (simp add: chars_words cs)
qed

lemma crypto_line_plain: "37 \<notin> set key \<Longrightarrow> 37 \<notin> set (sdp_crypto_line suite key)"
  using suite_name_chars(2) [of suite] by (auto simp: sdp_crypto_line_def chars_words dest!: in_set_takeD)

text \<open>A peer that has no receiving key yet takes the one of the line.\<close>

lemma handler_takes_key:
  assumes "length key = 30" "length junk = 30" and "srtpReceiveContext c = None"
    and "srtp_alloc cr True (srtpSuite c) key False = Inr ctx"
  shows "rawr_Call_CryptoAttribHandler cr True True junk (sdp_crypto_line (srtpSuite c) (b64_encode_loop key)) c
     = Some (c\<lparr>srtpReceiveContext := Some ctx\<rparr>, True)"
proof -
  have "32 \<notin> set (b64_encode_loop key)" "length (b64_encode_loop key) = 40"
    using encode_chars assms(1) by (fastforce, simp add: length_encode_loop)
  note tok = crypto_line_tokens [OF this(1), of "srtpSuite c"] this
  have "dropWhile (\<lambda>b. b \<noteq> 58) (chars ''inline:'' @ b64_encode_loop key) = 58 # b64_encode_loop key"
    by (simp add: chars_words)
  then have "crypto_key cr True junk (chars ''inline:'' @ b64_encode_loop key) c = (c\<lparr>srtpReceiveContext := Some ctx\<rparr>, True)"
    using assms tok(3) by (simp add: crypto_key_def base64_decode_def decode_encode_loop patch_def rawr_defs)
  then show ?thesis using assms(3) tok by (simp add: rawr_Call_CryptoAttribHandler_def)
qed

section \<open>Two ends of a protected stream\<close>

text \<open>
  The contexts of a sender whose next packet has index \<open>n\<close> and of its peer: the same keys, and the
  peer has seen earlier packets only, the last of them not too long ago.
\<close>

definition linked :: "('a \<Rightarrow> bytes option) \<Rightarrow> u32 \<Rightarrow> nat \<Rightarrow> ('a, 'h) srtp \<Rightarrow> ('a, 'h) srtp \<Rightarrow> bool" where
  "linked key ssrc n S R \<longleftrightarrow> (\<exists>k h s t prevS prevR.
     ctr_comp key k h s t (srtp_rtp S) \<and> ctr_comp key k h s t (srtp_rtp R)
   \<and> seen_up_to S ssrc prevS \<and> (case prevS of None \<Rightarrow> n < 65536 | Some m \<Rightarrow> n = Suc m)
   \<and> seen_up_to R ssrc prevR \<and> window_up_to R ssrc prevR
   \<and> (case prevR of None \<Rightarrow> n < 65536 | Some m \<Rightarrow> m < n \<and> n \<le> m + 32767))"

lemma linked_fresh:
  assumes "ctr_comp key k h s t (srtp_rtp S)" and "srtp_streaml S = []" and "n < 65536"
  shows "linked key ssrc n S S"
  unfolding linked_def
  by (rule exI [of _ k], rule exI [of _ h], rule exI [of _ s], rule exI [of _ t], rule exI [of _ None], rule exI [of _ None])
    (use assms in \<open>simp add: seen_up_to_def window_up_to_def window_of_def\<close>)

text \<open>One packet from one end to the other.\<close>

lemma linked_packet:
  assumes laws: "ctr_laws cr key enc" "hmac_laws cr" and lk: "linked key (hdr_ssrc hdr) n S R" and n: "n < 2147483648"
    and hdr: "hdr_ok hdr" "hdr_seq hdr = of_nat n" and room: "SHA_DIGEST_LENGTH \<le> length post"
  shows "\<exists>w S' R' post1 post2 c. w = rtp_hdr_bytes hdr @ c
     \<and> srtp_encrypt cr mem True S (lay [] (rtp_hdr_bytes hdr @ p) post 0) = Some (S', lay [] w post1 0, 0)
     \<and> srtp_decrypt cr mem' True R (of_wire w) = Some (R', lay [] (rtp_hdr_bytes hdr @ p) post2 0, 0)
     \<and> linked key (hdr_ssrc hdr) (Suc n) S' R'"
proof -
  let ?ssrc = "hdr_ssrc hdr" and ?H = "rtp_hdr_bytes hdr"
  obtain k h s t ps pr where c: "ctr_comp key k h s t (srtp_rtp S)" "ctr_comp key k h s t (srtp_rtp R)"
    and S: "seen_up_to S ?ssrc ps" "case ps of None \<Rightarrow> n < 65536 | Some m \<Rightarrow> n = Suc m"
    and R: "seen_up_to R ?ssrc pr" "window_up_to R ?ssrc pr" "case pr of None \<Rightarrow> n < 65536 | Some m \<Rightarrow> m < n \<and> n \<le> m + 32767"
    using lk unfolding linked_def by blast
  have t: "4 \<le> t" "t \<le> SHA_DIGEST_LENGTH" using c(1) by (simp_all add: ctr_comp_def)
  have aS: "awaits S ?ssrc n" "start_at S ?ssrc n \<le> n" using seen_awaits [OF S(1), of n] S(2) by (auto split: option.splits)
  let ?w = "protected cr enc k h s t ?ssrc n ?H p"
  obtain S' post1 where e: "srtp_encrypt cr mem True S (lay [] (?H @ p) post 0) = Some (S', lay [] ?w post1 0, 0)"
    "ctr_comp key k h s t (srtp_rtp S')" "advanced S ?ssrc n S'"
    using encrypt_packet [OF laws c(1) aS(1) n hdr(2,1), of post mem "[]" p] t room by auto
  note aR = seen_awaits [OF R(1,3)]
  have before: "case pr of None \<Rightarrow> True | Some m \<Rightarrow> m < n" using R(3) by (simp split: option.splits)
  obtain v where v: "srtp_replay_check (window_of R ?ssrc) (of_nat n) = (v, True)" "lix v = of_nat n"
    using window_next [OF R(2) n before] by metis
  have wire: "of_wire ?w = lay [] ?w [] 0" by (simp add: of_wire_def lay_def)
  obtain R' post2 where d: "srtp_decrypt cr mem' True R (of_wire ?w) = Some (R', lay [] (?H @ p) post2 0, 0)"
    "ctr_comp key k h s t (srtp_rtp R')" "advanced R ?ssrc n R'" "window_of R' ?ssrc = v"
    using decrypt_packet [OF laws c(2) aR(1) n hdr(2,1) v(1), of mem' "[]" p "[]"] by (auto simp: wire)
  have "linked key ?ssrc (Suc n) S' R'"
    unfolding linked_def
    by (rule exI [of _ k], rule exI [of _ h], rule exI [of _ s], rule exI [of _ t], rule exI [of _ "Some n"], rule exI [of _ "Some n"])
      (use e d v advanced_seen [OF e(3) aS(2)] advanced_seen [OF d(3) aR(2)] in \<open>simp add: window_up_to_def\<close>)
  moreover have "\<exists>c. ?w = ?H @ c" by (simp add: protected_def Let_def)
  ultimately show ?thesis using e(1) d(1) by blast
qed

section \<open>A frame of voice\<close>

text \<open>
  A sender at the start of a round: the device hands it \<open>frame\<close> by its first poll, Opus makes \<open>pkt\<close> of it, which
  leaves room for the header and the tag in the buffer of the thread, and the socket takes the packet.
\<close>

definition speaks ::
  "('e, 'd) opus \<Rightarrow> send_env \<Rightarrow> ('e, 'd, 'a, 'h) rawr_Call \<Rightarrow> send_local \<Rightarrow> bytes \<Rightarrow> bytes \<Rightarrow> bool" where
  "speaks op env c loc frame pkt \<longleftrightarrow>
     (\<exists>cap d ds s. env_device env = d # ds \<and> call_stream c = Live s \<and> stream_ok cap (d s) \<and> sampleCount (d s) = 960
        \<and> 960 \<le> length (captured (d s)) \<and> frame = concat (take 960 (captured (d s))))
   \<and> (\<exists>cdc pr e e'. call_encoder c = Live cdc \<and> codec_priv cdc = Some pr \<and> opus_enc pr = Some e \<and> codec_frameSize cdc = 960
        \<and> opus_encode op e frame 960 RAWR_CODEC_OUTPUT_BYTES_MAX = (e', Inr pkt))
   \<and> length pkt + 12 + SHA_DIGEST_LENGTH \<le> RAWR_CODEC_OUTPUT_BYTES_MAX
   \<and> length (samples c) = sizeof_samples \<and> length (mb_buf (re_mb loc)) = RAWR_CODEC_OUTPUT_BYTES_MAX
   \<and> rtp_type loc < 128 \<and> length (hdr_csrc (env_junk env)) = 16 \<and> env_strm env \<and> 0 \<le> env_udp env
   \<and> (\<exists>us media. reRtpSock c = Live us \<and> reSdpMedia c = Live media)"

text \<open>A receiver whose decoder makes \<open>pcm\<close> of the packet and whose stream \<open>s\<close> has room for it at the first poll.\<close>

definition hears :: "('e, 'd) opus \<Rightarrow> recv_env \<Rightarrow> ('e, 'd, 'a, 'h) rawr_Call \<Rightarrow> bytes \<Rightarrow> bytes \<Rightarrow> rawr_AudioStream \<Rightarrow> bool" where
  "hears op env c pkt pcm s \<longleftrightarrow>
     (\<exists>cap d ds s0. recv_device env = d # ds \<and> call_stream c = Live s0 \<and> s = d s0 \<and> stream_ok cap s \<and> sampleCount s = 960
        \<and> 960 \<le> cap - length (queued s))
   \<and> (\<exists>cdc pr e e'. call_decoder c = Live cdc \<and> codec_priv cdc = Some pr \<and> opus_dec pr = Some e \<and> codec_frameSize cdc = 960
        \<and> opus_decode op e pkt RAWR_CODEC_INPUT_BYTES_MAX (inband_fec codecConfig) = (e', Inr pcm))
   \<and> length pcm = 1920 \<and> length (samples c) = sizeof_samples \<and> recv_strm env"

lemma ucast_seq: "ucast (of_nat n :: u32) = (of_nat n :: u16)"
  by (rule bit_word_eqI) (simp add: bit_simps)

lemma send_hdr_ok: "rtp_type loc < 128 \<Longrightarrow> length (hdr_csrc junk) = 16 \<Longrightarrow> hdr_ok (send_hdr junk loc time)"
  by (simp add: send_hdr_def hdr_ok_def)

lemma length_concat2: "list_all (\<lambda>x. length x = 2) xs \<Longrightarrow> length (concat xs) = 2 * length xs"
  by (induction xs) auto

lemma length_frame:
  assumes "stream_ok cap s" and "960 \<le> length (captured s)"
  shows "length (concat (take 960 (captured s))) = 1920"
proof -
  have "list_all (\<lambda>x. length x = 2) (take 960 (captured s))"
    using stream_contents_size2(2) [OF assms(1)] by (auto simp: list_all_iff dest: in_set_takeD)
  from length_concat2 [OF this] show ?thesis using assms(2) by simp
qed

lemma send_stats_same:
  "fst (send_stats now c loc) = c' \<Longrightarrow> srtpTransmitContext c' = srtpTransmitContext c \<and> samples c' = samples c"
  "rtpSeq (snd (send_stats now c loc)) = rtpSeq loc"
  by (auto simp: send_stats_def Let_def)

lemma round_sends:
  assumes sp: "speaks op env c loc frame pkt" and ctx: "srtpTransmitContext c = Some S"
    and hdr: "hdr = send_hdr (env_junk env) loc (rtpTime c + word_of_int frame_size)"
  obtains post where "SHA_DIGEST_LENGTH \<le> length post"
    and "\<And>S' w post1. srtp_encrypt cr (env_mem env) True S (lay [] (rtp_hdr_bytes hdr @ pkt) post 0) = Some (S', lay [] w post1 0, 0) \<Longrightarrow>
      \<exists>c' loc'. rawr_Call_RtpSendThread_round op cr env (c, loc) = Some (Send_next (c', loc'), Some w)
     \<and> srtpTransmitContext c' = Some S' \<and> rtpSeq loc' = rtpSeq loc + 1 \<and> take 1920 (samples c') = frame"
proof -
  obtain cap d ds s where s: "env_device env = d # ds" "call_stream c = Live s" "stream_ok cap (d s)" "sampleCount (d s) = 960"
    "960 \<le> length (captured (d s))" "frame = concat (take 960 (captured (d s)))"
    using sp unfolding speaks_def by blast
  obtain cdc pr e e' where e: "call_encoder c = Live cdc" "codec_priv cdc = Some pr" "opus_enc pr = Some e"
    "codec_frameSize cdc = 960" "opus_encode op e frame 960 RAWR_CODEC_OUTPUT_BYTES_MAX = (e', Inr pkt)"
    using sp unfolding speaks_def by blast
  have sz: "length pkt + 32 \<le> 1500" "length (samples c) = 13020" "length (mb_buf (re_mb loc)) = 1500" "rtp_type loc < 128"
    "length (hdr_csrc (env_junk env)) = 16" "env_strm env" "0 \<le> env_udp env"
    using sp by (simp_all add: speaks_def rawr_defs)
  obtain us media where lv: "reRtpSock c = Live us" "reSdpMedia c = Live media" using sp unfolding speaks_def by blast
  have hb: "length (rtp_hdr_bytes hdr) = 12" by (simp add: length_hdr_bytes hdr send_hdr_def)
  let ?buf = "drop 12 (mb_buf (re_mb loc))"
  have he: "rtp_hdr_encode (env_mem env) (mbuf_rewind (re_mb loc)) hdr =
      Some (\<lparr>mb_buf = rtp_hdr_bytes hdr @ ?buf, mb_pos = 12, mb_end = 12\<rparr>, 0)"
    using sz(3) by (subst hdr_encode_fits) (simp_all add: mbuf_rewind_def hdr send_hdr_def)
  obtain s' where rd: "rawr_AudioStream_Read (d s) (samples c) = Some (s', frame @ drop 1920 (samples c), 960)"
    using Read_frame [OF s(3) refl, of "samples c"] s sz(2) by auto
  have fl: "length frame = 1920" using length_frame [OF s(3,5)] s(6) by simp
  have pr: "poll_read (env_device env) s (samples c) = Some (s', frame @ drop 1920 (samples c), 960)"
    using rd s(1) by simp
  define post where "post = drop (length pkt) ?buf"
  let ?cdc = "cdc\<lparr>codec_priv := Some (pr\<lparr>opus_enc := Some e'\<rparr>)\<rparr>"
  have en: "rawr_Codec_Encode op cdc (frame @ drop 1920 (samples c)) ?buf = Some (?cdc, pkt @ post, int (length pkt))"
    using e sz fl by (simp add: rawr_Codec_Encode_def rawr_Codec_Priv_def mem_simps patch_def rawr_defs post_def)
  have mb: "\<lparr>mb_buf = rtp_hdr_bytes hdr @ pkt @ post, mb_pos = 0, mb_end = 12 + length pkt\<rparr> = lay [] (rtp_hdr_bytes hdr @ pkt) post 0"
    by (simp add: lay_def hb)
  show ?thesis
  proof (rule that [of post])
    show "SHA_DIGEST_LENGTH \<le> length post" using sz(1,3) by (simp add: post_def SHA_DIGEST_LENGTH_def)
    fix S' w post1
    assume sr: "srtp_encrypt cr (env_mem env) True S (lay [] (rtp_hdr_bytes hdr @ pkt) post 0) = Some (S', lay [] w post1 0, 0)"
    let ?c = "c\<lparr>rtpTime := rtpTime c + word_of_int frame_size, call_stream := Live s', samples := frame @ drop 1920 (samples c),
        call_encoder := Live ?cdc, rtpBytesSend := rtpBytesSend c + word_of_int (int (length pkt)) + RAWR_CALL_UDP_OVERHEAD_BYTES,
        srtpTransmitContext := Some S'\<rparr>"
    let ?loc = "loc\<lparr>rtpSeq := rtpSeq loc + 1, re_mb := lay [] w post1 0\<rparr>"
    have "rawr_Call_RtpSendThread_round op cr env (c, loc) = Some (Send_next (send_stats (env_now env) ?c ?loc), Some w)"
      using he pr en sr sz s(2) e(1) ctx hb lv
      by (simp add: rawr_Call_RtpSendThread_round_def udp_send_def RAWR_CODEC_OUTPUT_BYTES_MAX_def send_packet_def mb Let_def flip: hdr)
    moreover obtain c' loc' where st: "send_stats (env_now env) ?c ?loc = (c', loc')" by fastforce
    ultimately show "\<exists>c' loc'. rawr_Call_RtpSendThread_round op cr env (c, loc) = Some (Send_next (c', loc'), Some w)
        \<and> srtpTransmitContext c' = Some S' \<and> rtpSeq loc' = rtpSeq loc + 1 \<and> take 1920 (samples c') = frame"
      using send_stats_same(1) [of "env_now env" ?c ?loc c'] send_stats_same(2) [of "env_now env" ?c ?loc] fl st by simp
  qed
qed

lemma recv_stats_frame [simp]:
  "srtpReceiveContext (recv_stats now mb c) = srtpReceiveContext c" "call_decoder (recv_stats now mb c) = call_decoder c"
  "call_stream (recv_stats now mb c) = call_stream c" "samples (recv_stats now mb c) = samples c"
  by (simp_all add: recv_stats_def Let_def)

lemma sint_length: "n < 2 ^ 31 \<Longrightarrow> sint (of_nat n :: u32) = int n"
  by (simp add: signed_of_nat signed_take_bit_int_eq_self)

lemma recv_plays:
  assumes he: "hears op env c pkt pcm s" and len: "length pkt < 2 ^ 31" and ctx: "srtpReceiveContext c = Some R"
    and hdr: "hdr_ok hdr" "hdr_cc hdr = 0" and w: "w = rtp_hdr_bytes hdr @ x"
    and dec: "srtp_decrypt cr (recv_mem env) True R (of_wire w) = Some (R', lay [] (rtp_hdr_bytes hdr @ pkt) post2 0, 0)"
  shows "\<exists>c' s'. rawr_Call_OnUdpRecv op cr env (of_wire w) c = Some (c', Recv_played)
     \<and> srtpReceiveContext c' = Some R' \<and> call_stream c' = Live s' \<and> queued s' = queued s @ elems 2 pcm 960
     \<and> captured s' = captured s"
proof -
  obtain cap d ds s0 where s: "recv_device env = d # ds" "call_stream c = Live s0" "s = d s0" "stream_ok cap s" "sampleCount s = 960"
    "960 \<le> cap - length (queued s)" using he unfolding hears_def by blast
  obtain cdc pr e e' where e: "call_decoder c = Live cdc" "codec_priv cdc = Some pr" "opus_dec pr = Some e" "codec_frameSize cdc = 960"
    "opus_decode op e pkt RAWR_CODEC_INPUT_BYTES_MAX (inband_fec codecConfig) = (e', Inr pcm)"
    using he unfolding hears_def by blast
  have sz: "length pcm = 1920" "length (samples c) = 13020" "recv_strm env" using he by (simp_all add: hears_def rawr_defs)
  have hb: "length (rtp_hdr_bytes hdr) = 12" by (rule length_hdr_bytes [OF hdr(2)])
  have wire: "of_wire w = lay [] w [] 0" by (simp add: of_wire_def lay_def)
  obtain h where h: "rtp_hdr_decode hdr_local (of_wire w) = Some (h, lay [] w [] 12, 0)"
    using decode_lay [OF hdr(1), of "[]" x "[]"] hb by (metis w wire)
  have rewound: "(lay [] w [] 12)\<lparr>mb_pos := 0\<rparr> = of_wire w" by (simp add: of_wire_def lay_def)
  have pos: "(lay [] (rtp_hdr_bytes hdr @ pkt) post2 0)\<lparr>mb_pos := 12\<rparr> = lay [] (rtp_hdr_bytes hdr @ pkt) post2 12"
    by (simp add: lay_def)
  define smp where "smp = drop outputSamples_at (samples c)"
  have sl: "length smp = 11520" using sz(2) by (simp add: smp_def rawr_defs)
  let ?cdc = "cdc\<lparr>codec_priv := Some (pr\<lparr>opus_dec := Some e'\<rparr>)\<rparr>"
  have de: "rawr_Codec_Decode op cdc (pkt @ post2) (length pkt) smp = Some (?cdc, pcm @ drop 1920 smp, 960)"
    using e sz(1) sl by (simp add: rawr_Codec_Decode_def rawr_Codec_Priv_def mem_simps patch_def sizeof_AudioSample_def)
  have el: "elems 2 (pcm @ drop 1920 smp) 960 = elems 2 pcm 960"
    using sz(1) by (auto simp: elems_def slot_def)
  obtain s' where wr: "rawr_AudioStream_Write s (pcm @ drop 1920 smp) = Some (s', 960)"
    "queued s' = queued s @ elems 2 pcm 960" "captured s' = captured s"
    using Write_frame [OF s(4) refl, of "pcm @ drop 1920 smp"] s(5,6) sz(1) el by auto
  have at: "min (length (samples c)) outputSamples_at = outputSamples_at" using sz(2) by (simp add: rawr_defs)
  show ?thesis
    using ctx dec h s(1,2) wr de e(1) hb sz(3) s(3) sint_length [OF len]
    by (auto simp: rawr_Call_OnUdpRecv_def rawr_Call_OnRtp_def Let_def rewound pos at simp flip: smp_def)
qed

section \<open>Properties\<close>

text \<open>
  (C2) The key a caller puts into its session description is the key the callee receives with: the line
  that SipThread builds, among the other attributes of the media line, makes UpdateMedia of a
  callee that has no receiving key yet allocate the context the caller transmits with. The
  formatting of values without a percent sign is the identity and no allocation fails.
\<close>

theorem sdp_key_exchange:
  assumes "sip_keys cr env caller = Some caller'" and "reSdpMedia caller' = Live media"
    and "30 \<le> length (rand_key env)" and "sip_srtp_mem env" and "fst (sip_attr_mem env) = (True, True, True)"
    and "\<And>v. 37 \<notin> set v \<Longrightarrow> sip_fmt env v = v"
    and "srtp_alloc cr True (srtpSuite caller) (take 30 (rand_key env)) False = Inr ctx"
    and "srtpSuite callee = srtpSuite caller" and "srtpReceiveContext callee = None"
    and "sdp_opus senv" and "sdp_rattrs senv = media" and "sdp_mem senv = (True, True)" and "length (sdp_stack senv) = 30"
  shows "srtpTransmitContext caller' = Some ctx
     \<and> rawr_Call_UpdateMedia cr senv callee = Some (callee\<lparr>srtpReceiveContext := Some ctx\<rparr>)
     \<and> (fst (suite_params (srtpSuite caller)) = AES_MODE_CTR \<and> alloc_laws cr key \<longrightarrow> linked key rtpSsrc 1024 ctx ctx)"
proof -
  have lk: "linked key rtpSsrc 1024 ctx ctx" if "fst (suite_params (srtpSuite caller)) = AES_MODE_CTR" "alloc_laws cr key"
    using alloc_ctr [OF assms(7) that] linked_fresh [of key _ _ _ _ ctx 1024 rtpSsrc] by auto
  let ?key = "take 30 (rand_key env)"
  let ?line = "sdp_crypto_line (srtpSuite caller) (b64_encode_loop ?key)"
  have kl: "length ?key = 30" using assms(3) by simp
  have b64: "base64_encode ?key 255 = Inr (b64_encode_loop ?key)" using kl by (simp add: base64_encode_def)
  have plain: "37 \<notin> set (b64_encode_loop ?key)" using encode_chars by fastforce
  have line: "sip_fmt env ?line = ?line" "?line \<noteq> []"
    using assms(6) [OF crypto_line_plain [OF plain]] by (simp_all add: sdp_crypto_line_def chars_words)
  obtain m0 where m0: "reSdpMedia caller = Live m0" using assms(1)
    by (auto simp: sip_keys_def Let_def split: bind_splits sum.splits elim: target.elims)
  define m1 where "m1 = fst (sdp_media_set_lattr (True, True, True) (sip_fmt env) m0 True (chars ''crypto'') ?line)"
  define m2 where "m2 = sdp_media_set_lattr (snd (sip_attr_mem env)) (sip_fmt env) m1 True (chars ''encryption'') (chars ''required'')"
  have c': "srtpTransmitContext caller' = Some ctx" "media = fst m2"
    using assms(1,2,4,5,7) m0 b64 by (auto simp: sip_keys_def Let_def m1_def m2_def rawr_defs split: bind_splits)
  have s1: "sdp_media_set_lattr (True, True, True) (sip_fmt env) m0 True (chars ''crypto'') ?line = (m1, 0)"
    using line(2) by (simp add: m1_def sdp_media_set_lattr_def sdp_attr_addv_def Let_def)
  have s2: "sdp_media_set_lattr (snd (sip_attr_mem env)) (sip_fmt env) m1 True (chars ''encryption'') (chars ''required'') = (media, snd m2)"
    using c'(2) by (simp add: m2_def)
  have names: "map tolower (chars ''encryption'') \<noteq> map tolower (chars ''crypto'')" by (simp add: chars_def)
  let ?h = "rawr_Call_CryptoAttribHandler cr True True (sdp_stack senv)"
  have "sdp_attr_apply media (chars ''crypto'') ?h callee = Some (callee\<lparr>srtpReceiveContext := Some ctx\<rparr>, Some ?line)"
    using handler_takes_key [OF kl assms(13,9), of cr ctx] assms(7,8) line
    by (simp add: set_lattr_other [OF s2 names] set_lattr_apply [OF s1])
  then show ?thesis using c'(1) assms(9-12) lk by (simp add: rawr_Call_UpdateMedia_def)
qed

theorem sdp_key_exchange_witness:
  "\<exists>caller' media ctx.
     sip_keys demo_crypto demo_env (zero_call\<lparr>reSdpMedia := Live [], srtpSuite := RAWR_CALL_SRTP_SUITE\<rparr>) = Some caller'
   \<and> reSdpMedia caller' = Live media \<and> srtpTransmitContext caller' = Some ctx
   \<and> rawr_Call_UpdateMedia demo_crypto (demo_sdp\<lparr>sdp_rattrs := media\<rparr>) (zero_call\<lparr>srtpSuite := RAWR_CALL_SRTP_SUITE\<rparr>)
     = Some (zero_call\<lparr>srtpSuite := RAWR_CALL_SRTP_SUITE, srtpReceiveContext := Some ctx\<rparr>)
   \<and> linked (\<lambda>(k, _). Some k) rtpSsrc 1024 ctx ctx"
proof -
  let ?caller = "zero_call\<lparr>reSdpMedia := Live [], srtpSuite := RAWR_CALL_SRTP_SUITE\<rparr> :: (unit, unit, bytes \<times> bytes, bytes) rawr_Call"
  obtain ctx where ctx: "srtp_alloc demo_crypto True RAWR_CALL_SRTP_SUITE (replicate 30 7) False = Inr ctx"
    by (simp add: srtp_alloc_def comp_init_def srtp_derive_def demo_crypto_def comp_zero_def Let_def rawr_defs)
  obtain caller' media where c': "sip_keys demo_crypto demo_env ?caller = Some caller'" "reSdpMedia caller' = Live media"
    using ctx by (auto simp: sip_keys_def Let_def demo_env_def rawr_defs)
  have "srtpTransmitContext caller' = Some ctx
      \<and> rawr_Call_UpdateMedia demo_crypto (demo_sdp\<lparr>sdp_rattrs := media\<rparr>) (zero_call\<lparr>srtpSuite := RAWR_CALL_SRTP_SUITE\<rparr>)
        = Some (zero_call\<lparr>srtpSuite := RAWR_CALL_SRTP_SUITE, srtpReceiveContext := Some ctx\<rparr>)
      \<and> (fst (suite_params (srtpSuite ?caller)) = AES_MODE_CTR \<and> alloc_laws demo_crypto (\<lambda>(k, _). Some k)
         \<longrightarrow> linked (\<lambda>(k, _). Some k) rtpSsrc 1024 ctx ctx)"
    by (rule sdp_key_exchange [OF c']) (use ctx in \<open>simp_all add: demo_env_def demo_sdp_def\<close>, simp add: zero_call_def)
  then show ?thesis using c' demo_laws(3) by (auto simp: RAWR_CALL_SRTP_SUITE_def)
qed

text \<open>
  (C1) A frame of voice from the microphone of one end to the loudspeaker queue of the other: with
  contexts that are linked, the round of the sending thread takes the oldest captured frame, and
  the datagram it sends makes the receiving handler of the peer queue exactly the samples the
  decoder produces for the packet Opus made of that frame. The contexts are linked again, for the next
  number.
\<close>

theorem voice_frame_delivered:
  assumes "ctr_laws cr key enc" and "hmac_laws cr" and "n < 2147483648"
    and "speaks op senv A loc frame pkt" and "rtpSeq loc = of_nat n" and "srtpTransmitContext A = Some S"
    and "hears op renv B pkt pcm s" and "srtpReceiveContext B = Some R" and "linked key rtpSsrc n S R"
  shows "\<exists>A' loc' w B' s' S' R'.
     rawr_Call_RtpSendThread_round op cr senv (A, loc) = Some (Send_next (A', loc'), Some w)
   \<and> rawr_Call_OnUdpRecv op cr renv (of_wire w) B = Some (B', Recv_played)
   \<and> call_stream B' = Live s' \<and> queued s' = queued s @ elems 2 pcm 960 \<and> captured s' = captured s
   \<and> rtpSeq loc' = of_nat (Suc n) \<and> srtpTransmitContext A' = Some S' \<and> srtpReceiveContext B' = Some R'
   \<and> linked key rtpSsrc (Suc n) S' R'"
proof -
  define hdr where "hdr = send_hdr (env_junk senv) loc (rtpTime A + word_of_int frame_size)"
  have ok: "hdr_ok hdr" using assms(4) by (simp add: hdr_def speaks_def send_hdr_ok)
  have f: "hdr_ssrc hdr = rtpSsrc" "hdr_seq hdr = of_nat n" "hdr_cc hdr = 0"
    using assms(5) by (simp_all add: hdr_def send_hdr_def ucast_seq)
  obtain post where post: "SHA_DIGEST_LENGTH \<le> length post"
    and rnd: "\<And>S' w post1. srtp_encrypt cr (env_mem senv) True S (lay [] (rtp_hdr_bytes hdr @ pkt) post 0) = Some (S', lay [] w post1 0, 0) \<Longrightarrow>
      \<exists>A' loc'. rawr_Call_RtpSendThread_round op cr senv (A, loc) = Some (Send_next (A', loc'), Some w)
     \<and> srtpTransmitContext A' = Some S' \<and> rtpSeq loc' = rtpSeq loc + 1 \<and> take 1920 (samples A') = frame"
    by (rule round_sends [OF assms(4,6) hdr_def, of cr]) (rule that)
  obtain w S' R' post1 post2 c where pk: "w = rtp_hdr_bytes hdr @ c"
    "srtp_encrypt cr (env_mem senv) True S (lay [] (rtp_hdr_bytes hdr @ pkt) post 0) = Some (S', lay [] w post1 0, 0)"
    "srtp_decrypt cr (recv_mem renv) True R (of_wire w) = Some (R', lay [] (rtp_hdr_bytes hdr @ pkt) post2 0, 0)"
    "linked key rtpSsrc (Suc n) S' R'"
    using linked_packet [OF assms(1,2) _ assms(3) ok f(2) post, unfolded f(1), OF assms(9), of "env_mem senv" pkt "recv_mem renv"]
    by (elim exE conjE) (rule that)
  obtain A' loc' where snd: "rawr_Call_RtpSendThread_round op cr senv (A, loc) = Some (Send_next (A', loc'), Some w)"
    "srtpTransmitContext A' = Some S'" "rtpSeq loc' = rtpSeq loc + 1" using rnd [OF pk(2)] by blast
  obtain B' s' where rcv: "rawr_Call_OnUdpRecv op cr renv (of_wire w) B = Some (B', Recv_played)"
    "srtpReceiveContext B' = Some R'" "call_stream B' = Live s'" "queued s' = queued s @ elems 2 pcm 960" "captured s' = captured s"
    using recv_plays [OF assms(7) _ assms(8) ok f(3) pk(1,3)] assms(4) by (auto simp: speaks_def rawr_defs)
  have "rtpSeq loc' = of_nat (Suc n)" using snd(3) assms(5) by (simp add: add.commute)
  then show ?thesis
    using snd(1,2) rcv pk(4) by (intro exI conjI) assumption+
qed

lemma captured_frame:
  "\<exists>cap s. stream_ok cap s \<and> sampleCount s = 960 \<and> captured s = elems 2 (replicate 1920 1) 960 \<and> queued s = [] \<and> 960 \<le> cap"
proof -
  obtain s k where s: "stream_ok (2 ^ k) s" "queued s = []" "captured s = []" "sampleCount s = 960" using demo_stream_ready by blast
  have cap: "960 \<le> (2 :: nat) ^ k" using s(1,4) by (auto elim!: stream_okE)
  obtain s' where "stream_ok (2 ^ k) s'" "sampleCount s' = 960" "queued s' = []" "captured s' = elems 2 (replicate 1920 1) 960"
    using Callback_frame [OF s(1), of 960 "replicate 1920 1" "replicate 1920 0"] s cap by (auto simp: min_def)
  then show ?thesis using cap by blast
qed

theorem voice_frame_delivered_witness:
  "\<exists>op senv renv A loc A' loc' w B B' s'.
     rawr_Call_RtpSendThread_round op demo_crypto senv (A, loc) = Some (Send_next (A', loc'), Some w)
   \<and> rawr_Call_OnUdpRecv op demo_crypto renv (of_wire w) B = Some (B', Recv_played)
   \<and> call_stream B' = Live s' \<and> queued s' = elems 2 (replicate 1920 0) 960 \<and> op = demo_opus"
proof -
  obtain cap s where s: "stream_ok cap s" "sampleCount s = 960" "captured s = elems 2 (replicate 1920 1) 960" "queued s = []" "960 \<le> cap"
    using captured_frame by blast
  have cl: "length (captured s) = 960" by (simp add: s(3) elems_def)
  have fr: "concat (take 960 (captured s)) = replicate 1920 1" using cl by (simp add: s(3) concat_elems)
  obtain S where S: "srtp_alloc demo_crypto True SRTP_AES_CM_128_HMAC_SHA1_80 (replicate 30 7) False = Inr S"
    by (simp add: srtp_alloc_def comp_init_def srtp_derive_def demo_crypto_def comp_zero_def Let_def rawr_defs)
  have lk: "linked (\<lambda>(k, _). Some k) rtpSsrc 1024 S S"
    by (rule alloc_ctr [OF S _ demo_laws(3)]) (simp_all add: linked_fresh)
  let ?cdc = "demo_codec\<lparr>codec_frameSize := 960, codec_priv := Some \<lparr>opus_enc = Some (), opus_dec = Some ()\<rparr>\<rparr>"
  let ?A = "zero_call\<lparr>call_stream := Live s, call_encoder := Live ?cdc, call_decoder := Live ?cdc, reRtpSock := Live (),
      reSdpMedia := Live [], srtpTransmitContext := Some S, srtpReceiveContext := Some S\<rparr>"
  let ?loc = "\<lparr>re_mb = \<lparr>mb_buf = replicate 1500 0, mb_pos = 0, mb_end = 0\<rparr>, rtp_type = 0x74, rtpSeq = 1024, tstamp_last = 0,
      last_recv_count = 0, recv_stasis = 0\<rparr>"
  let ?senv = "\<lparr>env_device = [\<lambda>x. x], env_mem = \<lambda>_. True, env_strm = True, env_udp = 0, env_now = 0, env_junk = hdr_local\<rparr>"
  let ?renv = "\<lparr>recv_device = [\<lambda>x. x], recv_mem = \<lambda>_. True, recv_strm = True, recv_now = (0, 0)\<rparr>"
  have sp: "speaks demo_opus ?senv ?A ?loc (replicate 1920 1) (replicate 3 1)"
    unfolding speaks_def using s cl fr by (auto simp: demo_opus_def zero_call_def hdr_local_def rawr_defs)
  have he: "hears demo_opus ?renv ?A (replicate 3 1) (replicate 1920 0) s"
    unfolding hears_def using s by (auto simp: demo_opus_def zero_call_def)
  have "\<exists>A' loc' w B' s' S' R'.
      rawr_Call_RtpSendThread_round demo_opus demo_crypto ?senv (?A, ?loc) = Some (Send_next (A', loc'), Some w)
    \<and> rawr_Call_OnUdpRecv demo_opus demo_crypto ?renv (of_wire w) ?A = Some (B', Recv_played)
    \<and> call_stream B' = Live s' \<and> queued s' = queued s @ elems 2 (replicate 1920 0) 960 \<and> captured s' = captured s
    \<and> rtpSeq loc' = of_nat (Suc 1024) \<and> srtpTransmitContext A' = Some S' \<and> srtpReceiveContext B' = Some R'
    \<and> linked (\<lambda>(k, _). Some k) rtpSsrc (Suc 1024) S' R'"
    by (rule voice_frame_delivered [OF demo_laws(1,2) _ sp _ _ he _ lk]) simp_all
  then show ?thesis using s(4) by (elim exE conjE) (intro exI conjI, assumption, assumption, assumption, simp, rule refl)
qed

text \<open>
  (C24) The array that receives captured samples is shorter than a frame: reading a frame of 960 samples
  into it overwrites the first 420 bytes of the array of decoded samples, which the receiving handler
  may be about to play.
\<close>

theorem capture_overwrites_playback:
  assumes "stream_ok cap s" and "sampleCount s = 960" and "960 \<le> length (captured s)" and "call_ok c"
  shows "\<exists>s' smp. poll_read [\<lambda>s. s] s (samples c) = Some (s', smp, 960)
     \<and> take 420 (drop outputSamples_at smp) = drop outputSamples_at (concat (take 960 (captured s)))"
proof -
  have sz: "length (samples c) = 13020" using assms(4) by (simp add: call_ok_def rawr_defs)
  obtain s' where "rawr_AudioStream_Read s (samples c) = Some (s', concat (take 960 (captured s)) @ drop 1920 (samples c), 960)"
    using Read_frame [OF assms(1) refl, of "samples c"] assms(2,3) sz by auto
  then show ?thesis using length_frame [OF assms(1,3)] by (simp add: rawr_defs)
qed

theorem capture_overwrites_playback_witness:
  "\<exists>s s' smp. poll_read [\<lambda>s. s] s (samples (zero_call :: (unit, unit, unit, unit) rawr_Call)) = Some (s', smp, 960)
     \<and> take 420 (drop outputSamples_at smp) = replicate 420 1"
proof -
  obtain cap s where s: "stream_ok cap s" "sampleCount s = 960" "captured s = elems 2 (replicate 1920 1) 960"
    using captured_frame by blast
  have cl: "length (captured s) = 960" by (simp add: s(3) elems_def)
  have "concat (take 960 (captured s)) = replicate 1920 1" using cl by (simp add: s(3) concat_elems)
  then show ?thesis
    using capture_overwrites_playback [OF s(1,2) _ zero_call_ok] cl by (auto simp: rawr_defs)
qed

end
