(* ===== verification/ByteBuf.thy ===== *)
theory ByteBuf
  imports Bytes
begin

text \<open>
  The part of \<^verbatim>\<open>deps/aws-c-common/source/byte_buf.c\<close> that the buffers of \<^verbatim>\<open>deps/mn\<close> are made of: byte buffers and
  cursors, with the bounds checks and the branch-free mask of the reads. Memory is a store from
  addresses to bytes, defined on what is allocated; a pointer is an address and the null
  pointer is 0. \<open>None\<close> is a failed precondition or an access to memory that is not allocated.
\<close>

section \<open>Memory\<close>

type_synonym heap = "u64 \<rightharpoonup> u8"

fun heap_load :: "heap \<Rightarrow> u64 \<Rightarrow> nat \<Rightarrow> bytes option" where
  "heap_load h a 0 = Some []"
| "heap_load h a (Suc n) = do { b \<leftarrow> h a; bs \<leftarrow> heap_load h (a + 1) n; Some (b # bs) }"

fun heap_store :: "heap \<Rightarrow> u64 \<Rightarrow> bytes \<Rightarrow> heap option" where
  "heap_store h a [] = Some h"
| "heap_store h a (b # bs) = (if h a = None then None else heap_store (h(a \<mapsto> b)) (a + 1) bs)"

text \<open>The addresses of \<open>n\<close> bytes from \<open>a\<close> on, and what is stored there.\<close>

definition range_of :: "u64 \<Rightarrow> nat \<Rightarrow> u64 set" where
  "range_of a n = (\<lambda>i. a + of_nat i) ` {..<n}"

definition bytes_at :: "heap \<Rightarrow> u64 \<Rightarrow> nat \<Rightarrow> bytes" where
  "bytes_at h a n = map (\<lambda>i. the (h (a + of_nat i))) [0..<n]"

section \<open>Byte order\<close>

text \<open>The byte orders of \<^verbatim>\<open>include/aws/common/byte_order.inl\<close> on the little-endian host.\<close>

definition aws_hton64 :: "u64 \<Rightarrow> u64" where
  "aws_hton64 x =
     (let low = ucast (x AND 0xFFFFFFFF) :: u32; high = ucast (drop_bit 32 x) :: u32
      in push_bit 32 (ucast (htonl low)) OR ucast (htonl high))"

definition aws_ntoh64 :: "u64 \<Rightarrow> u64" where "aws_ntoh64 x = aws_hton64 x"
definition aws_hton32 :: "u32 \<Rightarrow> u32" where "aws_hton32 x = htonl x"
definition aws_ntoh32 :: "u32 \<Rightarrow> u32" where "aws_ntoh32 x = ntohl x"
definition aws_hton16 :: "u16 \<Rightarrow> u16" where "aws_hton16 x = htons x"
definition aws_ntoh16 :: "u16 \<Rightarrow> u16" where "aws_ntoh16 x = ntohs x"

lemmas aws_order [rawr_defs] = aws_ntoh64_def aws_hton32_def aws_ntoh32_def aws_hton16_def aws_ntoh16_def

section \<open>Buffers and cursors\<close>

record aws_byte_buf =
  bb_len :: size_t
  bb_buffer :: u64
  bb_capacity :: size_t
  bb_allocator :: u64

record aws_byte_cursor =
  cur_len :: size_t
  cur_ptr :: u64

definition SIZE_MAX :: size_t where "SIZE_MAX = -1"

definition AWS_MEM_IS_READABLE :: "u64 \<Rightarrow> size_t \<Rightarrow> bool" where
  "AWS_MEM_IS_READABLE base len \<longleftrightarrow> len = 0 \<or> base \<noteq> 0"

definition aws_byte_buf_is_valid :: "aws_byte_buf \<Rightarrow> bool" where
  "aws_byte_buf_is_valid buf \<longleftrightarrow>
     (bb_capacity buf = 0 \<and> bb_len buf = 0 \<and> bb_buffer buf = 0)
     \<or> (bb_capacity buf > 0 \<and> bb_len buf \<le> bb_capacity buf \<and> AWS_MEM_IS_READABLE (bb_buffer buf) (bb_capacity buf))"

definition aws_byte_cursor_is_valid :: "aws_byte_cursor \<Rightarrow> bool" where
  "aws_byte_cursor_is_valid cursor \<longleftrightarrow>
     cur_len cursor = 0
     \<or> (cur_len cursor > 0 \<and> cur_ptr cursor \<noteq> 0 \<and> AWS_MEM_IS_READABLE (cur_ptr cursor) (cur_len cursor))"

definition aws_byte_buf_from_empty_array :: "u64 \<Rightarrow> size_t \<Rightarrow> aws_byte_buf option" where
  "aws_byte_buf_from_empty_array src capacity = do {
     guard (AWS_MEM_IS_READABLE src capacity);
     Some \<lparr>bb_len = 0, bb_buffer = (if capacity > 0 then src else 0), bb_capacity = capacity, bb_allocator = 0\<rparr>
   }"

definition aws_byte_cursor_from_buf :: "aws_byte_buf \<Rightarrow> aws_byte_cursor option" where
  "aws_byte_cursor_from_buf buf = do {
     guard (aws_byte_buf_is_valid buf);
     Some \<lparr>cur_len = bb_len buf, cur_ptr = bb_buffer buf\<rparr>
   }"

definition aws_nospec_mask :: "size_t \<Rightarrow> size_t \<Rightarrow> size_t" where
  "aws_nospec_mask index bound =
     (let negative_mask = index OR bound;
          toobig_mask = bound - index - 1;
          combined_mask = negative_mask OR toobig_mask;
          combined_mask = (NOT combined_mask) div (SIZE_MAX - drop_bit 1 SIZE_MAX)
      in combined_mask * SIZE_MAX)"

definition aws_byte_cursor_advance :: "aws_byte_cursor \<Rightarrow> size_t \<Rightarrow> (aws_byte_cursor \<times> aws_byte_cursor) option" where
  "aws_byte_cursor_advance cursor len = do {
     guard (aws_byte_cursor_is_valid cursor);
     Some (if cur_len cursor > drop_bit 1 SIZE_MAX \<or> len > drop_bit 1 SIZE_MAX \<or> len > cur_len cursor
           then (cursor, \<lparr>cur_len = 0, cur_ptr = 0\<rparr>)
           else (\<lparr>cur_len = cur_len cursor - len, cur_ptr = cur_ptr cursor + len\<rparr>,
                 \<lparr>cur_len = len, cur_ptr = cur_ptr cursor\<rparr>))
   }"

definition aws_byte_cursor_advance_nospec :: "aws_byte_cursor \<Rightarrow> size_t \<Rightarrow> (aws_byte_cursor \<times> aws_byte_cursor) option" where
  "aws_byte_cursor_advance_nospec cursor len = do {
     guard (aws_byte_cursor_is_valid cursor);
     Some (if len \<le> cur_len cursor \<and> len \<le> drop_bit 1 SIZE_MAX \<and> cur_len cursor \<le> drop_bit 1 SIZE_MAX
           then (let mask = aws_nospec_mask len (cur_len cursor + 1);
                     len = len AND mask;
                     cursor = cursor\<lparr>cur_ptr := cur_ptr cursor AND mask\<rparr>;
                     cursor = cursor\<lparr>cur_len := cur_len cursor AND mask\<rparr>;
                     rv = \<lparr>cur_len = len AND mask, cur_ptr = cur_ptr cursor\<rparr>
                 in (cursor\<lparr>cur_ptr := cur_ptr cursor + len, cur_len := cur_len cursor - len\<rparr>, rv))
           else (cursor, \<lparr>cur_len = 0, cur_ptr = 0\<rparr>))
   }"

text \<open>The reads give the bytes copied to the destination, or \<open>None\<close> inside the pair when the result is false.\<close>

definition aws_byte_cursor_read :: "heap \<Rightarrow> aws_byte_cursor \<Rightarrow> size_t \<Rightarrow> (aws_byte_cursor \<times> bytes option) option" where
  "aws_byte_cursor_read h cur len = do {
     guard (aws_byte_cursor_is_valid cur);
     if len = 0 then Some (cur, Some [])
     else do {
       (cur, slice) \<leftarrow> aws_byte_cursor_advance_nospec cur len;
       if cur_ptr slice \<noteq> 0 then do { bs \<leftarrow> heap_load h (cur_ptr slice) (unat len); Some (cur, Some bs) }
       else Some (cur, None)
     }
   }"

definition aws_byte_cursor_read_u8 :: "heap \<Rightarrow> aws_byte_cursor \<Rightarrow> (aws_byte_cursor \<times> u8 option) option" where
  "aws_byte_cursor_read_u8 h cur = do {
     (cur, r) \<leftarrow> aws_byte_cursor_read h cur 1;
     Some (cur, map_option (\<lambda>bs. bs ! 0) r)
   }"

definition aws_byte_cursor_read_be16 :: "heap \<Rightarrow> aws_byte_cursor \<Rightarrow> (aws_byte_cursor \<times> u16 option) option" where
  "aws_byte_cursor_read_be16 h cur = do {
     (cur, r) \<leftarrow> aws_byte_cursor_read h cur 2;
     Some (cur, map_option (\<lambda>bs. aws_ntoh16 (le16_of bs)) r)
   }"

definition aws_byte_cursor_read_be32 :: "heap \<Rightarrow> aws_byte_cursor \<Rightarrow> (aws_byte_cursor \<times> u32 option) option" where
  "aws_byte_cursor_read_be32 h cur = do {
     (cur, r) \<leftarrow> aws_byte_cursor_read h cur 4;
     Some (cur, map_option (\<lambda>bs. aws_ntoh32 (le32_of bs)) r)
   }"

definition aws_byte_cursor_read_be64 :: "heap \<Rightarrow> aws_byte_cursor \<Rightarrow> (aws_byte_cursor \<times> u64 option) option" where
  "aws_byte_cursor_read_be64 h cur = do {
     (cur, r) \<leftarrow> aws_byte_cursor_read h cur 8;
     Some (cur, map_option (\<lambda>bs. aws_ntoh64 (le64_of bs)) r)
   }"

text \<open>\<open>src\<close> is what loading \<open>len\<close> bytes from the source gives; it is looked at only when the copy takes place.\<close>

definition aws_byte_buf_write :: "heap \<Rightarrow> aws_byte_buf \<Rightarrow> bytes option \<Rightarrow> size_t \<Rightarrow> (heap \<times> aws_byte_buf \<times> bool) option" where
  "aws_byte_buf_write h buf src len = do {
     guard (aws_byte_buf_is_valid buf);
     if len = 0 then Some (h, buf, True)
     else if bb_len buf > drop_bit 1 SIZE_MAX \<or> len > drop_bit 1 SIZE_MAX \<or> bb_len buf + len > bb_capacity buf
     then Some (h, buf, False)
     else do {
       bs \<leftarrow> src;
       h \<leftarrow> heap_store h (bb_buffer buf + bb_len buf) bs;
       Some (h, buf\<lparr>bb_len := bb_len buf + len\<rparr>, True)
     }
   }"

definition aws_byte_buf_write_u8 :: "heap \<Rightarrow> aws_byte_buf \<Rightarrow> u8 \<Rightarrow> (heap \<times> aws_byte_buf \<times> bool) option" where
  "aws_byte_buf_write_u8 h buf c = do { guard (aws_byte_buf_is_valid buf); aws_byte_buf_write h buf (Some [c]) 1 }"

definition aws_byte_buf_write_be16 :: "heap \<Rightarrow> aws_byte_buf \<Rightarrow> u16 \<Rightarrow> (heap \<times> aws_byte_buf \<times> bool) option" where
  "aws_byte_buf_write_be16 h buf x = do {
     guard (aws_byte_buf_is_valid buf); aws_byte_buf_write h buf (Some (le16 (aws_hton16 x))) 2 }"

definition aws_byte_buf_write_be32 :: "heap \<Rightarrow> aws_byte_buf \<Rightarrow> u32 \<Rightarrow> (heap \<times> aws_byte_buf \<times> bool) option" where
  "aws_byte_buf_write_be32 h buf x = do {
     guard (aws_byte_buf_is_valid buf); aws_byte_buf_write h buf (Some (le32 (aws_hton32 x))) 4 }"

definition aws_byte_buf_write_be64 :: "heap \<Rightarrow> aws_byte_buf \<Rightarrow> u64 \<Rightarrow> (heap \<times> aws_byte_buf \<times> bool) option" where
  "aws_byte_buf_write_be64 h buf x = do {
     guard (aws_byte_buf_is_valid buf); aws_byte_buf_write h buf (Some (le64 (aws_hton64 x))) 8 }"

section \<open>Loads and stores\<close>

lemma unat_offset: "unat (a :: u64) + n < 2 ^ 64 \<Longrightarrow> unat (a + of_nat n) = unat a + n"
  by (simp add: unat_word_ariths unat_of_nat)

lemma range_of_0 [simp]: "range_of a 0 = {}"
  by (simp add: range_of_def)

lemma range_of_Suc: "range_of a (Suc n) = insert a (range_of (a + 1) n)"
proof -
  have "{..<Suc n} = insert 0 (Suc ` {..<n})" by (auto simp: image_iff less_Suc_eq_0_disj)
  then show ?thesis by (simp add: range_of_def image_image add.assoc)
qed

lemma bytes_at_0 [simp]: "bytes_at h a 0 = []"
  by (simp add: bytes_at_def)

lemma length_bytes_at [simp]: "length (bytes_at h a n) = n"
  by (simp add: bytes_at_def)

lemma bytes_at_Suc: "bytes_at h a (Suc n) = the (h a) # bytes_at h (a + 1) n"
  unfolding bytes_at_def upt_conv_Cons [OF zero_less_Suc] by (simp add: map_Suc_upt [symmetric] add.assoc del: upt_Suc)

lemma bytes_at_add: "bytes_at h a (j + n) = bytes_at h a j @ bytes_at h (a + of_nat j) n"
  by (induction j arbitrary: a) (simp_all add: bytes_at_Suc add.assoc)

lemma bytes_at_cong: "(\<And>x. x \<in> range_of a n \<Longrightarrow> h x = h' x) \<Longrightarrow> bytes_at h a n = bytes_at h' a n"
  by (simp add: bytes_at_def range_of_def)

lemma take_bytes_at: "j \<le> n \<Longrightarrow> take j (bytes_at h a n) = bytes_at h a j"
  using bytes_at_add [of h a j "n - j"] by simp

lemma drop_bytes_at: "j \<le> n \<Longrightarrow> drop j (bytes_at h a n) = bytes_at h (a + of_nat j) (n - j)"
  using bytes_at_add [of h a j "n - j"] by simp

lemma heap_load_eq: "range_of a n \<subseteq> dom h \<Longrightarrow> heap_load h a n = Some (bytes_at h a n)"
  by (induction n arbitrary: a) (auto simp: range_of_Suc bytes_at_Suc)

lemma range_of_sub: "j + n \<le> k \<Longrightarrow> range_of (a + of_nat j) n \<subseteq> range_of a k"
proof (auto simp: range_of_def)
  fix i assume "j + n \<le> k" "i < n"
  then show "a + of_nat j + of_nat i \<in> (\<lambda>i. a + of_nat i) ` {..<k}"
    by (intro image_eqI [of _ _ "j + i"]) (auto simp: add.assoc)
qed

lemma range_of_iff:
  assumes "unat a + n \<le> 2 ^ 64"
  shows "x \<in> range_of a n \<longleftrightarrow> unat a \<le> unat x \<and> unat x < unat a + n"
proof
  assume "x \<in> range_of a n"
  then obtain i where i: "i < n" "x = a + of_nat i" by (auto simp: range_of_def)
  then have "unat x = unat a + i" using assms by (simp add: unat_offset)
  then show "unat a \<le> unat x \<and> unat x < unat a + n" using i by simp
next
  assume r: "unat a \<le> unat x \<and> unat x < unat a + n"
  have "x = a + of_nat (unat x - unat a)"
    using r by (simp add: of_nat_diff)
  moreover have "unat x - unat a \<in> {..<n}" using r by auto
  ultimately show "x \<in> range_of a n" unfolding range_of_def by (rule image_eqI)
qed

lemma heap_store_outside:
  "heap_store h a bs = Some h' \<Longrightarrow> x \<notin> range_of a (length bs) \<Longrightarrow> h' x = h x"
  by (induction h a bs rule: heap_store.induct) (auto simp: range_of_Suc split: if_splits)

lemma heap_store_dom: "heap_store h a bs = Some h' \<Longrightarrow> dom h' = dom h"
  by (induction h a bs rule: heap_store.induct) (auto split: if_splits)

lemma heap_store_ok: "range_of a (length bs) \<subseteq> dom h \<Longrightarrow> \<exists>h'. heap_store h a bs = Some h'"
  by (induction h a bs rule: heap_store.induct) (auto simp: range_of_Suc)

lemma heap_store_inside:
  "heap_store h a bs = Some h' \<Longrightarrow> unat a + length bs \<le> 2 ^ 64 \<Longrightarrow> bytes_at h' a (length bs) = bs"
proof (induction bs arbitrary: h a)
  case (Cons b bs)
  then have st: "heap_store (h(a \<mapsto> b)) (a + 1) bs = Some h'" by (simp split: if_splits)
  show ?case
  proof (cases "bs = []")
    case True
    then show ?thesis using st by (auto simp: bytes_at_Suc)
  next
    case False
    then have u: "unat (a + 1) = unat a + 1" using Cons.prems(2)
      by (cases bs) (simp_all add: unat_word_ariths)
    then have r: "unat (a + 1) + length bs \<le> 2 ^ 64" using Cons.prems(2) by simp
    then have "a \<notin> range_of (a + 1) (length bs)" using u by (simp add: range_of_iff)
    then have "h' a = Some b" using heap_store_outside [OF st] by simp
    then show ?thesis using Cons.IH [OF st r] by (simp add: bytes_at_Suc)
  qed
qed simp

section \<open>Byte order of 64-bit integers\<close>

lemma le64_hton: "le64 (aws_hton64 x) = rev (le64 x)"
proof -
  have lo: "ucast (x AND 0xFFFFFFFF) = (ucast x :: u32)"
  proof (rule bit_word_eqI)
    fix n assume "n < LENGTH(32)"
    moreover have m: "(0xFFFFFFFF :: u64) = mask 32" by (simp add: mask_eq_exp_minus_1)
    ultimately show "bit (ucast (x AND 0xFFFFFFFF) :: u32) n = bit (ucast x :: u32) n"
      unfolding m by (auto simp: bit_simps)
  qed
  have "ucast (aws_hton64 x) = htonl (ucast (drop_bit 32 x))"
    "ucast (drop_bit 32 (aws_hton64 x)) = htonl (ucast x)"
    unfolding aws_hton64_def Let_def lo
    by (rule bit_word_eqI, auto simp: bit_simps dest: bit_imp_le_length)+
  then show ?thesis by (simp add: le64_def le_bswap be32_def)
qed

lemma ntoh_hton [simp]: "aws_ntoh64 (aws_hton64 x) = x"
  by (metis aws_ntoh64_def le64_hton le64_of_le64 rev_rev_ident)

section \<open>The mask of the reads\<close>

lemma half_max [simp]: "drop_bit (Suc 0) SIZE_MAX = 0x7FFFFFFFFFFFFFFF"
  by (simp add: SIZE_MAX_def mask_eq_exp_minus_1)

lemma top_bit: "bit (x :: u64) 63 \<longleftrightarrow> x > drop_bit 1 SIZE_MAX"
proof -
  have "bit x 63 \<longleftrightarrow> odd (unat x div 2 ^ 63)"
    unfolding bit_iff_odd [of "unat x" 63, symmetric] by (simp add: bit_unsigned_iff)
  moreover have "unat x div 2 ^ 63 = (if 2 ^ 63 \<le> unat x then 1 else 0)"
    using unat_lt64 [of x] by (auto intro: div_nat_eqI)
  ultimately show ?thesis by (simp add: word_less_nat_alt)
qed

lemma nospec_mask:
  "aws_nospec_mask index bound = (if bit (index OR bound OR (bound - index - 1)) 63 then 0 else -1)"
proof -
  have t: "SIZE_MAX - drop_bit 1 SIZE_MAX = (2 ^ 63 :: u64)" unfolding One_nat_def half_max by (simp add: SIZE_MAX_def)
  have "(y :: u64) div 2 ^ 63 = of_bool (bit y 63)" for y
  proof -
    have "drop_bit 63 y = of_bool (bit y 63)"
    proof (rule bit_word_eqI)
      fix n assume "n < LENGTH(64)"
      then show "bit (drop_bit 63 y) n = bit (of_bool (bit y 63) :: u64) n"
        using bit_imp_le_length [of y "63 + n"] by (cases n) (auto simp: bit_simps)
    qed
    then show ?thesis by (simp add: drop_bit_eq_div)
  qed
  then show ?thesis
    unfolding aws_nospec_mask_def Let_def t by (simp add: bit_simps SIZE_MAX_def)
qed

lemma nospec_mask_in:
  assumes "len \<le> k" and "k < drop_bit 1 SIZE_MAX"
  shows "aws_nospec_mask len (k + 1) = -1"
proof -
  have "k < 2 ^ 63 - 1" using assms(2) by simp
  then have b: "unat k < 2 ^ 63 - 1" "unat len \<le> unat k" using assms(1)
    by (simp_all add: word_less_nat_alt word_le_nat_alt)
  then have "unat (k + 1) = unat k + 1" by (simp add: unat_word_ariths)
  moreover have "k + 1 - len - 1 = k - len" by simp
  moreover have "unat (k - len) \<le> unat k" using assms(1) by (simp add: word_nat)
  ultimately have "\<not> bit len 63" "\<not> bit (k + 1) 63" "\<not> bit (k + 1 - len - 1) 63"
    using b by (simp_all add: top_bit word_less_nat_alt)
  then show ?thesis by (simp add: nospec_mask bit_simps)
qed

lemma nospec_mask_edge: "aws_nospec_mask len 0x8000000000000000 = 0"
proof -
  have "bit (0x8000000000000000 :: u64) 63" by simp
  then show ?thesis by (simp add: nospec_mask bit_simps)
qed

lemma advance_nospec_eq:
  assumes ne: "cur_len c \<noteq> drop_bit 1 SIZE_MAX"
  shows "aws_byte_cursor_advance_nospec c len = aws_byte_cursor_advance c len"
proof (cases "len \<le> cur_len c \<and> cur_len c \<le> drop_bit 1 SIZE_MAX")
  case True
  then have "len \<le> drop_bit 1 SIZE_MAX" by (auto intro: order_trans)
  moreover have "aws_nospec_mask len (cur_len c + 1) = -1" using True ne by (intro nospec_mask_in) auto
  ultimately show ?thesis using True
    by (auto simp: aws_byte_cursor_advance_nospec_def aws_byte_cursor_advance_def Let_def)
next
  case False
  then show ?thesis
    by (auto simp: aws_byte_cursor_advance_nospec_def aws_byte_cursor_advance_def)
qed

text \<open>
  (C22) The read that guards against speculation does what the plain one does, whatever the length asked for, with one
  exception: on a cursor of exactly \<^verbatim>\<open>SIZE_MAX >> 1\<close> bytes, which the plain one still advances, its
  bound has the sign bit set; the mask is zero, nothing is returned and the cursor is emptied.
\<close>

theorem advance_nospec_equiv:
  "(cur_len c \<noteq> drop_bit 1 SIZE_MAX \<longrightarrow> aws_byte_cursor_advance_nospec c len = aws_byte_cursor_advance c len)
   \<and> (cur_len c = drop_bit 1 SIZE_MAX \<and> cur_ptr c \<noteq> 0 \<and> len \<le> cur_len c \<longrightarrow>
        aws_byte_cursor_advance_nospec c len = Some (c\<lparr>cur_len := 0, cur_ptr := 0\<rparr>, \<lparr>cur_len = 0, cur_ptr = 0\<rparr>)
        \<and> aws_byte_cursor_advance c len
            = Some (c\<lparr>cur_len := cur_len c - len, cur_ptr := cur_ptr c + len\<rparr>, \<lparr>cur_len = len, cur_ptr = cur_ptr c\<rparr>))"
proof (intro conjI impI)
  assume "cur_len c \<noteq> drop_bit 1 SIZE_MAX"
  then show "aws_byte_cursor_advance_nospec c len = aws_byte_cursor_advance c len" by (rule advance_nospec_eq)
next
  assume "cur_len c = drop_bit 1 SIZE_MAX \<and> cur_ptr c \<noteq> 0 \<and> len \<le> cur_len c"
  then have c: "cur_len c = drop_bit 1 SIZE_MAX" "cur_ptr c \<noteq> 0" "len \<le> drop_bit 1 SIZE_MAX" by auto
  then have v: "aws_byte_cursor_is_valid c"
    by (auto simp: aws_byte_cursor_is_valid_def AWS_MEM_IS_READABLE_def word_neq_0_conv)
  show "aws_byte_cursor_advance_nospec c len = Some (c\<lparr>cur_len := 0, cur_ptr := 0\<rparr>, \<lparr>cur_len = 0, cur_ptr = 0\<rparr>)"
    using c v by (simp add: aws_byte_cursor_advance_nospec_def Let_def nospec_mask_edge aws_byte_cursor.equality)
  show "aws_byte_cursor_advance c len
      = Some (c\<lparr>cur_len := cur_len c - len, cur_ptr := cur_ptr c + len\<rparr>, \<lparr>cur_len = len, cur_ptr = cur_ptr c\<rparr>)"
    using c v by (simp add: aws_byte_cursor_advance_def)
qed

theorem advance_nospec_equiv_witness:
  "aws_byte_cursor_advance_nospec \<lparr>cur_len = 9, cur_ptr = 100\<rparr> 4 = Some (\<lparr>cur_len = 5, cur_ptr = 104\<rparr>, \<lparr>cur_len = 4, cur_ptr = 100\<rparr>)
   \<and> aws_byte_cursor_advance_nospec \<lparr>cur_len = drop_bit 1 SIZE_MAX, cur_ptr = 100\<rparr> 4 = Some (\<lparr>cur_len = 0, cur_ptr = 0\<rparr>, \<lparr>cur_len = 0, cur_ptr = 0\<rparr>)"
  using advance_nospec_equiv [of "\<lparr>cur_len = 9, cur_ptr = 100\<rparr>" 4] advance_nospec_equiv [of "\<lparr>cur_len = drop_bit 1 SIZE_MAX, cur_ptr = 100\<rparr>" 4]
  by (simp add: aws_byte_cursor_advance_def aws_byte_cursor_is_valid_def AWS_MEM_IS_READABLE_def)

end
