(* ===== verification/QueueSpsc.thy ===== *)
theory QueueSpsc
  imports Util Fifo
begin

text \<open>
  \<^verbatim>\<open>deps/mn/src/queue_spsc.c\<close>: a queue of pointers between two threads, with 64-bit counters that run freely
  and wrap around. The theory has every operation, the invariant, and the queue as another
  provider of the contract of \<open>Fifo\<close>. \<open>None\<close> is a failed assertion or an access outside the buffer.
\<close>

section \<open>Operations\<close>

definition MN_SUCCESS :: int where "MN_SUCCESS = 0"
definition MN_ERROR :: int where "MN_ERROR = -1"
definition MN_QUEUE_EMPTY :: int where "MN_QUEUE_EMPTY = -100"
definition MN_QUEUE_FULL :: int where "MN_QUEUE_FULL = -101"

lemmas mn_codes [rawr_defs] = MN_SUCCESS_def MN_ERROR_def MN_QUEUE_EMPTY_def MN_QUEUE_FULL_def

record mn_queue_spsc =
  q_capacity :: u64
  q_mask :: u64
  q_buffer :: "u64 list"
  q_head :: u64
  q_tail :: u64
  q_tail_cache :: u64

definition round_capacity :: "u64 \<Rightarrow> u64" where
  "round_capacity capacity =
     (if capacity AND (capacity - 1) \<noteq> 0 then
        (let capacity = capacity - 1;
             capacity = capacity OR drop_bit 1 capacity;
             capacity = capacity OR drop_bit 2 capacity;
             capacity = capacity OR drop_bit 4 capacity;
             capacity = capacity OR drop_bit 8 capacity;
             capacity = capacity OR drop_bit 16 capacity;
             capacity = capacity OR drop_bit 32 capacity
         in capacity + 1)
      else capacity)"

text \<open>\<open>mem\<close> is the outcome of the allocation and \<open>junk\<close> what the new memory holds; its size is computed in 64 bits.\<close>

definition mn_queue_spsc_setup :: "bool \<Rightarrow> (nat \<Rightarrow> u64) \<Rightarrow> mn_queue_spsc \<Rightarrow> u64 \<Rightarrow> (mn_queue_spsc \<times> int) option" where
  "mn_queue_spsc_setup mem junk q capacity = do {
     guard (capacity > 0);
     let capacity = round_capacity capacity in do {
       guard (capacity AND (capacity - 1) = 0);
       if \<not> mem then Some (q\<lparr>q_buffer := []\<rparr>, MN_ERROR)
       else (let bytes = 8 * (1 + capacity) in
         Some (q\<lparr>q_buffer := map junk [0..<unat bytes div 8], q_head := 0, q_tail := 0, q_tail_cache := 0,
                 q_capacity := capacity, q_mask := capacity - 1\<rparr>, MN_SUCCESS))
     }
   }"

definition mn_queue_spsc_count :: "mn_queue_spsc \<Rightarrow> u64" where
  "mn_queue_spsc_count q = q_head q - q_tail q"

definition mn_queue_spsc_capacity :: "mn_queue_spsc \<Rightarrow> u64" where
  "mn_queue_spsc_capacity q = q_capacity q"

definition mn_queue_spsc_empty :: "mn_queue_spsc \<Rightarrow> bool" where
  "mn_queue_spsc_empty q \<longleftrightarrow> mn_queue_spsc_count q = 0"

definition mn_queue_spsc_full :: "mn_queue_spsc \<Rightarrow> bool" where
  "mn_queue_spsc_full q \<longleftrightarrow> mn_queue_spsc_count q = q_capacity q"

text \<open>The entry of a counter value.\<close>

definition slot_of :: "mn_queue_spsc \<Rightarrow> u64 \<Rightarrow> nat" where
  "slot_of q i = unat (i AND q_mask q)"

definition load_slot :: "mn_queue_spsc \<Rightarrow> u64 \<Rightarrow> u64 option" where
  "load_slot q i = (if slot_of q i < length (q_buffer q) then Some (q_buffer q ! slot_of q i) else None)"

definition mn_queue_spsc_push :: "mn_queue_spsc \<Rightarrow> u64 \<Rightarrow> (mn_queue_spsc \<times> int) option" where
  "mn_queue_spsc_push q ptr =
     (let head = q_head q; tail = q_tail q; sz = head - tail in
      if sz = q_capacity q then Some (q, MN_QUEUE_FULL)
      else do {
        guard (slot_of q head < length (q_buffer q));
        Some (q\<lparr>q_buffer := (q_buffer q)[slot_of q head := ptr], q_head := head + 1\<rparr>, MN_SUCCESS)
      })"

text \<open>The result pointer is null, here 0, when the queue is empty.\<close>

definition mn_queue_spsc_peek :: "mn_queue_spsc \<Rightarrow> (mn_queue_spsc \<times> u64 \<times> int) option" where
  "mn_queue_spsc_peek q =
     (let tail = q_tail q; head = q_head q in
      if head = tail then Some (q, 0, MN_QUEUE_EMPTY)
      else do { p \<leftarrow> load_slot q tail; Some (q\<lparr>q_tail_cache := tail\<rparr>, p, MN_SUCCESS) })"

definition mn_queue_spsc_pop :: "mn_queue_spsc \<Rightarrow> mn_queue_spsc \<times> int" where
  "mn_queue_spsc_pop q =
     (let tail = q_tail q; head = q_head q in
      if head = tail then (q, MN_QUEUE_EMPTY) else (q\<lparr>q_tail := tail + 1\<rparr>, MN_SUCCESS))"

definition mn_queue_spsc_pop_cached :: "mn_queue_spsc \<Rightarrow> mn_queue_spsc" where
  "mn_queue_spsc_pop_cached q = q\<lparr>q_tail := q_tail_cache q + 1\<rparr>"

definition mn_queue_spsc_pop_back :: "mn_queue_spsc \<Rightarrow> (mn_queue_spsc \<times> u64 \<times> int) option" where
  "mn_queue_spsc_pop_back q =
     (let tail = q_tail q; head = q_head q in
      if head = tail then Some (q, 0, MN_QUEUE_EMPTY)
      else do { p \<leftarrow> load_slot q tail; Some (q\<lparr>q_tail := tail + 1\<rparr>, p, MN_SUCCESS) })"

fun load_slots :: "mn_queue_spsc \<Rightarrow> u64 \<Rightarrow> nat \<Rightarrow> u64 list option" where
  "load_slots q tail 0 = Some []"
| "load_slots q tail (Suc n) = do {
     p \<leftarrow> load_slot q tail;
     ps \<leftarrow> load_slots q (tail + 1) n;
     Some (p # ps)
   }"

text \<open>The result has the entries written to the caller's array.\<close>

definition mn_queue_spsc_pop_all :: "mn_queue_spsc \<Rightarrow> u64 \<Rightarrow> (mn_queue_spsc \<times> u64 list \<times> u64 \<times> int) option" where
  "mn_queue_spsc_pop_all q out_count = do {
     guard (out_count > 0);
     let tail = q_tail q; head = q_head q; sz = head - tail in
     if sz = 0 then Some (q, [], out_count, MN_QUEUE_EMPTY)
     else (let out_count = (if sz < out_count then sz else out_count) in do {
       ps \<leftarrow> load_slots q tail (unat out_count);
       Some (q\<lparr>q_tail := tail + out_count\<rparr>, ps, out_count, MN_SUCCESS)
     })
   }"

section \<open>The invariant\<close>

definition q_cap :: "mn_queue_spsc \<Rightarrow> nat" where
  "q_cap q = unat (q_capacity q)"

definition q_used :: "mn_queue_spsc \<Rightarrow> nat" where
  "q_used q = unat (q_head q - q_tail q)"

definition q_inv :: "mn_queue_spsc \<Rightarrow> bool" where
  "q_inv q \<longleftrightarrow> (\<exists>k\<le>60. q_capacity q = 2 ^ k \<and> q_mask q = 2 ^ k - 1 \<and> length (q_buffer q) = 2 ^ k + 1)
     \<and> q_used q \<le> q_cap q"

definition q_at :: "mn_queue_spsc \<Rightarrow> u64 \<Rightarrow> u64" where
  "q_at q i = q_buffer q ! slot_of q i"

definition q_contents :: "mn_queue_spsc \<Rightarrow> u64 list" where
  "q_contents q = map (\<lambda>i. q_at q (q_tail q + of_nat i)) [0..<q_used q]"

lemma length_contents [simp]: "length (q_contents q) = q_used q"
  by (simp add: q_contents_def)

lemma q_invE:
  assumes "q_inv q"
  obtains k where "k \<le> 60" "q_capacity q = 2 ^ k" "q_mask q = 2 ^ k - 1" "length (q_buffer q) = 2 ^ k + 1"
    "q_cap q = 2 ^ k" "q_used q \<le> 2 ^ k"
proof -
  obtain k where k: "k \<le> 60" "q_capacity q = 2 ^ k" "q_mask q = 2 ^ k - 1" "length (q_buffer q) = 2 ^ k + 1" "q_used q \<le> q_cap q"
    using assms by (auto simp: q_inv_def)
  moreover have "q_cap q = 2 ^ k" using k(1,2) unat_pow2 [of k, where 'a = 64] by (simp add: q_cap_def)
  ultimately show ?thesis using that by simp
qed

text \<open>The entry of a counter is its value modulo the capacity, also across the wrap-around of the counters.\<close>

lemma slot_mod: "q_inv q \<Longrightarrow> slot_of q i = unat i mod q_cap q"
  by (erule q_invE) (simp add: slot_of_def unat_and_mask_minus_1)

lemma slot_in: "q_inv q \<Longrightarrow> slot_of q i < length (q_buffer q)"
  using slot_mod [of q i] by (auto elim!: q_invE intro!: less_SucI)

lemma slot_add:
  assumes "q_inv q"
  shows "slot_of q (i + of_nat n) = (unat i + n) mod q_cap q"
proof -
  obtain k where k: "k \<le> 60" "q_cap q = 2 ^ k" using assms by (rule q_invE)
  have "unat (i + of_nat n) = (unat i + n) mod 2 ^ 64"
    by (simp add: unat_word_ariths unat_of_nat mod_simps)
  moreover have "(2 :: nat) ^ k dvd 2 ^ 64" using k(1) by (intro le_imp_power_dvd) simp
  ultimately show ?thesis using slot_mod [OF assms] k(2) by (simp add: mod_mod_cancel)
qed

lemma head_eq: "q_head q = q_tail q + of_nat (q_used q)"
  by (simp add: q_used_def)

lemma load_slot_at: "q_inv q \<Longrightarrow> load_slot q i = Some (q_at q i)"
  by (simp add: load_slot_def slot_in q_at_def)

lemma load_slots_at: "q_inv q \<Longrightarrow> load_slots q t n = Some (map (\<lambda>i. q_at q (t + of_nat i)) [0..<n])"
proof (induction n arbitrary: t)
  case (Suc n)
  have "map (\<lambda>i. q_at q (t + of_nat i)) [0..<Suc n] = q_at q t # map (\<lambda>i. q_at q (t + 1 + of_nat i)) [0..<n]"
    by (simp only: upt_conv_Cons [of 0 "Suc n"] map_Suc_upt [symmetric] list.map map_map) (simp add: comp_def add.assoc)
  then show ?case using Suc by (simp add: load_slot_at)
qed simp

lemma empty_iff: "q_head q = q_tail q \<longleftrightarrow> q_used q = 0"
  by (simp add: q_used_def unat_eq_0)

lemma full_iff: "q_head q - q_tail q = q_capacity q \<longleftrightarrow> q_used q = q_cap q"
  by (auto simp: q_used_def q_cap_def word_unat_eq_iff)

text \<open>The slots of the elements in the queue and the next free one are different.\<close>

lemma slot_fresh:
  assumes "q_inv q" and "i < q_used q" and "q_used q < q_cap q"
  shows "slot_of q (q_tail q + of_nat i) \<noteq> slot_of q (q_head q)"
proof
  let ?t = "unat (q_tail q)" and ?c = "q_cap q"
  assume "slot_of q (q_tail q + of_nat i) = slot_of q (q_head q)"
  then have "(?t + q_used q) mod ?c = (?t + i) mod ?c"
    unfolding head_eq slot_add [OF assms(1)] by simp
  then have "?c dvd (?t + q_used q) - (?t + i)" using assms(2) by (intro mod_eq_dvd_iff_nat [THEN iffD1]) simp_all
  then have "?c \<le> q_used q - i" using assms(2) by (intro dvd_imp_le) simp_all
  then show False using assms(3) by simp
qed

section \<open>The operations on the contents\<close>

lemma used_push: "q_inv q \<Longrightarrow> q_used q < q_cap q \<Longrightarrow> unat (q_head q + 1 - q_tail q) = Suc (q_used q)"
proof -
  assume a: "q_inv q" "q_used q < q_cap q"
  obtain k where k: "k \<le> 60" "q_cap q = 2 ^ k" using a(1) by (rule q_invE)
  have "(2 :: nat) ^ k \<le> 2 ^ 60" using k(1) by (intro power_increasing) simp_all
  then have "Suc (q_used q) < 2 ^ 64" using a(2) k(2) by simp
  moreover have "q_head q + 1 - q_tail q = of_nat (Suc (q_used q))" by (simp add: q_used_def)
  ultimately show ?thesis by (simp only: unat_of_nat) simp
qed

lemma push_correct:
  assumes inv: "q_inv q"
  shows "if q_used q = q_cap q then mn_queue_spsc_push q p = Some (q, MN_QUEUE_FULL)
         else \<exists>q'. mn_queue_spsc_push q p = Some (q', MN_SUCCESS) \<and> q_inv q' \<and> q_cap q' = q_cap q
                 \<and> q_contents q' = q_contents q @ [p]"
proof (cases "q_used q = q_cap q")
  case True
  then show ?thesis by (simp add: mn_queue_spsc_push_def full_iff)
next
  case False
  then have lt: "q_used q < q_cap q" using inv by (simp add: q_inv_def)
  let ?q = "q\<lparr>q_buffer := (q_buffer q)[slot_of q (q_head q) := p], q_head := q_head q + 1\<rparr>"
  have push: "mn_queue_spsc_push q p = Some (?q, MN_SUCCESS)"
    using False slot_in [OF inv] by (simp add: mn_queue_spsc_push_def full_iff Let_def)
  have used: "q_used ?q = Suc (q_used q)" using used_push [OF inv lt] by (simp add: q_used_def)
  have "q_inv ?q" "q_cap ?q = q_cap q" using inv lt used by (auto simp: q_inv_def q_cap_def)
  moreover have "q_contents ?q = q_contents q @ [p]"
  proof -
    have "q_at ?q (q_tail q + of_nat i) = q_at q (q_tail q + of_nat i)" if "i < q_used q" for i
      using slot_fresh [OF inv that lt] by (simp add: q_at_def slot_of_def)
    moreover have "q_at ?q (q_tail q + of_nat (q_used q)) = p"
      using slot_in [OF inv] by (simp add: q_at_def slot_of_def flip: head_eq)
    ultimately show ?thesis by (simp add: q_contents_def used)
  qed
  ultimately show ?thesis using push False by auto
qed

text \<open>Moving the tail on by \<open>n\<close> of the elements.\<close>

lemma advance_tail:
  assumes inv: "q_inv q" and n: "n \<le> q_used q" and q': "q' = q\<lparr>q_tail := q_tail q + of_nat n\<rparr>"
  shows "q_inv q'" and "q_cap q' = q_cap q" and "q_contents q' = drop n (q_contents q)"
proof -
  have "q_head q - (q_tail q + of_nat n) = of_nat (q_used q - n)" using n by (simp add: q_used_def of_nat_diff)
  moreover have "q_used q - n < 2 ^ 64" by (simp add: q_used_def less_imp_diff_less)
  ultimately have used: "q_used q' = q_used q - n" by (simp add: q' q_used_def unat_of_nat)
  show "q_inv q'" "q_cap q' = q_cap q" using inv used by (auto simp: q_inv_def q_cap_def q')
  have at: "q_at q' i = q_at q i" for i by (simp add: q' q_at_def slot_of_def)
  have tl: "q_tail q' + of_nat i = q_tail q + of_nat (n + i)" for i by (simp add: q' add.assoc)
  show "q_contents q' = drop n (q_contents q)"
  proof (rule nth_equalityI)
    fix i assume "i < length (q_contents q')"
    then have i: "i < q_used q - n" by (simp add: used)
    then have "q_contents q' ! i = q_at q (q_tail q + of_nat (n + i))" unfolding tl [symmetric] by (simp add: q_contents_def used at)
    moreover have "n + i < q_used q" using i by linarith
    then have "q_at q (q_tail q + of_nat (n + i)) = q_contents q ! (n + i)" by (simp add: q_contents_def nth_append)
    ultimately show "q_contents q' ! i = drop n (q_contents q) ! i" using n by simp
  qed (simp add: used)
qed

lemma take_upt': "take n [0..<m] = [0..<min n m]"
  by (rule nth_equalityI) simp_all

lemma pop_all_correct:
  assumes inv: "q_inv q" and n: "n > 0"
  shows "\<exists>q'. mn_queue_spsc_pop_all q n = Some (q', take (unat n) (q_contents q),
       if q_used q = 0 then n else of_nat (min (unat n) (q_used q)), if q_used q = 0 then MN_QUEUE_EMPTY else MN_SUCCESS)
     \<and> q_inv q' \<and> q_cap q' = q_cap q \<and> q_contents q' = drop (unat n) (q_contents q)"
proof (cases "q_used q = 0")
  case True
  then have "q_contents q = []" by (simp add: q_contents_def)
  then show ?thesis using True inv n by (auto simp: mn_queue_spsc_pop_all_def q_used_def unat_eq_0)
next
  case False
  let ?m = "min (unat n) (q_used q)"
  have cnt: "(if q_head q - q_tail q < n then q_head q - q_tail q else n) = of_nat ?m"
    by (simp add: q_used_def min_def word_less_nat_alt)
  have um: "unat (of_nat ?m :: u64) = ?m" by (simp add: unat_of_nat min_less_iff_disj)
  let ?q = "q\<lparr>q_tail := q_tail q + of_nat ?m\<rparr>"
  note adv = advance_tail [OF inv _ refl, of ?m]
  have "map (\<lambda>i. q_at q (q_tail q + of_nat i)) [0..<?m] = take (unat n) (q_contents q)"
    by (simp add: q_contents_def take_map take_upt' min.commute)
  moreover have "drop ?m (q_contents q) = drop (unat n) (q_contents q)" by (simp add: min_def)
  ultimately show ?thesis
    using adv False n um load_slots_at [OF inv, of "q_tail q" ?m] empty_iff [of q]
    by (auto simp: mn_queue_spsc_pop_all_def cnt Let_def)
qed

lemma pop_back_correct:
  assumes inv: "q_inv q"
  shows "case q_contents q of
           [] \<Rightarrow> mn_queue_spsc_pop_back q = Some (q, 0, MN_QUEUE_EMPTY) \<and> mn_queue_spsc_pop q = (q, MN_QUEUE_EMPTY)
         | p # ps \<Rightarrow> \<exists>q'. mn_queue_spsc_pop_back q = Some (q', p, MN_SUCCESS) \<and> mn_queue_spsc_pop q = (q', MN_SUCCESS)
             \<and> mn_queue_spsc_peek q = Some (q\<lparr>q_tail_cache := q_tail q\<rparr>, p, MN_SUCCESS)
             \<and> mn_queue_spsc_pop_cached (q\<lparr>q_tail_cache := q_tail q\<rparr>) = q'\<lparr>q_tail_cache := q_tail q\<rparr>
             \<and> q_inv q' \<and> q_cap q' = q_cap q \<and> q_contents q' = ps"
proof (cases "q_contents q")
  case Nil
  have "q_used q = 0" unfolding length_contents [symmetric] Nil by simp
  then have "q_head q = q_tail q" by (simp add: empty_iff)
  then show ?thesis using Nil by (simp add: mn_queue_spsc_pop_back_def mn_queue_spsc_pop_def)
next
  case (Cons p ps)
  have u: "1 \<le> q_used q" unfolding length_contents [symmetric] Cons by simp
  have "q_at q (q_tail q) = hd (q_contents q)" using u by (simp add: q_contents_def hd_map)
  then have p: "q_at q (q_tail q) = p" using Cons by simp
  have ne: "q_head q \<noteq> q_tail q" using u by (simp add: empty_iff)
  let ?q = "q\<lparr>q_tail := q_tail q + 1\<rparr>"
  have "q_inv ?q" "q_cap ?q = q_cap q" "q_contents ?q = ps" using advance_tail [OF inv u, of ?q] Cons by simp_all
  then show ?thesis
    using ne p load_slot_at [OF inv] Cons
    by (simp add: mn_queue_spsc_pop_back_def mn_queue_spsc_pop_def mn_queue_spsc_peek_def mn_queue_spsc_pop_cached_def)
qed

section \<open>Set-up\<close>

lemma round_pow2:
  assumes "0 < c" and "unat c \<le> 2 ^ 60"
  obtains k where "k \<le> 60" "round_capacity c = 2 ^ k" "unat c \<le> 2 ^ k" "k = 0 \<or> 2 ^ (k - 1) < unat c"
proof -
  have pos: "0 < unat c" using assms(1) by (simp add: word_less_nat_alt)
  obtain k where k: "unat c \<le> 2 ^ k" "k = 0 \<or> 2 ^ (k - 1) < unat c" using pow2_above [OF pos] by blast
  have "k \<le> 60"
  proof (rule ccontr)
    assume "\<not> k \<le> 60"
    then have "(2 :: nat) ^ 60 \<le> 2 ^ (k - 1)" by (intro power_increasing) simp_all
    then show False using k(2) assms(2) \<open>\<not> k \<le> 60\<close> by linarith
  qed
  moreover have "round_capacity c = 2 ^ k"
  proof (cases "c AND (c - 1) = 0")
    case True
    then obtain j where j: "j < 64" "c = 2 ^ j" using and_pred_word [of c] assms(1) by (auto simp: and.commute word_neq_0_conv)
    have uc: "unat c = 2 ^ j" using j unat_pow2 [of j, where 'a = 64] by simp
    then have "j \<le> k" "k = 0 \<or> k - 1 < j" using k by simp_all
    then have "j = k" by auto
    then show ?thesis using True j by (simp add: round_capacity_def)
  next
    case False
    note s = smeared_step [OF smeared_1 [of "c - 1"], of 2]
    note s = smeared_step [OF s, of 4]
    note s = smeared_step [OF s, of 8]
    note s = smeared_step [OF s, of 16]
    note s = smeared_step [OF s, of 32]
    note s = smeared_step [OF s, of 64]
    have k': "c \<le> 2 ^ k" "k < 64" "k = 0 \<or> 2 ^ (k - 1) < c"
      using k \<open>k \<le> 60\<close> by (auto simp: word_le_nat_alt word_less_nat_alt unat_pow2)
    obtain y where y: "smeared 64 (c - 1) y" "round_capacity c = y + 1"
      using s False by (simp add: round_capacity_def Let_def or.commute)
    then show ?thesis using smeared_next [of c y k] k' assms(1) by simp
  qed
  ultimately show ?thesis using that k by blast
qed

lemma setup_correct:
  assumes "0 < c" and "unat c \<le> 2 ^ 60"
  obtains q' k where "mn_queue_spsc_setup True junk q c = Some (q', MN_SUCCESS)" "q_inv q'" "q_contents q' = []"
    "q_cap q' = 2 ^ k" "unat c \<le> 2 ^ k" "k = 0 \<or> 2 ^ (k - 1) < unat c"
proof -
  obtain k where k: "k \<le> 60" "round_capacity c = 2 ^ k" "unat c \<le> 2 ^ k" "k = 0 \<or> 2 ^ (k - 1) < unat c"
    by (rule round_pow2 [OF assms])
  have "(2 :: nat) ^ k \<le> 2 ^ 60" using k(1) by (intro power_increasing) simp_all
  then have "unat (8 * (1 + (2 :: u64) ^ k)) = 8 * (1 + 2 ^ k)"
    using k(1) unat_pow2 [of k, where 'a = 64] by (simp add: unat_word_ariths)
  moreover have "(2 :: u64) ^ k AND (2 ^ k - 1) = 0" using and_pred_pow2 [of k, where 'a = 64] by (simp add: and.commute)
  ultimately have s: "mn_queue_spsc_setup True junk q c = Some (q\<lparr>q_buffer := map junk [0..<1 + 2 ^ k], q_head := 0, q_tail := 0, q_tail_cache := 0,
      q_capacity := 2 ^ k, q_mask := 2 ^ k - 1\<rparr>, MN_SUCCESS)"
    using assms(1) k(2) by (simp add: mn_queue_spsc_setup_def Let_def)
  show ?thesis
    by (rule that [OF s, of k]) (use k unat_pow2 [of k, where 'a = 64] in \<open>auto simp: q_inv_def q_used_def q_cap_def q_contents_def\<close>)
qed

section \<open>The contract\<close>

text \<open>A client that pushes pointers until the queue is full, and one that takes up to \<open>n\<close> at once.\<close>

fun q_push_list :: "mn_queue_spsc \<Rightarrow> u64 list \<Rightarrow> (mn_queue_spsc \<times> nat) option" where
  "q_push_list q [] = Some (q, 0)"
| "q_push_list q (p # ps) =
     (case mn_queue_spsc_push q p of
        None \<Rightarrow> None
      | Some (q, r) \<Rightarrow> if r = MN_SUCCESS then map_option (\<lambda>(q, n). (q, Suc n)) (q_push_list q ps) else Some (q, 0))"

definition q_pop_some :: "mn_queue_spsc \<Rightarrow> size_t \<Rightarrow> (mn_queue_spsc \<times> u64 list) option" where
  "q_pop_some q n = map_option (\<lambda>(q, ps, _, _). (q, ps)) (mn_queue_spsc_pop_all q n)"

lemma push_list_correct:
  "q_inv q \<Longrightarrow> \<exists>q'. q_push_list q ps = Some (q', min (length ps) (q_cap q - q_used q)) \<and> q_inv q' \<and> q_cap q' = q_cap q
     \<and> q_contents q' = q_contents q @ take (min (length ps) (q_cap q - q_used q)) ps"
proof (induction ps arbitrary: q)
  case (Cons p ps)
  show ?case
  proof (cases "q_used q = q_cap q")
    case True
    then show ?thesis using push_correct [OF Cons.prems, of p] Cons.prems by (simp add: rawr_defs)
  next
    case False
    obtain q1 where q1: "mn_queue_spsc_push q p = Some (q1, MN_SUCCESS)" "q_inv q1" "q_cap q1 = q_cap q" "q_contents q1 = q_contents q @ [p]"
      using push_correct [OF Cons.prems, of p] False by auto
    have "length (q_contents q1) = Suc (length (q_contents q))" using q1(4) by (simp del: length_contents)
    then have used: "q_used q1 = Suc (q_used q)" by simp
    have lt: "q_used q < q_cap q" using False Cons.prems by (simp add: q_inv_def)
    obtain q2 where "q_push_list q1 ps = Some (q2, min (length ps) (q_cap q1 - q_used q1))" "q_inv q2" "q_cap q2 = q_cap q1"
      "q_contents q2 = q_contents q1 @ take (min (length ps) (q_cap q1 - q_used q1)) ps"
      using Cons.IH [OF q1(2)] by blast
    moreover have "Suc (min (length ps) (q_cap q - Suc (q_used q))) = min (Suc (length ps)) (q_cap q - q_used q)" using lt by simp
    ultimately show ?thesis using q1 used by (simp flip: \<open>Suc (min _ _) = _\<close>)
  qed
qed simp

interpretation queue: bounded_fifo q_inv q_cap q_contents "\<lambda>_ _. True" "\<lambda>n. 0 < n" q_push_list q_pop_some
proof unfold_locales
  fix q and n :: size_t assume "q_inv q" "0 < n"
  then show "\<exists>q'. q_pop_some q n = Some (q', take (unat n) (q_contents q)) \<and> q_inv q' \<and> q_cap q' = q_cap q
      \<and> (\<lambda>_ :: u64 list. True) = (\<lambda>_. True) \<and> q_contents q' = drop (unat n) (q_contents q)"
    using pop_all_correct [of q n] by (auto simp: q_pop_some_def)
next
  fix q assume "q_inv q"
  then show "length (q_contents q) \<le> q_cap q" by (simp add: q_inv_def)
next
  fix q xs assume "q_inv q"
  then show "\<exists>q'. q_push_list q xs = Some (q', min (length xs) (q_cap q - length (q_contents q))) \<and> q_inv q' \<and> q_cap q' = q_cap q
      \<and> (\<lambda>_ :: u64 list. True) = (\<lambda>_. True) \<and> q_contents q' = q_contents q @ take (min (length xs) (q_cap q - length (q_contents q))) xs"
    using push_list_correct [of q xs] by auto
qed

section \<open>Two threads\<close>

text \<open>
  The accesses of a producer in \<open>mn_queue_spsc_push\<close> and of a consumer in \<open>mn_queue_spsc_pop_back\<close>, interleaved: each checks with the
  other's counter as it is at that moment, then touches the entry, then publishes its own counter.
\<close>

datatype producer = P_Idle | P_Checked u64 u64 | P_Stored u64 u64
datatype consumer = C_Idle | C_Checked u64 | C_Loaded u64 u64

record qspsc =
  que :: mn_queue_spsc
  q_prod :: producer
  q_cons :: consumer
  q_sent :: "u64 list"
  q_received :: "u64 list"

inductive queue_step :: "qspsc \<Rightarrow> qspsc \<Rightarrow> bool" where
  p_check: "q_prod s = P_Idle \<Longrightarrow> q_head (que s) - q_tail (que s) \<noteq> q_capacity (que s) \<Longrightarrow>
     queue_step s (s\<lparr>q_prod := P_Checked p (q_head (que s))\<rparr>)"
| p_store: "q_prod s = P_Checked p head \<Longrightarrow> slot_of (que s) head < length (q_buffer (que s)) \<Longrightarrow>
     queue_step s (s\<lparr>que := (que s)\<lparr>q_buffer := (q_buffer (que s))[slot_of (que s) head := p]\<rparr>, q_prod := P_Stored p head\<rparr>)"
| p_publish: "q_prod s = P_Stored p head \<Longrightarrow>
     queue_step s (s\<lparr>que := (que s)\<lparr>q_head := head + 1\<rparr>, q_prod := P_Idle, q_sent := q_sent s @ [p]\<rparr>)"
| c_check: "q_cons s = C_Idle \<Longrightarrow> q_head (que s) \<noteq> q_tail (que s) \<Longrightarrow>
     queue_step s (s\<lparr>q_cons := C_Checked (q_tail (que s))\<rparr>)"
| c_load: "q_cons s = C_Checked tail \<Longrightarrow> load_slot (que s) tail = Some p \<Longrightarrow>
     queue_step s (s\<lparr>q_cons := C_Loaded tail p\<rparr>)"
| c_publish: "q_cons s = C_Loaded tail p \<Longrightarrow>
     queue_step s (s\<lparr>que := (que s)\<lparr>q_tail := tail + 1\<rparr>, q_cons := C_Idle, q_received := q_received s @ [p]\<rparr>)"

inductive queue_reachable :: "mn_queue_spsc \<Rightarrow> qspsc \<Rightarrow> bool" for q where
  start: "queue_reachable q \<lparr>que = q, q_prod = P_Idle, q_cons = C_Idle, q_sent = [], q_received = []\<rparr>"
| step: "queue_reachable q s \<Longrightarrow> queue_step s t \<Longrightarrow> queue_reachable q t"

definition producer_ok :: "mn_queue_spsc \<Rightarrow> producer \<Rightarrow> bool" where
  "producer_ok q pc \<longleftrightarrow> (case pc of P_Idle \<Rightarrow> True
     | P_Checked p h \<Rightarrow> h = q_head q \<and> q_used q < q_cap q
     | P_Stored p h \<Rightarrow> h = q_head q \<and> q_used q < q_cap q \<and> q_at q h = p)"

definition consumer_ok :: "mn_queue_spsc \<Rightarrow> consumer \<Rightarrow> bool" where
  "consumer_ok q pc \<longleftrightarrow> (case pc of C_Idle \<Rightarrow> True
     | C_Checked t \<Rightarrow> t = q_tail q \<and> 0 < q_used q
     | C_Loaded t p \<Rightarrow> t = q_tail q \<and> 0 < q_used q \<and> q_at q t = p)"

definition qs_inv :: "mn_queue_spsc \<Rightarrow> qspsc \<Rightarrow> bool" where
  "qs_inv q s \<longleftrightarrow> q_inv (que s) \<and> producer_ok (que s) (q_prod s) \<and> consumer_ok (que s) (q_cons s)
     \<and> q_contents q @ q_sent s = q_received s @ q_contents (que s)"

text \<open>Storing into the free entry at the head changes nothing of the queue.\<close>

lemma store_head:
  assumes inv: "q_inv q" and lt: "q_used q < q_cap q" and q': "q' = q\<lparr>q_buffer := (q_buffer q)[slot_of q (q_head q) := p]\<rparr>"
  shows "q_inv q'" "q_used q' = q_used q" "q_cap q' = q_cap q" "q_at q' (q_head q) = p" "q_contents q' = q_contents q"
    "0 < q_used q \<Longrightarrow> q_at q' (q_tail q) = q_at q (q_tail q)"
proof -
  show used: "q_used q' = q_used q" "q_cap q' = q_cap q" by (simp_all add: q' q_used_def q_cap_def)
  show "q_inv q'" using inv used by (auto simp: q_inv_def q')
  show "q_at q' (q_head q) = p" using slot_in [OF inv] by (simp add: q' q_at_def slot_of_def)
  have at: "q_at q' (q_tail q + of_nat i) = q_at q (q_tail q + of_nat i)" if "i < q_used q" for i
    using slot_fresh [OF inv that lt] by (simp add: q' q_at_def slot_of_def)
  then show "q_contents q' = q_contents q" by (simp add: q_contents_def used) (simp add: q')
  show "q_at q' (q_tail q) = q_at q (q_tail q)" if "0 < q_used q" using at [of 0] that by simp
qed

lemma publish_head:
  assumes inv: "q_inv q" and lt: "q_used q < q_cap q" and q': "q' = q\<lparr>q_head := q_head q + 1\<rparr>"
  shows "q_inv q'" "q_used q' = Suc (q_used q)" "q_contents q' = q_contents q @ [q_at q (q_head q)]" "q_at q' i = q_at q i"
proof -
  show used: "q_used q' = Suc (q_used q)" using used_push [OF inv lt] by (simp add: q' q_used_def)
  show "q_inv q'" using inv used lt by (auto simp: q_inv_def q' q_cap_def)
  show at: "q_at q' i = q_at q i" for i by (simp add: q' q_at_def slot_of_def)
  show "q_contents q' = q_contents q @ [q_at q (q_head q)]"
    by (simp add: q_contents_def used at) (simp add: q' flip: head_eq)
qed

lemma publish_tail:
  assumes inv: "q_inv q" and u: "0 < q_used q" and q': "q' = q\<lparr>q_tail := q_tail q + 1\<rparr>"
  shows "q_inv q'" "q_used q' < q_used q" "q_cap q' = q_cap q" "q_contents q = q_at q (q_tail q) # q_contents q'" "q_at q' i = q_at q i"
    "q_head q' = q_head q"
proof -
  note adv = advance_tail [OF inv, of 1 q']
  show inv': "q_inv q'" "q_cap q' = q_cap q" using adv u q' by simp_all
  have dr: "q_contents q' = drop 1 (q_contents q)" using adv(3) u q' by simp
  then have "length (q_contents q') = length (q_contents q) - 1" by (simp del: length_contents)
  then show "q_used q' < q_used q" using u by simp
  have "q_contents q \<noteq> []" using u by (metis length_contents list.size(3) less_irrefl)
  moreover have "hd (q_contents q) = q_at q (q_tail q)" using u by (simp add: q_contents_def hd_map)
  ultimately show "q_contents q = q_at q (q_tail q) # q_contents q'" unfolding dr by (cases "q_contents q") simp_all
  show "q_at q' i = q_at q i" "q_head q' = q_head q" by (simp_all add: q' q_at_def slot_of_def)
qed

lemmas pc_ok = producer_ok_def consumer_ok_def

lemma queue_step_inv: "queue_step s t \<Longrightarrow> qs_inv q s \<Longrightarrow> qs_inv q t"
proof (induction rule: queue_step.induct)
  case (p_check s p)
  then have "q_used (que s) < q_cap (que s)" by (auto simp: qs_inv_def q_inv_def full_iff)
  then show ?case using p_check by (simp add: qs_inv_def pc_ok)
next
  case (p_store s p head)
  let ?q = "(que s)\<lparr>q_buffer := (q_buffer (que s))[slot_of (que s) head := p]\<rparr>"
  have h: "head = q_head (que s)" "q_used (que s) < q_cap (que s)" "q_inv (que s)" using p_store by (simp_all add: qs_inv_def pc_ok)
  note st = store_head [OF h(3,2), of ?q p]
  show ?case using p_store.prems st h
    by (auto simp: qs_inv_def pc_ok split: consumer.splits)
next
  case (p_publish s p head)
  have h: "head = q_head (que s)" "q_used (que s) < q_cap (que s)" "q_inv (que s)" "q_at (que s) head = p"
    using p_publish by (auto simp: qs_inv_def pc_ok)
  note pb = publish_head [OF h(3,2) refl]
  show ?case using p_publish.prems pb h by (auto simp: qs_inv_def pc_ok split: consumer.splits)
next
  case (c_check s)
  then show ?case using empty_iff [of "que s"] by (auto simp: qs_inv_def pc_ok)
next
  case (c_load s tail p)
  then show ?case using load_slot_at [of "que s" tail] by (auto simp: qs_inv_def pc_ok)
next
  case (c_publish s tail p)
  have h: "tail = q_tail (que s)" "0 < q_used (que s)" "q_inv (que s)" "q_at (que s) tail = p"
    using c_publish by (auto simp: qs_inv_def pc_ok)
  note pb = publish_tail [OF h(3,2) refl]
  show ?case using c_publish.prems pb h by (auto simp: qs_inv_def pc_ok split: producer.splits)
qed

lemma queue_reachable_inv: "queue_reachable q s \<Longrightarrow> q_inv q \<Longrightarrow> qs_inv q s"
  by (induction rule: queue_reachable.induct) (auto simp: qs_inv_def pc_ok dest: queue_step_inv)

section \<open>Properties\<close>

text \<open>
  (C26) Setting a queue up for \<open>c\<close> pointers, up to \<open>2 ^ 60\<close>, gives an empty queue with the least power of two
  that is at least \<open>c\<close> as its capacity; above that the size of the buffer wraps around in 64 bits, and
  a queue for \<open>2 ^ 61\<close> pointers has a buffer for one.
\<close>

theorem queue_setup_capacity:
  "(0 < c \<and> unat c \<le> 2 ^ 60 \<longrightarrow>
      (\<exists>q' k. mn_queue_spsc_setup True junk q c = Some (q', MN_SUCCESS) \<and> q_inv q' \<and> q_contents q' = []
        \<and> q_cap q' = 2 ^ k \<and> unat c \<le> 2 ^ k \<and> (k = 0 \<or> 2 ^ (k - 1) < unat c)))
   \<and> (\<exists>q'. mn_queue_spsc_setup True junk q (2 ^ 61) = Some (q', MN_SUCCESS) \<and> length (q_buffer q') = 1 \<and> q_capacity q' = 2 ^ 61)"
proof
  show "0 < c \<and> unat c \<le> 2 ^ 60 \<longrightarrow>
      (\<exists>q' k. mn_queue_spsc_setup True junk q c = Some (q', MN_SUCCESS) \<and> q_inv q' \<and> q_contents q' = []
        \<and> q_cap q' = 2 ^ k \<and> unat c \<le> 2 ^ k \<and> (k = 0 \<or> 2 ^ (k - 1) < unat c))"
    using setup_correct [of c junk q] by metis
  show "\<exists>q'. mn_queue_spsc_setup True junk q (2 ^ 61) = Some (q', MN_SUCCESS) \<and> length (q_buffer q') = 1 \<and> q_capacity q' = 2 ^ 61"
    by (simp add: mn_queue_spsc_setup_def round_capacity_def Let_def)
qed

text \<open>
  (C15) A producer and a consumer, whatever the interleaving of their accesses and however often the
  64-bit counters wrap around: the consumer has received exactly the pointers that were pushed, in
  order and each once, up to those still in the queue; the two never access the same entry at once, and the
  queue never holds more than its capacity.
\<close>

theorem queue_spsc_order:
  assumes "q_inv q" and "queue_reachable q s"
  shows "q_contents q @ q_sent s = q_received s @ q_contents (que s)
     \<and> length (q_contents (que s)) \<le> q_cap (que s)
     \<and> (\<forall>p h t. q_prod s = P_Checked p h \<and> q_cons s = C_Checked t \<longrightarrow> slot_of (que s) h \<noteq> slot_of (que s) t)"
proof -
  have inv: "qs_inv q s" by (rule queue_reachable_inv [OF assms(2,1)])
  have "slot_of (que s) h \<noteq> slot_of (que s) t" if "q_prod s = P_Checked p h" "q_cons s = C_Checked t" for p h t
    using inv that slot_fresh [of "que s" 0] by (auto simp: qs_inv_def pc_ok)
  then show ?thesis using inv by (auto simp: qs_inv_def q_inv_def)
qed

definition demo_queue :: mn_queue_spsc where
  "demo_queue = \<lparr>q_capacity = 2, q_mask = 1, q_buffer = [0, 0, 0], q_head = -1, q_tail = -1, q_tail_cache = 0\<rparr>"

lemma demo_queue_inv: "q_inv demo_queue"
  by (auto simp: q_inv_def demo_queue_def q_used_def q_cap_def intro!: exI [of _ 1])

theorem queue_setup_capacity_witness:
  "\<exists>q' k. mn_queue_spsc_setup True (\<lambda>_. 7) demo_queue 5 = Some (q', MN_SUCCESS) \<and> q_cap q' = 2 ^ k \<and> 5 \<le> (2 :: nat) ^ k"
  using queue_setup_capacity [of 5 "\<lambda>_. 7" demo_queue] by auto

theorem queue_spsc_order_witness:
  "\<exists>s. queue_reachable demo_queue s \<and> q_sent s = [9] \<and> q_received s @ q_contents (que s) = [9] \<and> q_head (que s) = 0"
proof -
  let ?s0 = "\<lparr>que = demo_queue, q_prod = P_Idle, q_cons = C_Idle, q_sent = [], q_received = []\<rparr>"
  let ?s1 = "?s0\<lparr>q_prod := P_Checked 9 (-1)\<rparr>"
  let ?s2 = "?s1\<lparr>que := demo_queue\<lparr>q_buffer := [0, 9, 0]\<rparr>, q_prod := P_Stored 9 (-1)\<rparr>"
  let ?s3 = "?s2\<lparr>que := demo_queue\<lparr>q_buffer := [0, 9, 0], q_head := 0\<rparr>, q_prod := P_Idle, q_sent := [9]\<rparr>"
  have "queue_step ?s0 ?s1" using queue_step.p_check [of ?s0 9] by (simp add: demo_queue_def)
  moreover have "queue_step ?s1 ?s2" using queue_step.p_store [of ?s1 9 "-1"] by (simp add: demo_queue_def slot_of_def)
  moreover have "queue_step ?s2 ?s3" using queue_step.p_publish [of ?s2 9 "-1"] by (simp add: demo_queue_def)
  ultimately have r: "queue_reachable demo_queue ?s3" by (blast intro: queue_reachable.intros)
  have "q_contents demo_queue = []" by (simp add: q_contents_def q_used_def demo_queue_def)
  then show ?thesis using queue_spsc_order [OF demo_queue_inv r] r by (intro exI [of _ ?s3]) simp
qed

text \<open>
  A client that pushes and pops from one thread: nothing is lost, duplicated or reordered.
\<close>

lemma queue_run_fifo:
  assumes "q_inv q" and "list_all (fifo_op_ok (\<lambda>_. True) (\<lambda>n. 0 < n)) ops"
  shows "\<exists>q' acc del. fifo_run q_push_list q_pop_some q ops = Some (q', acc, del) \<and> q_inv q'
     \<and> q_contents q @ acc = del @ q_contents q'"
  using queue.run_fifo [OF assms] by blast

end
