(* ===== verification/MnBuffer.thy ===== *)
theory MnBuffer
  imports ByteBuf QueueSpsc
begin

text \<open>
  \<^verbatim>\<open>deps/mn/src/buffer.c\<close>: a block of memory that is written at its end and read from a cursor. The theory has
  every operation of the file but the two that need the pool, and shows that the unread bytes of
  a buffer are a queue of bytes and that integers survive the way through it.
\<close>

section \<open>Operations\<close>

record mn_buffer =
  b_pool :: u64
  b_buf :: aws_byte_buf
  b_pos :: aws_byte_cursor
  b_capacity :: size_t

record mn_buffer_span =
  span_len :: size_t
  span_ptr :: u64

definition mn_buffer_setup :: "mn_buffer \<Rightarrow> u64 \<Rightarrow> size_t \<Rightarrow> (mn_buffer \<times> int) option" where
  "mn_buffer_setup buffer src capacity = do {
     guard (src \<noteq> 0 \<and> capacity \<noteq> 0);
     buf \<leftarrow> aws_byte_buf_from_empty_array src capacity;
     pos \<leftarrow> aws_byte_cursor_from_buf buf;
     Some (buffer\<lparr>b_pool := 0, b_buf := buf, b_pos := pos\<rparr>, MN_SUCCESS)
   }"

text \<open>The reads return what they put in the client's variable, or the code of the error.\<close>

definition or_error :: "'a option \<Rightarrow> int + 'a" where
  "or_error r = (case r of None \<Rightarrow> Inl MN_ERROR | Some v \<Rightarrow> Inr v)"

definition mn_buffer_read :: "heap \<Rightarrow> mn_buffer \<Rightarrow> size_t \<Rightarrow> (mn_buffer \<times> (int + bytes)) option" where
  "mn_buffer_read h buffer len = do {
     (pos, r) \<leftarrow> aws_byte_cursor_read h (b_pos buffer) len;
     Some (buffer\<lparr>b_pos := pos\<rparr>, or_error r)
   }"

definition mn_buffer_read_seek :: "mn_buffer \<Rightarrow> mn_buffer_span \<Rightarrow> (mn_buffer \<times> int) option" where
  "mn_buffer_read_seek buffer span = do {
     guard (span_ptr span \<noteq> 0 \<and> span_len span \<noteq> 0);
     guard (span_ptr span + span_len span < bb_buffer (b_buf buffer) + bb_capacity (b_buf buffer));
     Some (buffer\<lparr>b_pos := \<lparr>cur_len = span_len span, cur_ptr = span_ptr span\<rparr>\<rparr>, MN_SUCCESS)
   }"

definition mn_buffer_read_skip :: "mn_buffer \<Rightarrow> size_t \<Rightarrow> (mn_buffer \<times> int) option" where
  "mn_buffer_read_skip buffer len = do {
     (pos, span) \<leftarrow> aws_byte_cursor_advance (b_pos buffer) len;
     Some (buffer\<lparr>b_pos := pos\<rparr>, if cur_ptr span \<noteq> 0 \<and> cur_len span \<noteq> 0 then MN_SUCCESS else MN_ERROR)
   }"

definition mn_buffer_read_u8 :: "heap \<Rightarrow> mn_buffer \<Rightarrow> (mn_buffer \<times> (int + u8)) option" where
  "mn_buffer_read_u8 h buffer = do {
     (pos, r) \<leftarrow> aws_byte_cursor_read_u8 h (b_pos buffer);
     Some (buffer\<lparr>b_pos := pos\<rparr>, or_error r)
   }"

definition mn_buffer_read_be16 :: "heap \<Rightarrow> mn_buffer \<Rightarrow> (mn_buffer \<times> (int + u16)) option" where
  "mn_buffer_read_be16 h buffer = do {
     (pos, r) \<leftarrow> aws_byte_cursor_read_be16 h (b_pos buffer);
     Some (buffer\<lparr>b_pos := pos\<rparr>, or_error r)
   }"

definition mn_buffer_read_be32 :: "heap \<Rightarrow> mn_buffer \<Rightarrow> (mn_buffer \<times> (int + u32)) option" where
  "mn_buffer_read_be32 h buffer = do {
     (pos, r) \<leftarrow> aws_byte_cursor_read_be32 h (b_pos buffer);
     Some (buffer\<lparr>b_pos := pos\<rparr>, or_error r)
   }"

definition mn_buffer_read_be64 :: "heap \<Rightarrow> mn_buffer \<Rightarrow> (mn_buffer \<times> (int + u64)) option" where
  "mn_buffer_read_be64 h buffer = do {
     (pos, r) \<leftarrow> aws_byte_cursor_read_be64 h (b_pos buffer);
     Some (buffer\<lparr>b_pos := pos\<rparr>, or_error r)
   }"

text \<open>What the writes do after the call of the byte buffer.\<close>

definition wrote :: "mn_buffer \<Rightarrow> size_t \<Rightarrow> heap \<times> aws_byte_buf \<times> bool \<Rightarrow> heap \<times> mn_buffer \<times> int" where
  "wrote buffer len r = (case r of (h, buf, done) \<Rightarrow>
     if \<not> done then (h, buffer\<lparr>b_buf := buf\<rparr>, MN_ERROR)
     else (h, buffer\<lparr>b_buf := buf, b_pos := (b_pos buffer)\<lparr>cur_len := cur_len (b_pos buffer) + len\<rparr>\<rparr>, MN_SUCCESS))"

definition mn_buffer_write :: "heap \<Rightarrow> mn_buffer \<Rightarrow> bytes option \<Rightarrow> size_t \<Rightarrow> (heap \<times> mn_buffer \<times> int) option" where
  "mn_buffer_write h buffer src len = map_option (wrote buffer len) (aws_byte_buf_write h (b_buf buffer) src len)"

definition mn_buffer_write_u8 :: "heap \<Rightarrow> mn_buffer \<Rightarrow> u8 \<Rightarrow> (heap \<times> mn_buffer \<times> int) option" where
  "mn_buffer_write_u8 h buffer val = map_option (wrote buffer 1) (aws_byte_buf_write_u8 h (b_buf buffer) val)"

definition mn_buffer_write_be16 :: "heap \<Rightarrow> mn_buffer \<Rightarrow> u16 \<Rightarrow> (heap \<times> mn_buffer \<times> int) option" where
  "mn_buffer_write_be16 h buffer val = map_option (wrote buffer 2) (aws_byte_buf_write_be16 h (b_buf buffer) val)"

definition mn_buffer_write_be32 :: "heap \<Rightarrow> mn_buffer \<Rightarrow> u32 \<Rightarrow> (heap \<times> mn_buffer \<times> int) option" where
  "mn_buffer_write_be32 h buffer val = map_option (wrote buffer 4) (aws_byte_buf_write_be32 h (b_buf buffer) val)"

definition mn_buffer_write_be64 :: "heap \<Rightarrow> mn_buffer \<Rightarrow> u64 \<Rightarrow> (heap \<times> mn_buffer \<times> int) option" where
  "mn_buffer_write_be64 h buffer val = map_option (wrote buffer 8) (aws_byte_buf_write_be64 h (b_buf buffer) val)"

text \<open>The source is not changed: its cursor stays where it is.\<close>

definition mn_buffer_read_buffer :: "heap \<Rightarrow> mn_buffer \<Rightarrow> mn_buffer \<Rightarrow> size_t \<Rightarrow> (heap \<times> mn_buffer \<times> int) option" where
  "mn_buffer_read_buffer h buffer dst_buffer len =
     (if len \<noteq> 0 \<and> len > cur_len (b_pos buffer) then Some (h, dst_buffer, MN_ERROR)
      else (let len = (if len = 0 then cur_len (b_pos buffer) else len) in do {
        (h, dst, rc) \<leftarrow> mn_buffer_write h dst_buffer (heap_load h (cur_ptr (b_pos buffer)) (unat len)) len;
        Some (h, dst, if rc \<noteq> 0 then MN_ERROR else MN_SUCCESS)
      }))"

definition mn_buffer_write_buffer :: "heap \<Rightarrow> mn_buffer \<Rightarrow> mn_buffer \<Rightarrow> size_t \<Rightarrow> (heap \<times> mn_buffer \<times> int) option" where
  "mn_buffer_write_buffer h buffer src_buffer len = mn_buffer_read_buffer h src_buffer buffer len"

definition mn_buffer_read_reset :: "mn_buffer \<Rightarrow> mn_buffer" where
  "mn_buffer_read_reset buffer =
     buffer\<lparr>b_pos := \<lparr>cur_len = bb_len (b_buf buffer), cur_ptr = bb_buffer (b_buf buffer)\<rparr>\<rparr>"

definition mn_buffer_write_reset :: "mn_buffer \<Rightarrow> mn_buffer" where
  "mn_buffer_write_reset buffer = mn_buffer_read_reset (buffer\<lparr>b_buf := (b_buf buffer)\<lparr>bb_len := 0\<rparr>\<rparr>)"

definition mn_buffer_reset :: "mn_buffer \<Rightarrow> mn_buffer" where
  "mn_buffer_reset buffer = mn_buffer_write_reset buffer"

definition mn_buffer_length :: "mn_buffer \<Rightarrow> size_t" where
  "mn_buffer_length buffer = bb_len (b_buf buffer)"

definition mn_buffer_read_length :: "mn_buffer \<Rightarrow> size_t" where
  "mn_buffer_read_length buffer = cur_len (b_pos buffer)"

definition mn_buffer_set_length :: "mn_buffer \<Rightarrow> size_t \<Rightarrow> mn_buffer \<times> int" where
  "mn_buffer_set_length buffer len =
     (if len > bb_capacity (b_buf buffer) - bb_len (b_buf buffer) then (buffer, MN_ERROR)
      else (buffer\<lparr>b_buf := (b_buf buffer)\<lparr>bb_len := len\<rparr>, b_pos := (b_pos buffer)\<lparr>cur_len := len\<rparr>\<rparr>, MN_SUCCESS))"

definition mn_buffer_add_length :: "mn_buffer \<Rightarrow> size_t \<Rightarrow> mn_buffer \<times> int" where
  "mn_buffer_add_length buffer len =
     (if len > bb_capacity (b_buf buffer) - bb_len (b_buf buffer) then (buffer, MN_ERROR)
      else (buffer\<lparr>b_buf := (b_buf buffer)\<lparr>bb_len := bb_len (b_buf buffer) + len\<rparr>,
                   b_pos := (b_pos buffer)\<lparr>cur_len := cur_len (b_pos buffer) + len\<rparr>\<rparr>, MN_SUCCESS))"

definition mn_buffer_remaining :: "mn_buffer \<Rightarrow> size_t" where
  "mn_buffer_remaining buffer = bb_capacity (b_buf buffer) - bb_len (b_buf buffer)"

definition mn_buffer_write_ptr :: "mn_buffer \<Rightarrow> u64" where
  "mn_buffer_write_ptr buffer = bb_buffer (b_buf buffer) + bb_len (b_buf buffer)"

definition mn_buffer_read_ptr :: "mn_buffer \<Rightarrow> u64" where
  "mn_buffer_read_ptr buffer = cur_ptr (b_pos buffer)"

section \<open>The invariant\<close>

definition b_base :: "mn_buffer \<Rightarrow> u64" where "b_base b = bb_buffer (b_buf b)"
definition b_cap :: "mn_buffer \<Rightarrow> nat" where "b_cap b = unat (bb_capacity (b_buf b))"
definition b_end :: "mn_buffer \<Rightarrow> nat" where "b_end b = unat (bb_len (b_buf b))"
definition b_left :: "mn_buffer \<Rightarrow> nat" where "b_left b = unat (cur_len (b_pos b))"

lemmas b_defs = b_base_def b_cap_def b_end_def b_left_def

definition b_room :: "mn_buffer \<Rightarrow> nat" where
  "b_room b = b_cap b - b_end b"

text \<open>The cursor ends where the written part of the block ends.\<close>

definition buffer_inv :: "mn_buffer \<Rightarrow> bool" where
  "buffer_inv b \<longleftrightarrow> b_base b \<noteq> 0 \<and> 0 < b_cap b \<and> b_cap b < 2 ^ 63 - 1 \<and> unat (b_base b) + b_cap b \<le> 2 ^ 64
     \<and> b_end b \<le> b_cap b \<and> b_left b \<le> b_end b \<and> cur_ptr (b_pos b) = b_base b + of_nat (b_end b - b_left b)"

definition block :: "mn_buffer \<Rightarrow> u64 set" where
  "block b = range_of (b_base b) (b_cap b)"

definition unread :: "heap \<Rightarrow> mn_buffer \<Rightarrow> bytes" where
  "unread h b = bytes_at h (cur_ptr (b_pos b)) (b_left b)"

definition same_block :: "mn_buffer \<Rightarrow> mn_buffer \<Rightarrow> bool" where
  "same_block b c \<longleftrightarrow> b_pool c = b_pool b \<and> b_base c = b_base b \<and> b_cap c = b_cap b"

lemma length_unread [simp]: "length (unread h b) = b_left b"
  by (simp add: unread_def)

lemma same_block_refl [simp]: "same_block b b"
  by (simp add: same_block_def)

lemma same_block_trans: "same_block a b \<Longrightarrow> same_block b c \<Longrightarrow> same_block a c"
  by (simp add: same_block_def)

lemma block_same: "same_block b c \<Longrightarrow> block c = block b"
  by (simp add: same_block_def block_def)

lemma buf_valid: "buffer_inv b \<Longrightarrow> aws_byte_buf_is_valid (b_buf b)"
  by (auto simp: buffer_inv_def b_defs aws_byte_buf_is_valid_def AWS_MEM_IS_READABLE_def word_le_nat_alt word_less_nat_alt)

lemma unread_range:
  assumes "buffer_inv b"
  shows "range_of (cur_ptr (b_pos b)) (b_left b) \<subseteq> block b"
  using assms range_of_sub [of "b_end b - b_left b" "b_left b" "b_cap b" "b_base b"]
  by (simp add: buffer_inv_def block_def)

lemma cursor_nonnull:
  assumes "buffer_inv b" and "0 < b_left b"
  shows "cur_ptr (b_pos b) \<noteq> 0"
proof -
  have "cur_ptr (b_pos b) \<in> block b"
    using assms unread_range [OF assms(1)] by (cases "b_left b") (auto simp: range_of_Suc)
  moreover have "0 \<notin> block b"
    using assms by (auto simp: block_def range_of_iff buffer_inv_def unat_eq_zero)
  ultimately show ?thesis by metis
qed

lemma cursor_valid: "buffer_inv b \<Longrightarrow> aws_byte_cursor_is_valid (b_pos b)"
  using cursor_nonnull [of b]
  by (cases "cur_len (b_pos b) = 0")
     (auto simp: aws_byte_cursor_is_valid_def AWS_MEM_IS_READABLE_def b_left_def word_neq_0_conv unat_gt_0)

section \<open>Writing and reading\<close>

lemma setup_buffer:
  assumes "src \<noteq> 0" and "0 < unat capacity" and "unat capacity < 2 ^ 63 - 1" and "unat src + unat capacity \<le> 2 ^ 64"
  shows "\<exists>b'. mn_buffer_setup b src capacity = Some (b', MN_SUCCESS) \<and> buffer_inv b' \<and> b_base b' = src
    \<and> b_cap b' = unat capacity \<and> b_end b' = 0 \<and> b_left b' = 0"
proof -
  have "capacity > 0" using assms(2) by (simp add: word_less_nat_alt)
  then show ?thesis using assms
    by (auto simp: mn_buffer_setup_def aws_byte_buf_from_empty_array_def aws_byte_cursor_from_buf_def
        aws_byte_buf_is_valid_def AWS_MEM_IS_READABLE_def buffer_inv_def b_defs)
qed

lemma write_correct:
  assumes inv: "buffer_inv b" and mem: "block b \<subseteq> dom h" and len: "length bs = unat len" and fits: "length bs \<le> b_room b"
  shows "\<exists>h' b'. mn_buffer_write h b (Some bs) len = Some (h', b', MN_SUCCESS) \<and> buffer_inv b' \<and> same_block b b'
    \<and> unread h' b' = unread h b @ bs \<and> b_room b' = b_room b - length bs \<and> dom h' = dom h \<and> (\<forall>x. x \<notin> block b \<longrightarrow> h' x = h x)"
proof (cases "len = 0")
  case True
  then show ?thesis using len inv buf_valid [OF inv]
    by (simp add: mn_buffer_write_def aws_byte_buf_write_def wrote_def)
next
  case False
  let ?a = "b_base b + of_nat (b_end b)"
  let ?b = "b\<lparr>b_buf := (b_buf b)\<lparr>bb_len := bb_len (b_buf b) + len\<rparr>,
              b_pos := (b_pos b)\<lparr>cur_len := cur_len (b_pos b) + len\<rparr>\<rparr>"
  have bd: "b_end b + length bs \<le> b_cap b" "b_cap b < 2 ^ 63 - 1" "b_left b \<le> b_end b"
    using inv fits by (auto simp: buffer_inv_def b_room_def)
  then have e: "b_end ?b = b_end b + length bs" "b_left ?b = b_left b + length bs"
    using len by (simp_all add: b_end_def b_left_def unat_word_ariths)
  have sub: "range_of ?a (length bs) \<subseteq> block b"
    unfolding block_def by (rule range_of_sub) (use bd in simp)
  then obtain h' where st: "heap_store h ?a bs = Some h'" using mem heap_store_ok [of ?a bs h] by blast
  have nz: "0 < length bs" using False len by (simp add: unat_gt_0)
  have hi: "unat (b_base b) + b_cap b \<le> 2 ^ 64" using inv by (simp add: buffer_inv_def)
  have ue: "unat ?a = unat (b_base b) + b_end b" 
    by (rule unat_offset) (use hi bd nz in linarith)
  then have ua: "unat ?a + length bs \<le> 2 ^ 64" using hi bd by simp
  have "bb_buffer (b_buf b) + bb_len (b_buf b) = ?a" by (simp add: b_defs)
  moreover have "\<not> bb_len (b_buf b) > drop_bit 1 SIZE_MAX" "\<not> len > drop_bit 1 SIZE_MAX"
    "\<not> bb_len (b_buf b) + len > bb_capacity (b_buf b)"
    using bd len by (simp_all add: b_defs word_less_nat_alt unat_word_ariths)
  ultimately have w: "mn_buffer_write h b (Some bs) len = Some (h', ?b, MN_SUCCESS)"
    using st buf_valid [OF inv] False by (simp add: mn_buffer_write_def aws_byte_buf_write_def wrote_def)
  have "b_end ?b - b_left ?b = b_end b - b_left b" using e bd by simp
  then have inv': "buffer_inv ?b" using inv e bd by (simp add: buffer_inv_def b_base_def b_cap_def)
  have out: "\<forall>x. x \<notin> block b \<longrightarrow> h' x = h x" using heap_store_outside [OF st] sub by blast
  have "unread h' ?b = bytes_at h' (cur_ptr (b_pos b)) (b_left b) @ bytes_at h' (cur_ptr (b_pos b) + of_nat (b_left b)) (length bs)"
    using bytes_at_add by (simp add: unread_def e)
  moreover have "cur_ptr (b_pos b) + of_nat (b_left b) = ?a"
    using inv bd by (simp add: buffer_inv_def of_nat_diff)
  moreover have "bytes_at h' ?a (length bs) = bs" by (rule heap_store_inside [OF st ua])
  moreover have "bytes_at h' (cur_ptr (b_pos b)) (b_left b) = unread h b"
    unfolding unread_def
  proof (rule bytes_at_cong)
    fix x assume "x \<in> range_of (cur_ptr (b_pos b)) (b_left b)"
    moreover have "unat (cur_ptr (b_pos b)) = unat (b_base b) + (b_end b - b_left b)" if "0 < b_left b"
    proof -
      have "unat (b_base b) + (b_end b - b_left b) < 2 ^ 64" using hi bd that by linarith
      then show ?thesis using inv unat_offset [of "b_base b" "b_end b - b_left b"] unfolding buffer_inv_def by metis
    qed
    moreover have "0 < b_left b" using calculation(1) by (cases "b_left b") auto
    ultimately have "x \<notin> range_of ?a (length bs)" using hi bd ue ua by (auto simp: range_of_iff)
    then show "h' x = h x" by (rule heap_store_outside [OF st])
  qed
  ultimately have "unread h' ?b = unread h b @ bs" by simp
  moreover have "b_room ?b = b_room b - length bs" using e by (simp add: b_room_def b_cap_def)
  ultimately show ?thesis using w inv' out heap_store_dom [OF st]
    by (intro exI [of _ h'] exI [of _ ?b]) (simp add: same_block_def b_base_def b_cap_def)
qed

lemma write_refused:
  assumes "buffer_inv b" and "b_room b < unat len"
  shows "mn_buffer_write h b src len = Some (h, b, MN_ERROR)"
proof -
  have bd: "b_end b \<le> b_cap b" "b_cap b < 2 ^ 63 - 1" "b_cap b < b_end b + unat len"
    using assms by (simp_all add: buffer_inv_def b_room_def)
  have "len > drop_bit 1 SIZE_MAX \<or> bb_len (b_buf b) + len > bb_capacity (b_buf b)"
  proof (cases "unat len < 2 ^ 63")
    case True
    then have "unat (bb_len (b_buf b) + len) = b_end b + unat len"
      using bd by (simp add: b_end_def unat_word_ariths)
    then show ?thesis using bd by (simp add: b_cap_def word_less_nat_alt)
  qed (simp add: word_less_nat_alt)
  moreover have "len \<noteq> 0" using assms(2) by auto
  ultimately show ?thesis using buf_valid [OF assms(1)]
    by (auto simp: mn_buffer_write_def aws_byte_buf_write_def wrote_def)
qed

lemma read_correct:
  assumes inv: "buffer_inv b" and mem: "block b \<subseteq> dom h" and le: "unat len \<le> b_left b"
  shows "\<exists>b'. mn_buffer_read h b len = Some (b', Inr (take (unat len) (unread h b))) \<and> buffer_inv b' \<and> same_block b b'
    \<and> unread h b' = drop (unat len) (unread h b) \<and> b_room b' = b_room b"
proof (cases "len = 0")
  case True
  then show ?thesis using inv cursor_valid [OF inv]
    by (simp add: mn_buffer_read_def aws_byte_cursor_read_def or_error_def)
next
  case False
  let ?c = "b_pos b"
  let ?b = "b\<lparr>b_pos := \<lparr>cur_len = cur_len ?c - len, cur_ptr = cur_ptr ?c + len\<rparr>\<rparr>"
  have nz: "0 < unat len" using False by (simp add: unat_gt_0)
  have p: "cur_ptr ?c \<noteq> 0" using cursor_nonnull [OF inv] nz le by simp
  have bd: "b_left b \<le> b_end b" "b_end b \<le> b_cap b" "b_cap b < 2 ^ 63 - 1" using inv by (simp_all add: buffer_inv_def)
  then have w: "len \<le> cur_len ?c" "\<not> cur_len ?c > drop_bit 1 SIZE_MAX" "\<not> len > drop_bit 1 SIZE_MAX" "cur_len ?c \<noteq> drop_bit 1 SIZE_MAX"
    using le by (auto simp: b_left_def word_less_nat_alt word_le_nat_alt)
  have adv: "aws_byte_cursor_advance_nospec ?c len = Some (b_pos ?b, \<lparr>cur_len = len, cur_ptr = cur_ptr ?c\<rparr>)"
    using advance_nospec_eq [of ?c len] w cursor_valid [OF inv]
    by (auto simp: aws_byte_cursor_advance_def not_less)
  have "range_of (cur_ptr ?c) (unat len) \<subseteq> dom h"
    using range_of_sub [of 0 "unat len" "b_left b" "cur_ptr ?c"] le unread_range [OF inv] mem by auto
  then have "heap_load h (cur_ptr ?c) (unat len) = Some (take (unat len) (unread h b))"
    using le by (simp add: heap_load_eq unread_def take_bytes_at)
  then have r: "mn_buffer_read h b len = Some (?b, Inr (take (unat len) (unread h b)))"
    using adv p False cursor_valid [OF inv] by (simp add: mn_buffer_read_def aws_byte_cursor_read_def or_error_def)
  have l: "b_left ?b = b_left b - unat len" using w(1) by (simp add: b_left_def word_nat)
  have "b_end b - (b_left b - unat len) = b_end b - b_left b + unat len" using le bd by simp
  moreover have "b_left b - unat len \<le> b_end b" using bd by simp
  ultimately have "buffer_inv ?b" using inv l by (simp add: buffer_inv_def b_base_def b_cap_def b_end_def add.assoc)
  moreover have "unread h ?b = drop (unat len) (unread h b)"
    using drop_bytes_at [OF le, of h "cur_ptr ?c"] by (simp add: unread_def l)
  ultimately show ?thesis using r
    by (intro exI [of _ ?b]) (simp add: same_block_def b_base_def b_cap_def b_room_def b_end_def)
qed

lemma read_refused:
  assumes "buffer_inv b" and "b_left b < unat len"
  shows "mn_buffer_read h b len = Some (b, Inl MN_ERROR)"
proof -
  have "\<not> len \<le> cur_len (b_pos b)" "len \<noteq> 0" using assms(2) by (auto simp: b_left_def word_le_nat_alt)
  then show ?thesis using cursor_valid [OF assms(1)]
    by (simp add: mn_buffer_read_def aws_byte_cursor_read_def aws_byte_cursor_advance_nospec_def or_error_def)
qed

lemma reset_correct:
  assumes "buffer_inv b"
  shows "buffer_inv (mn_buffer_reset b)" "same_block b (mn_buffer_reset b)" "b_end (mn_buffer_reset b) = 0" "b_left (mn_buffer_reset b) = 0"
  using assms
  by (simp_all add: mn_buffer_reset_def mn_buffer_write_reset_def mn_buffer_read_reset_def buffer_inv_def b_defs same_block_def)

text \<open>After a read reset the whole written part can be read again.\<close>

lemma read_reset_correct:
  assumes "buffer_inv b"
  shows "buffer_inv (mn_buffer_read_reset b) \<and> same_block b (mn_buffer_read_reset b)
    \<and> unread h (mn_buffer_read_reset b) = bytes_at h (b_base b) (b_end b) \<and> b_room (mn_buffer_read_reset b) = b_room b"
  using assms by (simp add: mn_buffer_read_reset_def buffer_inv_def b_defs same_block_def unread_def b_room_def)

lemma add_length_correct:
  assumes "buffer_inv b" and "unat len \<le> b_room b"
  shows "\<exists>b'. mn_buffer_add_length b len = (b', MN_SUCCESS) \<and> buffer_inv b' \<and> same_block b b'
    \<and> b_left b' = b_left b + unat len \<and> b_room b' = b_room b - unat len"
proof -
  let ?b = "b\<lparr>b_buf := (b_buf b)\<lparr>bb_len := bb_len (b_buf b) + len\<rparr>,
              b_pos := (b_pos b)\<lparr>cur_len := cur_len (b_pos b) + len\<rparr>\<rparr>"
  have bd: "b_end b + unat len \<le> b_cap b" "b_cap b < 2 ^ 63 - 1" "b_left b \<le> b_end b" "b_end b \<le> b_cap b"
    using assms by (auto simp: buffer_inv_def b_room_def)
  then have e: "b_end ?b = b_end b + unat len" "b_left ?b = b_left b + unat len"
    by (simp_all add: b_end_def b_left_def unat_word_ariths)
  have "\<not> len > bb_capacity (b_buf b) - bb_len (b_buf b)"
    using bd by (simp add: b_cap_def b_end_def word_less_nat_alt word_nat word_le_nat_alt)
  then have "mn_buffer_add_length b len = (?b, MN_SUCCESS)" by (simp add: mn_buffer_add_length_def)
  moreover have "b_end ?b - b_left ?b = b_end b - b_left b" using e bd by simp
  then have "buffer_inv ?b" using assms(1) e bd by (simp add: buffer_inv_def b_base_def b_cap_def)
  ultimately show ?thesis using e
    by (intro exI [of _ ?b]) (simp add: same_block_def b_base_def b_cap_def b_room_def)
qed

text \<open>Copying between buffers appends the oldest unread bytes, all of them when the length is zero, and does not consume them.\<close>

lemma read_buffer_correct:
  assumes src: "buffer_inv b" "block b \<subseteq> dom h" and dst: "buffer_inv d" "block d \<subseteq> dom h"
    and le: "unat len \<le> b_left b" and n: "n = (if len = 0 then b_left b else unat len)" and fits: "n \<le> b_room d"
  shows "\<exists>h' d'. mn_buffer_read_buffer h b d len = Some (h', d', MN_SUCCESS) \<and> buffer_inv d' \<and> same_block d d'
    \<and> unread h' d' = unread h d @ take n (unread h b) \<and> (\<forall>x. x \<notin> block d \<longrightarrow> h' x = h x)"
proof -
  let ?len = "if len = 0 then cur_len (b_pos b) else len"
  have u: "unat ?len = n" "n \<le> b_left b" using n le by (auto simp: b_left_def)
  have "range_of (cur_ptr (b_pos b)) n \<subseteq> dom h"
    using range_of_sub [of 0 n "b_left b" "cur_ptr (b_pos b)"] u(2) unread_range [OF src(1)] src(2) by auto
  then have ld: "heap_load h (cur_ptr (b_pos b)) n = Some (take n (unread h b))"
    using u(2) by (simp add: heap_load_eq unread_def take_bytes_at)
  have "\<not> len > cur_len (b_pos b)" using le by (simp add: b_left_def word_less_nat_alt)
  moreover obtain h' d' where "mn_buffer_write h d (Some (take n (unread h b))) ?len = Some (h', d', MN_SUCCESS)" "buffer_inv d'"
      "same_block d d'" "unread h' d' = unread h d @ take n (unread h b)" "\<forall>x. x \<notin> block d \<longrightarrow> h' x = h x"
    using write_correct [OF dst, of "take n (unread h b)" ?len] u fits by auto
  ultimately show ?thesis using ld u(1)
    by (intro exI [of _ h'] exI [of _ d']) (auto simp: mn_buffer_read_buffer_def Let_def mn_codes)
qed

section \<open>Fields of a message\<close>

text \<open>A client that writes a sequence of values and reads them again, with the operation of each width.\<close>

datatype field = F_u8 u8 | F_be16 u16 | F_be32 u32 | F_be64 u64 | F_raw bytes

fun field_bytes :: "field \<Rightarrow> bytes" where
  "field_bytes (F_u8 v) = [v]"
| "field_bytes (F_be16 v) = be16 v"
| "field_bytes (F_be32 v) = be32 v"
| "field_bytes (F_be64 v) = rev (le64 v)"
| "field_bytes (F_raw bs) = bs"

fun write_field :: "heap \<Rightarrow> mn_buffer \<Rightarrow> field \<Rightarrow> (heap \<times> mn_buffer \<times> int) option" where
  "write_field h b (F_u8 v) = mn_buffer_write_u8 h b v"
| "write_field h b (F_be16 v) = mn_buffer_write_be16 h b v"
| "write_field h b (F_be32 v) = mn_buffer_write_be32 h b v"
| "write_field h b (F_be64 v) = mn_buffer_write_be64 h b v"
| "write_field h b (F_raw bs) = mn_buffer_write h b (Some bs) (of_nat (length bs))"

text \<open>Reads a field of the kind (and for raw bytes the length) of the given one.\<close>

fun read_field :: "heap \<Rightarrow> mn_buffer \<Rightarrow> field \<Rightarrow> (mn_buffer \<times> (int + field)) option" where
  "read_field h b (F_u8 _) = map_option (map_prod id (map_sum id F_u8)) (mn_buffer_read_u8 h b)"
| "read_field h b (F_be16 _) = map_option (map_prod id (map_sum id F_be16)) (mn_buffer_read_be16 h b)"
| "read_field h b (F_be32 _) = map_option (map_prod id (map_sum id F_be32)) (mn_buffer_read_be32 h b)"
| "read_field h b (F_be64 _) = map_option (map_prod id (map_sum id F_be64)) (mn_buffer_read_be64 h b)"
| "read_field h b (F_raw bs) = map_option (map_prod id (map_sum id F_raw)) (mn_buffer_read h b (of_nat (length bs)))"

fun write_fields :: "heap \<Rightarrow> mn_buffer \<Rightarrow> field list \<Rightarrow> (heap \<times> mn_buffer \<times> int) option" where
  "write_fields h b [] = Some (h, b, MN_SUCCESS)"
| "write_fields h b (f # fs) = do {
     (h, b, rc) \<leftarrow> write_field h b f;
     if rc \<noteq> 0 then Some (h, b, rc) else write_fields h b fs
   }"

fun read_fields :: "heap \<Rightarrow> mn_buffer \<Rightarrow> field list \<Rightarrow> (mn_buffer \<times> (int + field list)) option" where
  "read_fields h b [] = Some (b, Inr [])"
| "read_fields h b (f # fs) = do {
     (b, r) \<leftarrow> read_field h b f;
     case r of Inl e \<Rightarrow> Some (b, Inl e)
     | Inr v \<Rightarrow> do { (b, r) \<leftarrow> read_fields h b fs; Some (b, map_sum id ((#) v) r) }
   }"

text \<open>The field that given bytes hold.\<close>

fun field_of :: "field \<Rightarrow> bytes \<Rightarrow> field" where
  "field_of (F_u8 _) bs = F_u8 (bs ! 0)"
| "field_of (F_be16 _) bs = F_be16 (aws_ntoh16 (le16_of bs))"
| "field_of (F_be32 _) bs = F_be32 (aws_ntoh32 (le32_of bs))"
| "field_of (F_be64 _) bs = F_be64 (aws_ntoh64 (le64_of bs))"
| "field_of (F_raw _) bs = F_raw bs"

abbreviation field_size :: "field \<Rightarrow> nat" where "field_size f \<equiv> length (field_bytes f)"

lemma field_of_bytes: "field_of f (field_bytes f) = f"
proof (cases f)
  case (F_be16 v)
  then show ?thesis by (simp add: rawr_defs flip: le_bswap)
next
  case (F_be32 v)
  then show ?thesis by (simp add: rawr_defs flip: le_bswap)
next
  case (F_be64 v)
  then show ?thesis by (simp flip: le64_hton)
qed simp_all

lemma write_field_eq:
  assumes "buffer_inv b" and "field_size f < 2 ^ 64"
  shows "write_field h b f = mn_buffer_write h b (Some (field_bytes f)) (of_nat (field_size f))"
  using buf_valid [OF assms(1)]
  by (cases f) (simp_all add: mn_buffer_write_def mn_buffer_write_u8_def mn_buffer_write_be16_def mn_buffer_write_be32_def
    mn_buffer_write_be64_def aws_byte_buf_write_u8_def aws_byte_buf_write_be16_def aws_byte_buf_write_be32_def
    aws_byte_buf_write_be64_def rawr_defs le_bswap le64_hton)

lemma read_field_eq:
  "read_field h b f = map_option (map_prod id (map_sum id (field_of f))) (mn_buffer_read h b (of_nat (field_size f)))"
  by (cases f) (auto simp: mn_buffer_read_def mn_buffer_read_u8_def mn_buffer_read_be16_def mn_buffer_read_be32_def
    mn_buffer_read_be64_def aws_byte_cursor_read_u8_def aws_byte_cursor_read_be16_def aws_byte_cursor_read_be32_def
    aws_byte_cursor_read_be64_def or_error_def map_prod_def split: option.splits Option.bind_splits)

lemma write_fields_correct:
  assumes "buffer_inv b" and "block b \<subseteq> dom h" and "sum_list (map field_size fs) \<le> b_room b"
  shows "\<exists>h' b'. write_fields h b fs = Some (h', b', MN_SUCCESS) \<and> buffer_inv b' \<and> same_block b b'
    \<and> unread h' b' = unread h b @ concat (map field_bytes fs) \<and> dom h' = dom h \<and> (\<forall>x. x \<notin> block b \<longrightarrow> h' x = h x)"
  using assms
proof (induction fs arbitrary: h b)
  case (Cons f fs)
  have sz: "field_size f \<le> b_room b" "field_size f < 2 ^ 64"
    using Cons.prems by (auto simp: buffer_inv_def b_room_def)
  then obtain h1 b1 where w: "write_field h b f = Some (h1, b1, MN_SUCCESS)" and i: "buffer_inv b1" "same_block b b1"
      "unread h1 b1 = unread h b @ field_bytes f" "b_room b1 = b_room b - field_size f" "dom h1 = dom h"
      "\<forall>x. x \<notin> block b \<longrightarrow> h1 x = h x"
    using write_correct [OF Cons.prems(1,2), of "field_bytes f" "of_nat (field_size f)"]
      write_field_eq [OF Cons.prems(1) sz(2), of h] by (auto simp: unat_of_nat)
  have "block b1 = block b" by (rule block_same [OF i(2)])
  moreover have "sum_list (map field_size fs) \<le> b_room b1" using i(4) Cons.prems(3) by simp
  ultimately obtain h2 b2 where "write_fields h1 b1 fs = Some (h2, b2, MN_SUCCESS)" "buffer_inv b2" "same_block b1 b2"
      "unread h2 b2 = unread h1 b1 @ concat (map field_bytes fs)" "dom h2 = dom h1" "\<forall>x. x \<notin> block b \<longrightarrow> h2 x = h1 x"
    using Cons.IH [of b1 h1] i Cons.prems(2) by auto
  then show ?case using w i
    by (intro exI [of _ h2] exI [of _ b2]) (auto simp: mn_codes intro: same_block_trans)
qed auto

lemma read_fields_correct:
  assumes "buffer_inv b" and "block b \<subseteq> dom h" and "unread h b = concat (map field_bytes fs) @ rest"
  shows "\<exists>b'. read_fields h b fs = Some (b', Inr fs) \<and> buffer_inv b' \<and> unread h b' = rest"
  using assms
proof (induction fs arbitrary: b)
  case (Cons f fs)
  have "b_left b = length (concat (map field_bytes (f # fs)) @ rest)" by (metis Cons.prems(3) length_unread)
  then have sz: "field_size f \<le> b_left b" "field_size f < 2 ^ 64"
    using Cons.prems(1) by (auto simp: buffer_inv_def)
  then have u: "unat (of_nat (field_size f) :: size_t) = field_size f" by (simp add: unat_of_nat)
  obtain b1 where r: "read_field h b f = Some (b1, Inr f)" and i: "buffer_inv b1" "same_block b b1"
      "unread h b1 = concat (map field_bytes fs) @ rest"
    using read_correct [OF Cons.prems(1,2), of "of_nat (field_size f)"] sz(1) Cons.prems(3)
    by (auto simp: u read_field_eq field_of_bytes)
  obtain b2 where "read_fields h b1 fs = Some (b2, Inr fs)" "buffer_inv b2" "unread h b2 = rest"
    using Cons.IH [OF i(1) _ i(3)] Cons.prems(2) block_same [OF i(2)] by auto
  then show ?case using r by simp
qed simp

text \<open>
  (C18) A message written to an empty buffer as bytes, integers of 8, 16, 32 and 64 bits and raw data, in any
  order and as long as it fits, is read back value by value; nothing is left over, and no byte outside the block of
  the buffer changes.
\<close>

theorem buffer_fields_roundtrip:
  assumes "buffer_inv b" and "block b \<subseteq> dom h" and "unread h b = []"
    and "sum_list (map field_size fs) \<le> b_room b"
  shows "\<exists>h' b' b''. write_fields h b fs = Some (h', b', MN_SUCCESS)
    \<and> read_fields h' b' fs = Some (b'', Inr fs) \<and> unread h' b'' = [] \<and> (\<forall>x. x \<notin> block b \<longrightarrow> h' x = h x)"
proof -
  obtain h' b' where w: "write_fields h b fs = Some (h', b', MN_SUCCESS)" "buffer_inv b'" "same_block b b'"
      "unread h' b' = concat (map field_bytes fs)" "dom h' = dom h" "\<forall>x. x \<notin> block b \<longrightarrow> h' x = h x"
    using write_fields_correct [OF assms(1,2,4)] assms(3) by auto
  then obtain b'' where "read_fields h' b' fs = Some (b'', Inr fs)" "unread h' b'' = []"
    using read_fields_correct [of b' h' fs "[]"] assms(2) block_same by auto
  then show ?thesis using w by blast
qed

definition demo_heap :: heap where
  "demo_heap = (\<lambda>a. if 100 \<le> a \<and> a < 116 then Some 0 else None)"

definition demo_buffer :: mn_buffer where
  "demo_buffer = \<lparr>b_pool = 0, b_buf = \<lparr>bb_len = 0, bb_buffer = 100, bb_capacity = 16, bb_allocator = 0\<rparr>,
     b_pos = \<lparr>cur_len = 0, cur_ptr = 100\<rparr>, b_capacity = 0\<rparr>"

lemma demo_buffer_inv: "buffer_inv demo_buffer" "block demo_buffer \<subseteq> dom demo_heap"
proof -
  show "buffer_inv demo_buffer" by (simp add: buffer_inv_def demo_buffer_def b_defs)
  show "block demo_buffer \<subseteq> dom demo_heap"
    by (auto simp: block_def demo_buffer_def b_defs range_of_iff demo_heap_def word_le_nat_alt word_less_nat_alt)
qed

theorem buffer_fields_roundtrip_witness:
  "\<exists>h' b' b''. write_fields demo_heap demo_buffer [F_u8 7, F_be64 0x0102030405060708, F_be16 9, F_raw [1, 2]] = Some (h', b', MN_SUCCESS)
    \<and> read_fields h' b' [F_u8 7, F_be64 0x0102030405060708, F_be16 9, F_raw [1, 2]]
        = Some (b'', Inr [F_u8 7, F_be64 0x0102030405060708, F_be16 9, F_raw [1, 2]])"
proof -
  let ?fs = "[F_u8 7, F_be64 0x0102030405060708, F_be16 9, F_raw [1, 2]]"
  have "unread demo_heap demo_buffer = []" by (simp add: unread_def demo_buffer_def b_defs)
  moreover have "sum_list (map field_size ?fs) \<le> b_room demo_buffer" by (simp add: b_room_def demo_buffer_def b_defs)
  ultimately show ?thesis using buffer_fields_roundtrip [OF demo_buffer_inv, of ?fs] by blast
qed

end
