(* ===== verification/BufferPool.thy ===== *)
theory BufferPool
  imports MnBuffer "HOL-Library.Multiset"
begin

text \<open>
  \<^verbatim>\<open>deps/mn/src/buffer_pool.c\<close>: blocks of equal size cut from one allocation, handed out and taken back
  through the pointer queue, and the two operations of \<^verbatim>\<open>buffer.c\<close> that use the pool of a buffer. The main result is that a
  client that gives back what it was given never shares a block.
\<close>

section \<open>Operations\<close>

text \<open>\<open>mn_buffers\<close> is the address of the array of buffers and \<open>buffer_array\<close> what the array holds.\<close>

record mn_buffer_pool =
  blocks_inuse :: u64
  bytes_inuse :: u64
  block_size :: u64
  block_count :: u64
  mn_buffers :: u64
  buffer_array :: "mn_buffer list"
  allocation :: u64
  mn_buffers_free :: mn_queue_spsc

definition sizeof_mn_buffer :: u64 where "sizeof_mn_buffer = 64"

definition buffer_addr :: "mn_buffer_pool \<Rightarrow> nat \<Rightarrow> u64" where
  "buffer_addr pool i = mn_buffers pool + of_nat i * sizeof_mn_buffer"

text \<open>The element of the array a pointer refers to.\<close>

definition buffer_of :: "mn_buffer_pool \<Rightarrow> u64 \<Rightarrow> nat option" where
  "buffer_of pool p =
     (let i = unat (p - mn_buffers pool) div unat sizeof_mn_buffer in
      if i < length (buffer_array pool) \<and> buffer_addr pool i = p then Some i else None)"

text \<open>The loop of the set-up; \<open>False\<close> is the jump to the clean-up. \<open>self\<close> is the address of the pool.\<close>

fun pool_fill :: "u64 \<Rightarrow> mn_buffer_pool \<Rightarrow> nat \<Rightarrow> nat \<Rightarrow> (mn_buffer_pool \<times> bool) option" where
  "pool_fill self pool i 0 = Some (pool, True)"
| "pool_fill self pool i (Suc n) = do {
     guard (i < length (buffer_array pool));
     let buf = allocation pool + (block_count pool - 1 - of_nat i) * block_size pool in do {
       (b, rc) \<leftarrow> mn_buffer_setup (buffer_array pool ! i) buf (block_size pool);
       if rc \<noteq> 0 then Some (pool\<lparr>buffer_array := (buffer_array pool)[i := b]\<rparr>, False)
       else (let pool = pool\<lparr>buffer_array := (buffer_array pool)[i := b\<lparr>b_pool := self\<rparr>]\<rparr> in do {
         (q, rc) \<leftarrow> mn_queue_spsc_push (mn_buffers_free pool) (buffer_addr pool i);
         if rc \<noteq> 0 then Some (pool\<lparr>mn_buffers_free := q\<rparr>, False)
         else pool_fill self (pool\<lparr>mn_buffers_free := q\<rparr>) (Suc i) n
       })
     }
   }"

text \<open>
  The addresses of the two allocations, 0 for a failure, what the new array holds, and the outcome of the allocation
  of the queue are parameters.
\<close>

definition mn_buffer_pool_setup ::
  "u64 \<Rightarrow> u64 \<Rightarrow> u64 \<Rightarrow> (nat \<Rightarrow> mn_buffer) \<Rightarrow> bool \<Rightarrow> (nat \<Rightarrow> u64) \<Rightarrow> mn_buffer_pool \<Rightarrow> u64 \<Rightarrow> u64 \<Rightarrow> (mn_buffer_pool \<times> int) option" where
  "mn_buffer_pool_setup self mem arr ajunk qmem qjunk pool blocks sz = do {
     guard (blocks > 0);
     guard (sz > 0);
     let pool = pool\<lparr>block_count := blocks, block_size := sz, blocks_inuse := 0, bytes_inuse := 0,
                     mn_buffers := 0, buffer_array := [], allocation := mem\<rparr> in
     if mem = 0 then Some (pool, MN_ERROR)
     else (let pool = pool\<lparr>mn_buffers := arr\<rparr> in
       if arr = 0 then Some (pool, MN_ERROR)
       else (let pool = pool\<lparr>buffer_array := map ajunk [0..<unat (blocks * sizeof_mn_buffer) div 64]\<rparr> in do {
         (q, rc) \<leftarrow> mn_queue_spsc_setup qmem qjunk (mn_buffers_free pool) blocks;
         let pool = pool\<lparr>mn_buffers_free := q\<rparr> in
         if rc \<noteq> 0 then Some (pool, MN_ERROR)
         else do {
           (pool, done) \<leftarrow> pool_fill self pool 0 (unat blocks);
           Some (pool, if done then MN_SUCCESS else MN_ERROR)
         }
       }))
   }"

text \<open>The releases leave the pointers as they are and the array gone.\<close>

definition mn_buffer_pool_cleanup :: "mn_buffer_pool \<Rightarrow> mn_buffer_pool" where
  "mn_buffer_pool_cleanup pool = pool\<lparr>blocks_inuse := 0, bytes_inuse := 0, buffer_array := []\<rparr>"

definition mn_buffer_pool_push :: "mn_buffer_pool \<Rightarrow> u64 \<Rightarrow> (mn_buffer_pool \<times> int) option" where
  "mn_buffer_pool_push pool buffer = do {
     guard (buffer \<noteq> 0);
     (q, rc) \<leftarrow> mn_queue_spsc_push (mn_buffers_free pool) buffer;
     let pool = pool\<lparr>mn_buffers_free := q\<rparr> in
     if rc \<noteq> 0 then Some (pool, MN_ERROR)
     else Some (pool\<lparr>blocks_inuse := blocks_inuse pool - 1, bytes_inuse := bytes_inuse pool - block_size pool\<rparr>, MN_SUCCESS)
   }"

text \<open>\<open>mn_buffer_reset\<close> of the buffer at an address.\<close>

definition reset_at :: "mn_buffer_pool \<Rightarrow> u64 \<Rightarrow> mn_buffer_pool option" where
  "reset_at pool p = do {
     i \<leftarrow> buffer_of pool p;
     Some (pool\<lparr>buffer_array := (buffer_array pool)[i := mn_buffer_reset (buffer_array pool ! i)]\<rparr>)
   }"

definition mn_buffer_pool_peek :: "mn_buffer_pool \<Rightarrow> (mn_buffer_pool \<times> u64 \<times> int) option" where
  "mn_buffer_pool_peek pool = do {
     (q, p, rc) \<leftarrow> mn_queue_spsc_peek (mn_buffers_free pool);
     let pool = pool\<lparr>mn_buffers_free := q\<rparr> in
     if rc \<noteq> 0 then Some (pool, p, MN_ERROR)
     else do { guard (p \<noteq> 0); pool \<leftarrow> reset_at pool p; Some (pool, p, MN_SUCCESS) }
   }"

definition count_taken :: "mn_buffer_pool \<Rightarrow> mn_buffer_pool" where
  "count_taken pool = pool\<lparr>blocks_inuse := blocks_inuse pool + 1, bytes_inuse := bytes_inuse pool + block_size pool\<rparr>"

definition mn_buffer_pool_pop :: "mn_buffer_pool \<Rightarrow> mn_buffer_pool \<times> int" where
  "mn_buffer_pool_pop pool =
     (case mn_queue_spsc_pop (mn_buffers_free pool) of (q, rc) \<Rightarrow>
        let pool = pool\<lparr>mn_buffers_free := q\<rparr> in
        if rc \<noteq> 0 then (pool, MN_ERROR) else (count_taken pool, MN_SUCCESS))"

definition mn_buffer_pool_pop_cached :: "mn_buffer_pool \<Rightarrow> mn_buffer_pool" where
  "mn_buffer_pool_pop_cached pool = count_taken (pool\<lparr>mn_buffers_free := mn_queue_spsc_pop_cached (mn_buffers_free pool)\<rparr>)"

definition mn_buffer_pool_pop_back :: "mn_buffer_pool \<Rightarrow> (mn_buffer_pool \<times> u64 \<times> int) option" where
  "mn_buffer_pool_pop_back pool = do {
     (q, p, rc) \<leftarrow> mn_queue_spsc_pop_back (mn_buffers_free pool);
     let pool = pool\<lparr>mn_buffers_free := q\<rparr> in
     if rc \<noteq> 0 then Some (pool, p, MN_ERROR)
     else do { guard (p \<noteq> 0); pool \<leftarrow> reset_at (count_taken pool) p; Some (pool, p, MN_SUCCESS) }
   }"

text \<open>The operations of a buffer at an address \<open>p\<close> that go through its pool; a buffer set up without one has a null pointer there.\<close>

definition mn_buffer_capacity :: "mn_buffer_pool \<Rightarrow> mn_buffer \<Rightarrow> size_t option" where
  "mn_buffer_capacity pool buffer = (if b_pool buffer = 0 then None else Some (block_size pool))"

definition mn_buffer_release :: "mn_buffer_pool \<Rightarrow> u64 \<Rightarrow> (mn_buffer_pool \<times> int) option" where
  "mn_buffer_release pool p = do {
     i \<leftarrow> buffer_of pool p;
     if b_pool (buffer_array pool ! i) = 0 then Some (pool, MN_ERROR) else mn_buffer_pool_push pool p
   }"

section \<open>The invariant\<close>

text \<open>How the blocks lie in the allocation, the last one first.\<close>

definition blocks_ok :: "mn_buffer_pool \<Rightarrow> nat \<Rightarrow> bool" where
  "blocks_ok pool n \<longleftrightarrow> (\<forall>i<n. let b = buffer_array pool ! i in
     buffer_inv b \<and> b_pool b \<noteq> 0 \<and> b_cap b = unat (block_size pool)
     \<and> b_base b = allocation pool + of_nat ((unat (block_count pool) - 1 - i) * unat (block_size pool)))"

definition pool_frame :: "mn_buffer_pool \<Rightarrow> bool" where
  "pool_frame pool \<longleftrightarrow> length (buffer_array pool) = unat (block_count pool) \<and> 0 < unat (block_size pool)
     \<and> allocation pool \<noteq> 0 \<and> unat (allocation pool) + unat (block_count pool) * unat (block_size pool) \<le> 2 ^ 64
     \<and> mn_buffers pool \<noteq> 0 \<and> unat (mn_buffers pool) + unat (block_count pool) * 64 \<le> 2 ^ 64"

definition addrs :: "mn_buffer_pool \<Rightarrow> u64 list" where
  "addrs pool = map (buffer_addr pool) [0..<unat (block_count pool)]"

text \<open>What is held by clients and what is free are together the buffers of the pool, each once. The queue of free buffers has the least
  power of two of entries that is enough for all of them.\<close>

definition least_pow2 :: "nat \<Rightarrow> nat \<Rightarrow> bool" where
  "least_pow2 n c \<longleftrightarrow> (\<exists>k. c = 2 ^ k \<and> n \<le> 2 ^ k \<and> (k = 0 \<or> 2 ^ (k - 1) < n))"

lemma least_pow2_le: "least_pow2 n c \<Longrightarrow> n \<le> c"
  by (auto simp: least_pow2_def)

lemma least_pow2_eq: "least_pow2 n c \<Longrightarrow> (\<exists>k. n = 2 ^ k) \<longleftrightarrow> n = c"
proof -
  assume "least_pow2 n c"
  then obtain k where k: "c = 2 ^ k" "n \<le> 2 ^ k" "k = 0 \<or> 2 ^ (k - 1) < n" by (auto simp: least_pow2_def)
  have "j = k" if "n = 2 ^ j" for j
  proof -
    have "j \<le> k" using k(2) that by simp
    moreover have "k \<le> j" using k(3) that by auto
    ultimately show ?thesis by simp
  qed
  then show ?thesis using k(1) by auto
qed

definition pool_inv :: "mn_buffer_pool \<Rightarrow> u64 list \<Rightarrow> bool" where
  "pool_inv pool held \<longleftrightarrow> pool_frame pool \<and> blocks_ok pool (unat (block_count pool))
     \<and> q_inv (mn_buffers_free pool) \<and> least_pow2 (unat (block_count pool)) (q_cap (mn_buffers_free pool))
     \<and> mset held + mset (q_contents (mn_buffers_free pool)) = mset (addrs pool)
     \<and> blocks_inuse pool = of_nat (length held) \<and> bytes_inuse pool = blocks_inuse pool * block_size pool"

text \<open>The queue and the counters do not matter for where things lie.\<close>

lemma buffer_addr_upd [simp]:
  "buffer_addr (pool\<lparr>mn_buffers_free := q\<rparr>) = buffer_addr pool" "buffer_addr (pool\<lparr>blocks_inuse := x\<rparr>) = buffer_addr pool"
  "buffer_addr (pool\<lparr>bytes_inuse := x\<rparr>) = buffer_addr pool" "buffer_addr (pool\<lparr>buffer_array := bs\<rparr>) = buffer_addr pool"
  by (simp_all add: fun_eq_iff buffer_addr_def)

lemma addrs_upd [simp]:
  "addrs (pool\<lparr>mn_buffers_free := q\<rparr>) = addrs pool" "addrs (pool\<lparr>blocks_inuse := x\<rparr>) = addrs pool"
  "addrs (pool\<lparr>bytes_inuse := x\<rparr>) = addrs pool" "addrs (pool\<lparr>buffer_array := bs\<rparr>) = addrs pool"
  by (simp_all add: addrs_def)

lemma frame_upd [simp]:
  "pool_frame (pool\<lparr>mn_buffers_free := q\<rparr>) = pool_frame pool" "pool_frame (pool\<lparr>blocks_inuse := x\<rparr>) = pool_frame pool"
  "pool_frame (pool\<lparr>bytes_inuse := x\<rparr>) = pool_frame pool"
  by (simp_all add: pool_frame_def)

lemma blocks_upd [simp]:
  "blocks_ok (pool\<lparr>mn_buffers_free := q\<rparr>) n = blocks_ok pool n" "blocks_ok (pool\<lparr>blocks_inuse := x\<rparr>) n = blocks_ok pool n"
  "blocks_ok (pool\<lparr>bytes_inuse := x\<rparr>) n = blocks_ok pool n"
  by (simp_all add: blocks_ok_def)

lemma addr_facts:
  assumes "pool_frame pool" and "i < unat (block_count pool)"
  shows "unat (buffer_addr pool i) = unat (mn_buffers pool) + i * 64"
proof -
  have "unat (mn_buffers pool) + i * 64 < 2 ^ 64" using assms by (simp add: pool_frame_def)
  then show ?thesis using unat_offset [of "mn_buffers pool" "i * 64"] by (simp add: buffer_addr_def sizeof_mn_buffer_def)
qed

lemma addr_nonnull: "pool_frame pool \<Longrightarrow> i < unat (block_count pool) \<Longrightarrow> buffer_addr pool i \<noteq> 0"
  using addr_facts [of pool i] by (auto simp: pool_frame_def unat_eq_zero)

lemma buffer_of_addr:
  assumes "pool_frame pool" and "i < unat (block_count pool)"
  shows "buffer_of pool (buffer_addr pool i) = Some i"
proof -
  have "mn_buffers pool \<le> buffer_addr pool i" using addr_facts [OF assms] by (simp add: word_le_nat_alt)
  then have "unat (buffer_addr pool i - mn_buffers pool) = i * 64" using addr_facts [OF assms] by (simp add: word_nat)
  then show ?thesis using assms by (simp add: buffer_of_def sizeof_mn_buffer_def pool_frame_def)
qed

lemma distinct_addrs: "pool_frame pool \<Longrightarrow> distinct (addrs pool)"
  unfolding addrs_def distinct_map
  by (auto intro!: inj_onI) (metis buffer_of_addr option.inject)

lemma set_addrs: "p \<in> set (addrs pool) \<longleftrightarrow> (\<exists>i<unat (block_count pool). p = buffer_addr pool i)"
  by (auto simp: addrs_def)

lemma block_in:
  assumes "blocks_ok pool n" and "i < n" and "n \<le> unat (block_count pool)"
  shows "block (buffer_array pool ! i) = range_of (allocation pool + of_nat ((unat (block_count pool) - 1 - i) * unat (block_size pool))) (unat (block_size pool))"
  using assms by (auto simp: blocks_ok_def block_def Let_def)

lemma blocks_disjoint:
  assumes "pool_frame pool" and ok: "blocks_ok pool (unat (block_count pool))"
    and ij: "i < unat (block_count pool)" "j < unat (block_count pool)" "i < j"
  shows "block (buffer_array pool ! i) \<inter> block (buffer_array pool ! j) = {}"
proof -
  let ?n = "unat (block_count pool)" let ?s = "unat (block_size pool)" let ?a = "allocation pool"
  define u v where "u = ?n - 1 - i" and "v = ?n - 1 - j"
  have uv: "v < u" "u < ?n" using ij by (auto simp: u_def v_def)
  have m: "Suc u * ?s \<le> ?n * ?s" "Suc v * ?s \<le> u * ?s" using uv mult_le_mono1 [of "Suc u" ?n ?s] mult_le_mono1 [of "Suc v" u ?s] by simp_all
  have fr: "unat ?a + ?n * ?s \<le> 2 ^ 64" "0 < ?s" using assms(1) by (simp_all add: pool_frame_def)
  have "unat (?a + of_nat (u * ?s)) = unat ?a + u * ?s" by (rule unat_offset) (use m fr in simp)
  moreover have "unat (?a + of_nat (v * ?s)) = unat ?a + v * ?s" by (rule unat_offset) (use m fr in simp)
  moreover have "block (buffer_array pool ! i) = range_of (?a + of_nat (u * ?s)) ?s"
    unfolding u_def by (rule block_in [OF ok ij(1) order_refl])
  moreover have "block (buffer_array pool ! j) = range_of (?a + of_nat (v * ?s)) ?s"
    unfolding v_def by (rule block_in [OF ok ij(2) order_refl])
  ultimately show ?thesis using m fr by (auto simp: range_of_iff simp del: of_nat_mult)
qed

section \<open>Taking and giving back\<close>

lemma blocks_ok_cong:
  "length (buffer_array pool') = length (buffer_array pool) \<Longrightarrow> block_size pool' = block_size pool \<Longrightarrow>
   block_count pool' = block_count pool \<Longrightarrow> allocation pool' = allocation pool \<Longrightarrow>
   (\<And>i. i < n \<Longrightarrow> buffer_inv (buffer_array pool ! i) \<Longrightarrow>
      buffer_inv (buffer_array pool' ! i) \<and> same_block (buffer_array pool ! i) (buffer_array pool' ! i)) \<Longrightarrow>
   blocks_ok pool n \<Longrightarrow> blocks_ok pool' n"
  by (auto simp: blocks_ok_def Let_def same_block_def)

lemma reset_at_ok:
  assumes "pool_frame pool" and "blocks_ok pool (unat (block_count pool))" and "i < unat (block_count pool)"
  obtains pool' where "reset_at pool (buffer_addr pool i) = Some pool'" "pool_frame pool'"
    "blocks_ok pool' (unat (block_count pool'))" "addrs pool' = addrs pool"
    "pool' = pool\<lparr>buffer_array := buffer_array pool'\<rparr>"
proof
  let ?p = "pool\<lparr>buffer_array := (buffer_array pool)[i := mn_buffer_reset (buffer_array pool ! i)]\<rparr>"
  show "reset_at pool (buffer_addr pool i) = Some ?p" using assms by (simp add: reset_at_def buffer_of_addr)
  show "pool_frame ?p" using assms(1) by (simp add: pool_frame_def)
  show "blocks_ok ?p (unat (block_count ?p))"
    by (rule blocks_ok_cong [of _ pool]) (use assms in \<open>auto simp: nth_list_update reset_correct pool_frame_def\<close>)
  show "addrs ?p = addrs pool" by simp
  show "?p = pool\<lparr>buffer_array := buffer_array ?p\<rparr>" by simp
qed

lemma pool_pop_back_correct:
  assumes inv: "pool_inv pool held"
  shows "if length held = unat (block_count pool)
         then mn_buffer_pool_pop_back pool = Some (pool, 0, MN_ERROR)
         else \<exists>pool' p. mn_buffer_pool_pop_back pool = Some (pool', p, MN_SUCCESS) \<and> pool_inv pool' (held @ [p])
           \<and> block_count pool' = block_count pool"
proof -
  let ?q = "mn_buffers_free pool"
  have q: "q_inv ?q" "unat (block_count pool) \<le> q_cap ?q" and ms: "mset held + mset (q_contents ?q) = mset (addrs pool)"
    using inv by (simp_all add: pool_inv_def least_pow2_le)
  have len: "length held + length (q_contents ?q) = unat (block_count pool)"
    using arg_cong [OF ms, of size] by (simp add: addrs_def)
  note pb = pop_back_correct [OF q(1)]
  show ?thesis
  proof (cases "q_contents ?q")
    case Nil
    then show ?thesis using pb len by (simp add: mn_buffer_pool_pop_back_def mn_codes)
  next
    case (Cons p ps)
    then obtain q' where q': "mn_queue_spsc_pop_back ?q = Some (q', p, MN_SUCCESS)" "q_inv q'" "q_cap q' = q_cap ?q" "q_contents q' = ps"
      using pb by auto
    let ?p1 = "count_taken (pool\<lparr>mn_buffers_free := q'\<rparr>)"
    have "p \<in> set (addrs pool)" using Cons mset_eq_setD [OF ms [folded mset_append]] by auto
    then obtain i where i: "i < unat (block_count pool)" "p = buffer_addr pool i" by (auto simp: set_addrs)
    have fr: "pool_frame ?p1" "blocks_ok ?p1 (unat (block_count ?p1))"
      using inv by (simp_all add: pool_inv_def count_taken_def)
    have pa: "p = buffer_addr ?p1 i" "i < unat (block_count ?p1)" using i by (simp_all add: count_taken_def)
    obtain p2 where p2: "reset_at ?p1 p = Some p2" "pool_frame p2" "blocks_ok p2 (unat (block_count p2))" "addrs p2 = addrs ?p1"
        "p2 = ?p1\<lparr>buffer_array := buffer_array p2\<rparr>"
      using reset_at_ok [OF fr pa(2)] pa(1) by metis
    have "p \<noteq> 0" using addr_nonnull [OF fr(1) pa(2)] pa(1) by simp
    then have "mn_buffer_pool_pop_back pool = Some (p2, p, MN_SUCCESS)"
      using q'(1) p2(1) by (simp add: mn_buffer_pool_pop_back_def mn_codes)
    moreover have "mset (held @ [p]) + mset (q_contents q') = mset (addrs p2)"
      using ms Cons q'(4) p2(4) by (simp add: count_taken_def)
    moreover have eqs: "mn_buffers_free p2 = q'" "block_count p2 = block_count pool"
      "blocks_inuse p2 = blocks_inuse pool + 1" "bytes_inuse p2 = bytes_inuse pool + block_size pool" "block_size p2 = block_size pool"
      by (subst p2(5), simp add: count_taken_def)+
    moreover have "pool_inv p2 (held @ [p])"
      using calculation(2) inv q' p2(2,3) by (simp add: pool_inv_def eqs algebra_simps)
    ultimately show ?thesis using len Cons by auto
  qed
qed

lemma pool_release_correct:
  assumes inv: "pool_inv pool (ps @ p # rs)"
  shows "\<exists>pool'. mn_buffer_release pool p = Some (pool', MN_SUCCESS) \<and> pool_inv pool' (ps @ rs) \<and> block_count pool' = block_count pool"
proof -
  let ?q = "mn_buffers_free pool"
  have q: "q_inv ?q" "unat (block_count pool) \<le> q_cap ?q" and ms: "mset (ps @ p # rs) + mset (q_contents ?q) = mset (addrs pool)"
    and fr: "pool_frame pool" "blocks_ok pool (unat (block_count pool))"
    using inv by (simp_all add: pool_inv_def least_pow2_le)
  have "length (ps @ p # rs) + length (q_contents ?q) = unat (block_count pool)"
    using arg_cong [OF ms, of size] by (simp add: addrs_def)
  then have "q_used ?q \<noteq> q_cap ?q" using q(2) by simp
  then obtain q' where q': "mn_queue_spsc_push ?q p = Some (q', MN_SUCCESS)" "q_inv q'" "q_cap q' = q_cap ?q"
      "q_contents q' = q_contents ?q @ [p]"
    using push_correct [OF q(1), of p] by auto
  have "p \<in> set (addrs pool)" using mset_eq_setD [OF ms [folded mset_append]] by auto
  then obtain i where i: "i < unat (block_count pool)" "p = buffer_addr pool i" by (auto simp: set_addrs)
  let ?p = "pool\<lparr>mn_buffers_free := q', blocks_inuse := blocks_inuse pool - 1, bytes_inuse := bytes_inuse pool - block_size pool\<rparr>"
  have "mn_buffer_release pool p = Some (?p, MN_SUCCESS)"
    using buffer_of_addr [OF fr(1) i(1)] addr_nonnull [OF fr(1) i(1)] fr(2) i q'(1)
    by (simp add: mn_buffer_release_def mn_buffer_pool_push_def blocks_ok_def Let_def mn_codes)
  moreover have "pool_inv ?p (ps @ rs)"
    using inv q' by (simp add: pool_inv_def algebra_simps)
  ultimately show ?thesis by auto
qed

section \<open>Set-up\<close>

lemma fill_address:
  assumes fr: "pool_frame pool" and i: "i < unat (block_count pool)"
  defines "off \<equiv> (unat (block_count pool) - 1 - i) * unat (block_size pool)"
  shows "allocation pool + (block_count pool - 1 - of_nat i) * block_size pool = allocation pool + of_nat off"
    and "unat (allocation pool + of_nat off) = unat (allocation pool) + off"
    and "off + unat (block_size pool) \<le> unat (block_count pool) * unat (block_size pool)"
proof -
  let ?n = "unat (block_count pool)" let ?s = "unat (block_size pool)"
  have "of_nat (?n - 1 - i) = block_count pool - 1 - of_nat i" using i by (simp add: of_nat_diff Suc_leI)
  then show "allocation pool + (block_count pool - 1 - of_nat i) * block_size pool = allocation pool + of_nat off"
    by (simp add: off_def)
  have "off + ?s = Suc (?n - 1 - i) * ?s" by (simp add: off_def)
  also have "\<dots> \<le> ?n * ?s" by (rule mult_le_mono1) (use i in simp)
  finally show le: "off + ?s \<le> ?n * ?s" .
  show "unat (allocation pool + of_nat off) = unat (allocation pool) + off"
    by (rule unat_offset) (use le fr in \<open>simp add: pool_frame_def\<close>)
qed

lemma pool_fill_correct:
  assumes "self \<noteq> 0" and "unat (block_size pool) < 2 ^ 63 - 1" and "pool_frame pool" and "blocks_ok pool i"
    and "i + n = unat (block_count pool)" and "q_inv (mn_buffers_free pool)"
    and "unat (block_count pool) \<le> q_cap (mn_buffers_free pool)"
    and "q_contents (mn_buffers_free pool) = map (buffer_addr pool) [0..<i]"
  shows "\<exists>bs q. pool_fill self pool i n = Some (pool\<lparr>buffer_array := bs, mn_buffers_free := q\<rparr>, True)
    \<and> pool_frame (pool\<lparr>buffer_array := bs\<rparr>) \<and> blocks_ok (pool\<lparr>buffer_array := bs\<rparr>) (unat (block_count pool))
    \<and> q_inv q \<and> q_cap q = q_cap (mn_buffers_free pool) \<and> q_contents q = addrs pool"
  using assms
proof (induction n arbitrary: pool i)
  case 0
  then show ?case
    by (intro exI [of _ "buffer_array pool"] exI [of _ "mn_buffers_free pool"]) (simp add: addrs_def)
next
  case (Suc n)
  let ?n = "unat (block_count pool)" let ?q = "mn_buffers_free pool" let ?off = "(?n - 1 - i) * unat (block_size pool)"
  have i: "i < ?n" "i < length (buffer_array pool)" using Suc.prems by (auto simp: pool_frame_def)
  note ad = fill_address [OF Suc.prems(3) i(1)]
  have mem: "unat (allocation pool) + ?n * unat (block_size pool) \<le> 2 ^ 64" "0 < unat (block_size pool)" "allocation pool \<noteq> 0"
    using Suc.prems(3) by (simp_all add: pool_frame_def)
  have "allocation pool + of_nat ?off \<noteq> 0" using ad(2) mem(3) by (metis add_eq_0_iff_both_eq_0 unat_0 unat_eq_zero)
  moreover have "unat (allocation pool + of_nat ?off) + unat (block_size pool) \<le> 2 ^ 64" using ad(2,3) mem(1) by linarith
  ultimately obtain b where b: "mn_buffer_setup (buffer_array pool ! i) (allocation pool + of_nat ?off) (block_size pool) = Some (b, MN_SUCCESS)"
      "buffer_inv b" "b_base b = allocation pool + of_nat ?off" "b_cap b = unat (block_size pool)"
    using setup_buffer mem(2) Suc.prems(2) by metis
  let ?b = "b\<lparr>b_pool := self\<rparr>" let ?p = "pool\<lparr>buffer_array := (buffer_array pool)[i := ?b]\<rparr>"
  have "length (q_contents ?q) < q_cap ?q" using Suc.prems(7) i(1) by (simp only: Suc.prems(8)) simp
  then obtain q where q: "mn_queue_spsc_push ?q (buffer_addr pool i) = Some (q, MN_SUCCESS)" "q_inv q" "q_cap q = q_cap ?q"
      "q_contents q = q_contents ?q @ [buffer_addr pool i]"
    using push_correct [OF Suc.prems(6), of "buffer_addr pool i"] by (auto split: if_splits)
  let ?p2 = "?p\<lparr>mn_buffers_free := q\<rparr>"
  have "buffer_inv ?b" "b_base ?b = b_base b" "b_cap ?b = b_cap b" using b(2) by (simp_all add: buffer_inv_def b_defs)
  then have ok: "blocks_ok ?p2 (Suc i)"
    using Suc.prems(1,4) b(3,4) i(2) by (auto simp: blocks_ok_def Let_def nth_list_update less_Suc_eq)
  have "pool_frame ?p2" using Suc.prems(3) by (simp add: pool_frame_def)
  then obtain bs q2 where r: "pool_fill self ?p2 (Suc i) n = Some (?p2\<lparr>buffer_array := bs, mn_buffers_free := q2\<rparr>, True)"
      "pool_frame (?p2\<lparr>buffer_array := bs\<rparr>)" "blocks_ok (?p2\<lparr>buffer_array := bs\<rparr>) ?n" "q_inv q2" "q_cap q2 = q_cap q" "q_contents q2 = addrs pool"
    using Suc.IH [of ?p2 "Suc i"] Suc.prems ok q by auto
  have "pool_fill self pool i (Suc n) = pool_fill self ?p2 (Suc i) n"
    using i(2) b(1) q(1) by (simp add: ad(1) Let_def mn_codes del: of_nat_mult)
  then show ?case using r q(3) by (intro exI [of _ bs] exI [of _ q2]) (simp add: pool_frame_def blocks_ok_def)
qed

text \<open>What the code relies on of its parameters: the blocks and the array of buffers fit in memory, where the allocations lie.\<close>

definition pool_params :: "u64 \<Rightarrow> u64 \<Rightarrow> u64 \<Rightarrow> u64 \<Rightarrow> u64 \<Rightarrow> bool" where
  "pool_params self mem arr blocks sz \<longleftrightarrow> self \<noteq> 0 \<and> mem \<noteq> 0 \<and> arr \<noteq> 0 \<and> 0 < blocks \<and> 0 < sz \<and> unat sz < 2 ^ 63 - 1
     \<and> unat mem + unat blocks * unat sz \<le> 2 ^ 64 \<and> unat arr + unat blocks * 64 \<le> 2 ^ 64"

lemma pool_setup_correct:
  assumes pp: "pool_params self mem arr blocks sz"
  obtains pool' where "mn_buffer_pool_setup self mem arr ajunk True qjunk pool blocks sz = Some (pool', MN_SUCCESS)"
    "pool_inv pool' []" "block_count pool' = blocks" "allocation pool' = mem" "block_size pool' = sz"
proof -
  have p: "self \<noteq> 0" "mem \<noteq> 0" "arr \<noteq> 0" "0 < blocks" "0 < sz" "unat sz < 2 ^ 63 - 1"
    "unat mem + unat blocks * unat sz \<le> 2 ^ 64" "unat arr + unat blocks * 64 \<le> 2 ^ 64"
    using pp by (simp_all add: pool_params_def)
  have "0 < unat arr" using p(3) by (simp add: unat_gt_0)
  then have n: "unat blocks * 64 < 2 ^ 64" "unat blocks \<le> 2 ^ 60" using p(8) by simp_all
  then have len: "unat (blocks * sizeof_mn_buffer) div 64 = unat blocks" by (simp add: sizeof_mn_buffer_def unat_word_ariths)
  obtain q k where q: "mn_queue_spsc_setup True qjunk (mn_buffers_free pool) blocks = Some (q, MN_SUCCESS)" "q_inv q" "q_contents q = []"
      "q_cap q = 2 ^ k" "unat blocks \<le> 2 ^ k" "k = 0 \<or> 2 ^ (k - 1) < unat blocks"
    by (rule setup_correct [OF p(4) n(2)])
  let ?p = "pool\<lparr>block_count := blocks, block_size := sz, blocks_inuse := 0, bytes_inuse := 0, allocation := mem, mn_buffers := arr,
      buffer_array := map ajunk [0..<unat (blocks * sizeof_mn_buffer) div 64], mn_buffers_free := q\<rparr>"
  have "pool_frame ?p" using p len by (simp add: pool_frame_def unat_gt_0 word_neq_0_conv)
  then obtain bs q2 where f: "pool_fill self ?p 0 (unat blocks) = Some (?p\<lparr>buffer_array := bs, mn_buffers_free := q2\<rparr>, True)"
      "pool_frame (?p\<lparr>buffer_array := bs\<rparr>)" "blocks_ok (?p\<lparr>buffer_array := bs\<rparr>) (unat blocks)" "q_inv q2" "q_cap q2 = q_cap q" "q_contents q2 = addrs ?p"
    using pool_fill_correct [OF p(1), of ?p 0 "unat blocks"] p(6) q by (auto simp: blocks_ok_def)
  let ?r = "?p\<lparr>buffer_array := bs, mn_buffers_free := q2\<rparr>"
  have "mn_buffer_pool_setup self mem arr ajunk True qjunk pool blocks sz = Some (?r, MN_SUCCESS)"
    using p q(1) f(1) by (simp add: mn_buffer_pool_setup_def Let_def mn_codes)
  moreover have "pool_inv ?r []"
    using f q(4-6) by (auto simp: least_pow2_def pool_inv_def pool_frame_def blocks_ok_def addrs_def)
  ultimately show ?thesis using that [of ?r] by simp
qed

section \<open>Clients of a pool\<close>

text \<open>
  A client takes an object, or gives back one of those it holds; \<open>held\<close> are the pointers it was given and still has. The contract
  of a pool is stated once: \<open>inv s held\<close> is its invariant while \<open>held\<close> is handed out.
\<close>

datatype pool_op = Take | Release nat

fun pool_run :: "('s \<Rightarrow> ('s \<times> 'p \<times> int) option) \<Rightarrow> ('s \<Rightarrow> 'p \<Rightarrow> ('s \<times> int) option) \<Rightarrow>
  's \<Rightarrow> 'p list \<Rightarrow> pool_op list \<Rightarrow> ('s \<times> 'p list) option" where
  "pool_run tak giv s held [] = Some (s, held)"
| "pool_run tak giv s held (Take # ops) = do {
     (s, p, rc) \<leftarrow> tak s;
     pool_run tak giv s (if rc = MN_SUCCESS then held @ [p] else held) ops
   }"
| "pool_run tak giv s held (Release i # ops) =
     (if i < length held then do {
        (s, rc) \<leftarrow> giv s (held ! i);
        pool_run tak giv s (if rc = MN_SUCCESS then take i held @ drop (Suc i) held else held) ops
      }
      else pool_run tak giv s held ops)"

locale object_pool =
  fixes inv :: "'s \<Rightarrow> 'p list \<Rightarrow> bool"
    and total :: "'s \<Rightarrow> nat"
    and tak :: "'s \<Rightarrow> ('s \<times> 'p \<times> int) option"
    and giv :: "'s \<Rightarrow> 'p \<Rightarrow> ('s \<times> int) option"
  assumes held_distinct: "inv s held \<Longrightarrow> distinct held"
    and held_bounded: "inv s held \<Longrightarrow> length held \<le> total s"
    and take_law: "inv s held \<Longrightarrow> length held < total s \<Longrightarrow>
      \<exists>s' p. tak s = Some (s', p, MN_SUCCESS) \<and> inv s' (held @ [p]) \<and> total s' = total s"
    and take_empty: "inv s held \<Longrightarrow> length held = total s \<Longrightarrow> \<exists>p. tak s = Some (s, p, MN_ERROR)"
    and give_law: "inv s (ps @ p # rs) \<Longrightarrow> \<exists>s'. giv s p = Some (s', MN_SUCCESS) \<and> inv s' (ps @ rs) \<and> total s' = total s"
begin

lemma take_iff: "inv s held \<Longrightarrow> (\<exists>s' p. tak s = Some (s', p, MN_SUCCESS)) \<longleftrightarrow> length held < total s"
  using take_law take_empty held_bounded [of s held] by (fastforce simp: mn_codes)

lemma run_inv:
  assumes "inv s held"
  shows "\<exists>s' held'. pool_run tak giv s held ops = Some (s', held') \<and> inv s' held' \<and> total s' = total s"
  using assms
proof (induction ops arbitrary: s held)
  case (Cons x ops)
  show ?case
  proof (cases x)
    case Take
    show ?thesis
    proof (cases "length held = total s")
      case True
      then show ?thesis using Take take_empty [OF Cons.prems] Cons.IH [OF Cons.prems] by (auto simp: mn_codes)
    next
      case False
      then obtain s' p where "tak s = Some (s', p, MN_SUCCESS)" "inv s' (held @ [p])" "total s' = total s"
        using take_law [OF Cons.prems] held_bounded [OF Cons.prems] by auto
      then show ?thesis using Take Cons.IH [of s' "held @ [p]"] by simp
    qed
  next
    case (Release i)
    show ?thesis
    proof (cases "i < length held")
      case True
      let ?l = "take i held" and ?r = "drop (Suc i) held"
      have "held = ?l @ held ! i # ?r" using True by (rule id_take_nth_drop)
      then obtain s' where "giv s (held ! i) = Some (s', MN_SUCCESS)" "inv s' (?l @ ?r)" "total s' = total s"
        using give_law [of s ?l "held ! i" ?r] Cons.prems by metis
      then show ?thesis using Release True Cons.IH [of s' "?l @ ?r"] by simp
    qed (use Release Cons.IH [OF Cons.prems] in simp)
  qed
qed auto

end

text \<open>The block behind a pointer.\<close>

definition block_at :: "mn_buffer_pool \<Rightarrow> u64 \<Rightarrow> u64 set option" where
  "block_at pool p = map_option (\<lambda>i. block (buffer_array pool ! i)) (buffer_of pool p)"

lemma pool_inv_held:
  assumes inv: "pool_inv pool held"
  shows "distinct held" "length held \<le> unat (block_count pool)" "unat (blocks_inuse pool) = length held"
    and "p \<in> set held \<Longrightarrow> \<exists>i<unat (block_count pool). p = buffer_addr pool i"
proof -
  have ms: "mset (held @ q_contents (mn_buffers_free pool)) = mset (addrs pool)" and fr: "pool_frame pool"
    using inv by (simp_all add: pool_inv_def)
  have "distinct (held @ q_contents (mn_buffers_free pool))"
    using distinct_addrs [OF fr] mset_eq_imp_distinct_iff [OF ms] by simp
  then show "distinct held" by simp
  show le: "length held \<le> unat (block_count pool)"
    using arg_cong [OF ms, of size] by (simp add: addrs_def)
  have "blocks_inuse pool = of_nat (length held)" using inv by (simp add: pool_inv_def)
  moreover have "length held < 2 ^ 64" by (rule le_less_trans [OF le]) simp
  ultimately show "unat (blocks_inuse pool) = length held" by (simp add: unat_of_nat)
  show "\<exists>i<unat (block_count pool). p = buffer_addr pool i" if "p \<in> set held"
    using that mset_eq_setD [OF ms] set_addrs [of p pool] by auto
qed

interpretation pool: object_pool pool_inv "\<lambda>pool. unat (block_count pool)" mn_buffer_pool_pop_back mn_buffer_release
proof
  fix s held assume inv: "pool_inv s held"
  show "distinct held" "length held \<le> unat (block_count s)" by (rule pool_inv_held [OF inv])+
  show "\<exists>s' p. mn_buffer_pool_pop_back s = Some (s', p, MN_SUCCESS) \<and> pool_inv s' (held @ [p]) \<and> unat (block_count s') = unat (block_count s)"
    if "length held < unat (block_count s)"
    using pool_pop_back_correct [OF inv] that by auto
  show "\<exists>p. mn_buffer_pool_pop_back s = Some (s, p, MN_ERROR)" if "length held = unat (block_count s)"
    using pool_pop_back_correct [OF inv] that by auto
next
  fix s ps p rs assume "pool_inv s (ps @ p # rs)"
  then show "\<exists>s'. mn_buffer_release s p = Some (s', MN_SUCCESS) \<and> pool_inv s' (ps @ rs) \<and> unat (block_count s') = unat (block_count s)"
    using pool_release_correct by fastforce
qed

lemma block_at_held:
  assumes inv: "pool_inv pool held" and p: "p \<in> set held" and q: "q \<in> set held" and ne: "p \<noteq> q"
  shows "\<exists>A B. block_at pool p = Some A \<and> block_at pool q = Some B \<and> A \<inter> B = {}"
proof -
  have fr: "pool_frame pool" "blocks_ok pool (unat (block_count pool))" using inv by (simp_all add: pool_inv_def)
  obtain i j where i: "i < unat (block_count pool)" "p = buffer_addr pool i" and j: "j < unat (block_count pool)" "q = buffer_addr pool j"
    using pool_inv_held(4) [OF inv] p q by metis
  then have "i \<noteq> j" using ne by auto
  then have "block (buffer_array pool ! i) \<inter> block (buffer_array pool ! j) = {}"
    using blocks_disjoint [OF fr i(1) j(1)] blocks_disjoint [OF fr j(1) i(1)] by (cases "i < j") (auto simp: Int_commute)
  then show ?thesis using i j by (simp add: block_at_def buffer_of_addr [OF fr(1)])
qed

lemma free_release:
  assumes inv: "pool_inv pool held" and n: "block_count pool = blocks" and i: "i < unat blocks" and free: "buffer_addr pool i \<notin> set held"
  shows "if held = [] \<and> (\<exists>k. unat blocks = 2 ^ k) then mn_buffer_release pool (buffer_addr pool i) = Some (pool, MN_ERROR)
     else \<exists>pool'. mn_buffer_release pool (buffer_addr pool i) = Some (pool', MN_SUCCESS)
       \<and> blocks_inuse pool' = of_nat (length held) - 1 \<and> \<not> distinct (q_contents (mn_buffers_free pool'))"
proof -
  let ?q = "mn_buffers_free pool" and ?p = "buffer_addr pool i"
  have fr: "pool_frame pool" "blocks_ok pool (unat blocks)" "q_inv ?q" "least_pow2 (unat blocks) (q_cap ?q)"
    and ms: "mset held + mset (q_contents ?q) = mset (addrs pool)" and cnt: "blocks_inuse pool = of_nat (length held)"
    using inv n by (simp_all add: pool_inv_def)
  have used: "q_used ?q + length held = unat blocks" using arg_cong [OF ms, of size] n by (simp add: addrs_def)
  have i': "i < unat (block_count pool)" using i n by simp
  have rel: "mn_buffer_release pool ?p = mn_buffer_pool_push pool ?p"
    using buffer_of_addr [OF fr(1) i'] fr(2) i by (simp add: mn_buffer_release_def blocks_ok_def Let_def)
  have nn: "?p \<noteq> 0" by (rule addr_nonnull [OF fr(1) i'])
  have full: "q_used ?q = q_cap ?q \<longleftrightarrow> held = [] \<and> (\<exists>k. unat blocks = 2 ^ k)"
    using used least_pow2_eq [OF fr(4)] least_pow2_le [OF fr(4)] by (cases held) auto
  show ?thesis
  proof (cases "q_used ?q = q_cap ?q")
    case True
    then have "mn_queue_spsc_push ?q ?p = Some (?q, MN_QUEUE_FULL)" using push_correct [OF fr(3)] by simp
    then have "mn_buffer_release pool ?p = Some (pool, MN_ERROR)"
      using nn by (simp add: rel mn_buffer_pool_push_def mn_codes)
    then show ?thesis using True full by simp
  next
    case False
    then obtain q' where q': "mn_queue_spsc_push ?q ?p = Some (q', MN_SUCCESS)" "q_contents q' = q_contents ?q @ [?p]"
      using push_correct [OF fr(3), of ?p] by (auto split: if_splits)
    have "?p \<in> set held \<union> set (q_contents ?q)" using arg_cong [OF ms, of set_mset] i' set_addrs by auto
    then have "\<not> distinct (q_contents q')" using q'(2) free by simp
    then have "\<exists>pool'. mn_buffer_release pool ?p = Some (pool', MN_SUCCESS)
       \<and> blocks_inuse pool' = of_nat (length held) - 1 \<and> \<not> distinct (q_contents (mn_buffers_free pool'))"
      using q'(1) nn cnt by (auto simp: rel mn_buffer_pool_push_def mn_codes)
    then show ?thesis using False full by auto
  qed
qed

section \<open>Properties\<close>

text \<open>
  (C8) A pool that fits in memory is set up without an error, and a client that releases only what it holds,
  in any order and any number of times, never gets the same buffer twice while it holds it; the blocks behind the
  buffers it holds do not overlap, the counter of the pool is the number of buffers held, and a buffer can be taken exactly as long as
  not all of them are.
\<close>

theorem pool_exclusive:
  assumes "pool_params self mem arr blocks sz"
  shows "\<exists>pool0. mn_buffer_pool_setup self mem arr ajunk True qjunk pool blocks sz = Some (pool0, MN_SUCCESS)
     \<and> (\<forall>ops. \<exists>pool' held. pool_run mn_buffer_pool_pop_back mn_buffer_release pool0 [] ops = Some (pool', held)
          \<and> distinct held \<and> length held \<le> unat blocks \<and> unat (blocks_inuse pool') = length held
          \<and> (\<forall>p\<in>set held. \<forall>q\<in>set held. p \<noteq> q \<longrightarrow>
               (\<exists>A B. block_at pool' p = Some A \<and> block_at pool' q = Some B \<and> A \<inter> B = {}))
          \<and> ((\<exists>pool'' p. mn_buffer_pool_pop_back pool' = Some (pool'', p, MN_SUCCESS)) \<longleftrightarrow> length held < unat blocks))"
proof -
  obtain pool0 where s: "mn_buffer_pool_setup self mem arr ajunk True qjunk pool blocks sz = Some (pool0, MN_SUCCESS)"
      "pool_inv pool0 []" "block_count pool0 = blocks"
    by (rule pool_setup_correct [OF assms])
  have "\<exists>pool' held. pool_run mn_buffer_pool_pop_back mn_buffer_release pool0 [] ops = Some (pool', held)
          \<and> distinct held \<and> length held \<le> unat blocks \<and> unat (blocks_inuse pool') = length held
          \<and> (\<forall>p\<in>set held. \<forall>q\<in>set held. p \<noteq> q \<longrightarrow>
               (\<exists>A B. block_at pool' p = Some A \<and> block_at pool' q = Some B \<and> A \<inter> B = {}))
          \<and> ((\<exists>pool'' p. mn_buffer_pool_pop_back pool' = Some (pool'', p, MN_SUCCESS)) \<longleftrightarrow> length held < unat blocks)" for ops
  proof -
    obtain pool' held where r: "pool_run mn_buffer_pool_pop_back mn_buffer_release pool0 [] ops = Some (pool', held)" "pool_inv pool' held" "block_count pool' = blocks"
      using pool.run_inv [OF s(2), of ops] s(3) by (auto simp: word_unat_eq_iff)
    have "(\<exists>pool'' p. mn_buffer_pool_pop_back pool' = Some (pool'', p, MN_SUCCESS)) \<longleftrightarrow> length held < unat blocks"
      using pool.take_iff [OF r(2)] r(3) by simp
    then show ?thesis using r pool_inv_held(1-3) [OF r(2)] block_at_held [OF r(2)] by (intro exI conjI) auto
  qed
  then show ?thesis using s(1) by blast
qed

text \<open>
  (C25) Releasing a buffer that is already free, at any point of a client's use of the pool. The queue of free
  buffers is the only guard: the release is refused, and changes nothing, exactly when the client holds no
  buffer and the number of blocks is a power of two. In every other state it is accepted: the pool then counts one block in use too few, \<open>2 ^ 64 - 1\<close> when none is held, and
  has the buffer twice among the free ones.
\<close>

theorem pool_double_release:
  assumes "pool_params self mem arr blocks sz" and "i < unat blocks"
  shows "\<exists>pool0. mn_buffer_pool_setup self mem arr ajunk True qjunk pool blocks sz = Some (pool0, MN_SUCCESS)
     \<and> (\<forall>ops. \<exists>pool' held. pool_run mn_buffer_pool_pop_back mn_buffer_release pool0 [] ops = Some (pool', held)
          \<and> (buffer_addr pool' i \<in> set held
             \<or> (if held = [] \<and> (\<exists>k. unat blocks = 2 ^ k) then mn_buffer_release pool' (buffer_addr pool' i) = Some (pool', MN_ERROR)
                else \<exists>pool''. mn_buffer_release pool' (buffer_addr pool' i) = Some (pool'', MN_SUCCESS)
                  \<and> blocks_inuse pool'' = of_nat (length held) - 1 \<and> \<not> distinct (q_contents (mn_buffers_free pool'')))))"
proof -
  obtain pool0 where s: "mn_buffer_pool_setup self mem arr ajunk True qjunk pool blocks sz = Some (pool0, MN_SUCCESS)"
      "pool_inv pool0 []" "block_count pool0 = blocks"
    by (rule pool_setup_correct [OF assms(1)])
  have "\<exists>pool' held. pool_run mn_buffer_pool_pop_back mn_buffer_release pool0 [] ops = Some (pool', held)
      \<and> pool_inv pool' held \<and> block_count pool' = blocks" for ops
    using pool.run_inv [OF s(2), of ops] s(3) by (auto simp: word_unat_eq_iff)
  with s(1) free_release [OF _ _ assms(2)] show ?thesis by (metis (no_types, lifting))
qed

definition demo_pool :: mn_buffer_pool where
  "demo_pool = \<lparr>blocks_inuse = 0, bytes_inuse = 0, block_size = 0, block_count = 0, mn_buffers = 0, buffer_array = [],
     allocation = 0, mn_buffers_free = demo_queue\<rparr>"

lemma demo_params: "pool_params 8 4096 8192 3 16"
  by (simp add: pool_params_def)

theorem pool_exclusive_witness:
  "\<exists>pool0 pool' held. mn_buffer_pool_setup 8 4096 8192 (\<lambda>_. demo_buffer) True (\<lambda>_. 0) demo_pool 3 16 = Some (pool0, MN_SUCCESS)
     \<and> pool_run mn_buffer_pool_pop_back mn_buffer_release pool0 [] [Take, Take, Release 0, Take] = Some (pool', held) \<and> distinct held \<and> length held \<le> 3"
proof -
  from pool_exclusive [OF demo_params, of "\<lambda>_. demo_buffer" "\<lambda>_. 0" demo_pool]
  show ?thesis
  proof (elim exE conjE, goal_cases)
    case (1 pool0)
    from spec [OF 1(2), of "[Take, Take, Release 0, Take]"] 1(1) show ?case
      by (elim exE conjE) (intro exI conjI, assumption+, simp)
  qed
qed

lemma demo_params4: "pool_params 8 4096 8192 4 16"
  by (simp add: pool_params_def)

lemma one_taken:
  assumes "pool_inv pool []" and "1 < unat (block_count pool)"
  shows "\<exists>pool' p. pool_run mn_buffer_pool_pop_back mn_buffer_release pool [] [Take] = Some (pool', [p])
     \<and> (buffer_addr pool' 0 \<noteq> p \<or> buffer_addr pool' 1 \<noteq> p)"
proof -
  obtain pool' p where t: "mn_buffer_pool_pop_back pool = Some (pool', p, MN_SUCCESS)" "pool_inv pool' [p]"
    "unat (block_count pool') = unat (block_count pool)"
    using pool.take_law [OF assms(1)] assms(2) by auto
  have "distinct (addrs pool')" using t(2) by (intro distinct_addrs) (simp add: pool_inv_def)
  then have "buffer_addr pool' 0 \<noteq> buffer_addr pool' 1"
    using t(3) assms(2) nth_eq_iff_index_eq [of "addrs pool'" 0 1] by (simp add: addrs_def)
  then show ?thesis using t(1) by auto
qed

theorem pool_double_release_witness:
  "\<exists>pool0 pool' p pool'' i. mn_buffer_pool_setup 8 4096 8192 (\<lambda>_. demo_buffer) True (\<lambda>_. 0) demo_pool 4 16 = Some (pool0, MN_SUCCESS)
     \<and> mn_buffer_release pool0 (buffer_addr pool0 1) = Some (pool0, MN_ERROR)
     \<and> pool_run mn_buffer_pool_pop_back mn_buffer_release pool0 [] [Take] = Some (pool', [p])
     \<and> mn_buffer_release pool' (buffer_addr pool' i) = Some (pool'', MN_SUCCESS) \<and> blocks_inuse pool'' = 0"
proof -
  obtain pool0 where s: "mn_buffer_pool_setup 8 4096 8192 (\<lambda>_. demo_buffer) True (\<lambda>_. 0) demo_pool 4 16 = Some (pool0, MN_SUCCESS)"
    "pool_inv pool0 []" "block_count pool0 = 4"
    by (rule pool_setup_correct [OF demo_params4])
  obtain pool' p where t: "pool_run mn_buffer_pool_pop_back mn_buffer_release pool0 [] [Take] = Some (pool', [p])"
    "buffer_addr pool' 0 \<noteq> p \<or> buffer_addr pool' 1 \<noteq> p"
    using one_taken [OF s(2)] s(3) by auto
  note at = pool_double_release [OF demo_params4, of _ "\<lambda>_. demo_buffer" "\<lambda>_. 0" demo_pool, unfolded s(1)]
  have four: "\<exists>k. (4 :: nat) = 2 ^ k" by (intro exI [of _ 2]) simp
  have "mn_buffer_release pool0 (buffer_addr pool0 1) = Some (pool0, MN_ERROR)"
    using at [of 1] four by (auto dest!: spec [of _ "[]"])
  moreover have "buffer_addr pool' i \<noteq> p \<Longrightarrow> i < 4 \<Longrightarrow>
      \<exists>pool''. mn_buffer_release pool' (buffer_addr pool' i) = Some (pool'', MN_SUCCESS) \<and> blocks_inuse pool'' = 0" for i
    using at [of i] t(1) by (auto dest!: spec [of _ "[Take]"])
  ultimately show ?thesis using s(1) t by (metis one_less_numeral_iff semiring_norm(76) zero_less_numeral)
qed

end
