(* ===== verification/MnList.thy ===== *)
theory MnList
  imports QueueSpsc "HOL-Library.Multiset"
begin

text \<open>
  \<^verbatim>\<open>deps/mn/src/list_ptr.c\<close>: an array of pointers with a fill level. \<open>None\<close> for the data is the null pointer; \<open>None\<close> as
  a result is a failed assertion or an access outside the array.
\<close>

section \<open>Operations\<close>

record mn_list_ptr =
  l_data :: "u64 list option"
  l_capacity :: u64
  l_index :: u64

text \<open>\<open>mem\<close> is the outcome of the allocation, whose size is computed in 64 bits, and \<open>junk\<close> what the memory holds.\<close>

definition mn_list_ptr_setup :: "bool \<Rightarrow> (nat \<Rightarrow> u64) \<Rightarrow> u64 \<Rightarrow> mn_list_ptr \<times> int" where
  "mn_list_ptr_setup mem junk capacity =
     (let l = \<lparr>l_data = None, l_capacity = capacity, l_index = 0\<rparr> in
      if \<not> mem then (l, MN_ERROR)
      else (l\<lparr>l_data := Some (map junk [0..<unat (capacity * 8) div 8])\<rparr>, MN_SUCCESS))"

definition l_load :: "mn_list_ptr \<Rightarrow> u64 \<Rightarrow> u64 option" where
  "l_load l i = do { d \<leftarrow> l_data l; if unat i < length d then Some (d ! unat i) else None }"

definition l_store :: "mn_list_ptr \<Rightarrow> u64 \<Rightarrow> u64 \<Rightarrow> mn_list_ptr option" where
  "l_store l i v = do { d \<leftarrow> l_data l; if unat i < length d then Some (l\<lparr>l_data := Some (d[unat i := v])\<rparr>) else None }"

definition mn_list_ptr_push_back :: "mn_list_ptr \<Rightarrow> u64 \<Rightarrow> (mn_list_ptr \<times> int) option" where
  "mn_list_ptr_push_back l item = do {
     guard (l_data l \<noteq> None \<and> item \<noteq> 0);
     if l_index l \<ge> l_capacity l then Some (l, MN_ERROR)
     else do { l' \<leftarrow> l_store l (l_index l) item; Some (l'\<lparr>l_index := l_index l + 1\<rparr>, MN_SUCCESS) }
   }"

text \<open>The item is \<open>None\<close> where the client's variable is left alone.\<close>

definition mn_list_ptr_pop_back :: "mn_list_ptr \<Rightarrow> (mn_list_ptr \<times> u64 option \<times> int) option" where
  "mn_list_ptr_pop_back l = do {
     guard (l_data l \<noteq> None);
     if l_index l = 0 then Some (l, None, MN_ERROR)
     else do { v \<leftarrow> l_load l (l_index l - 1); Some (l\<lparr>l_index := l_index l - 1\<rparr>, Some v, MN_SUCCESS) }
   }"

definition mn_list_ptr_count :: "mn_list_ptr \<Rightarrow> u64" where "mn_list_ptr_count l = l_index l"

definition mn_list_ptr_capacity :: "mn_list_ptr \<Rightarrow> u64" where "mn_list_ptr_capacity l = l_capacity l"

definition mn_list_ptr_clear :: "mn_list_ptr \<Rightarrow> mn_list_ptr" where "mn_list_ptr_clear l = l\<lparr>l_index := 0\<rparr>"

definition mn_list_ptr_get :: "mn_list_ptr \<Rightarrow> u64 \<Rightarrow> u64 option" where
  "mn_list_ptr_get l i = do { v \<leftarrow> l_load l i; guard (v \<noteq> 0); Some v }"

definition mn_list_ptr_swap :: "mn_list_ptr \<Rightarrow> u64 \<Rightarrow> u64 \<Rightarrow> mn_list_ptr option" where
  "mn_list_ptr_swap l index1 index2 = do {
     tmp \<leftarrow> l_load l index1;
     v \<leftarrow> l_load l index2;
     l \<leftarrow> l_store l index1 v;
     l_store l index2 tmp
   }"

definition mn_list_ptr_remove :: "mn_list_ptr \<Rightarrow> u64 \<Rightarrow> (mn_list_ptr \<times> int) option" where
  "mn_list_ptr_remove l i =
     (if l_index l = 0 then Some (l, MN_ERROR)
      else do {
        let l = l\<lparr>l_index := l_index l - 1\<rparr> in do {
          v \<leftarrow> l_load l (l_index l);
          l \<leftarrow> l_store l i v;
          Some (l, MN_SUCCESS)
        }
      })"

section \<open>The list of items\<close>

definition l_items :: "mn_list_ptr \<Rightarrow> u64 list" where
  "l_items l = (case l_data l of None \<Rightarrow> [] | Some d \<Rightarrow> take (unat (l_index l)) d)"

definition list_inv :: "mn_list_ptr \<Rightarrow> bool" where
  "list_inv l \<longleftrightarrow> (\<exists>d. l_data l = Some d \<and> length d = unat (l_capacity l)) \<and> l_index l \<le> l_capacity l \<and> 0 \<notin> set (l_items l)"

lemma list_invE:
  assumes "list_inv l"
  obtains d where "l_data l = Some d" "length d = unat (l_capacity l)" "unat (l_index l) \<le> length d" "l_items l = take (unat (l_index l)) d"
    "0 \<notin> set (l_items l)" "length (l_items l) = unat (l_index l)"
  using assms by (auto simp: list_inv_def l_items_def word_le_nat_alt)

lemma list_setup: "unat capacity * 8 < 2 ^ 64 \<Longrightarrow> list_inv (fst (mn_list_ptr_setup True junk capacity))"
  by (simp add: mn_list_ptr_setup_def Let_def list_inv_def l_items_def unat_word_ariths)

lemma list_push:
  assumes inv: "list_inv l" and "item \<noteq> 0"
  shows "if length (l_items l) = unat (l_capacity l) then mn_list_ptr_push_back l item = Some (l, MN_ERROR)
    else \<exists>l'. mn_list_ptr_push_back l item = Some (l', MN_SUCCESS) \<and> list_inv l' \<and> l_items l' = l_items l @ [item]"
proof (rule list_invE [OF inv])
  fix d assume d: "l_data l = Some d" "length d = unat (l_capacity l)" "unat (l_index l) \<le> length d"
    "l_items l = take (unat (l_index l)) d" "0 \<notin> set (l_items l)" "length (l_items l) = unat (l_index l)"
  show ?thesis
  proof (cases "length (l_items l) = unat (l_capacity l)")
    case True
    then show ?thesis using d assms(2) by (simp add: mn_list_ptr_push_back_def word_le_nat_alt)
  next
    case False
    let ?l = "l\<lparr>l_data := Some (d[unat (l_index l) := item]), l_index := l_index l + 1\<rparr>"
    have lt: "unat (l_index l) < length d" using False d by simp
    then have u: "unat (l_index l + 1) = Suc (unat (l_index l))"
    proof -
      have "Suc (unat (l_index l)) < 2 ^ 64" by (rule le_less_trans [of _ "unat (l_capacity l)"]) (use lt d(2) in simp_all)
      then show ?thesis by (simp add: unat_word_ariths)
    qed
    have "l_items ?l = l_items l @ [item]" using lt d(4) u by (simp add: l_items_def take_Suc_conv_app_nth)
    then show ?thesis using False d lt u assms(2)
      by (auto simp: mn_list_ptr_push_back_def l_store_def list_inv_def word_le_nat_alt)
  qed
qed

text \<open>Removing exchanges the item with the last one and drops it.\<close>

lemma list_remove:
  assumes inv: "list_inv l" and i: "unat i < length (l_items l)"
  shows "\<exists>l'. mn_list_ptr_remove l i = Some (l', MN_SUCCESS) \<and> list_inv l' \<and> l_items l' = butlast ((l_items l)[unat i := last (l_items l)])"
proof (rule list_invE [OF inv])
  fix d assume d: "l_data l = Some d" "length d = unat (l_capacity l)" "unat (l_index l) \<le> length d"
    "l_items l = take (unat (l_index l)) d" "0 \<notin> set (l_items l)" "length (l_items l) = unat (l_index l)"
  let ?n = "unat (l_index l)"
  have n: "0 < ?n" "unat i < ?n" using i d(6) by simp_all
  then have nz: "l_index l \<noteq> 0" by auto
  then have u: "unat (l_index l - 1) = ?n - 1" by (simp add: unat_minus_one)
  let ?l = "l\<lparr>l_index := l_index l - 1, l_data := Some (d[unat i := d ! (?n - 1)])\<rparr>"
  have r: "mn_list_ptr_remove l i = Some (?l, MN_SUCCESS)"
    using d n u nz by (simp add: mn_list_ptr_remove_def l_load_def l_store_def Let_def)
  have la: "last (l_items l) = d ! (?n - 1)"
    using d n by (subst last_conv_nth) auto
  have it: "l_items ?l = butlast ((l_items l)[unat i := last (l_items l)])"
    unfolding d(4) using la [unfolded d(4)] d(3) n u by (simp add: l_items_def butlast_conv_take take_update_swap min_absorb1 min_absorb2)
  moreover have "set (l_items ?l) \<subseteq> set (l_items l)"
  proof -
    have "last (l_items l) \<in> set (l_items l)" using n d(6) by (intro last_in_set) auto
    then have "set ((l_items l)[unat i := last (l_items l)]) \<subseteq> set (l_items l)" by (simp add: set_update_subsetI)
    then show ?thesis unfolding it by (meson in_set_butlastD subset_iff)
  qed
  ultimately have "list_inv ?l" using d u n by (auto simp: list_inv_def word_le_nat_alt)
  then show ?thesis using r it by blast
qed

lemma list_pop:
  assumes inv: "list_inv l"
  shows "if l_items l = [] then mn_list_ptr_pop_back l = Some (l, None, MN_ERROR)
    else \<exists>l'. mn_list_ptr_pop_back l = Some (l', Some (last (l_items l)), MN_SUCCESS) \<and> list_inv l' \<and> l_items l' = butlast (l_items l)"
proof (rule list_invE [OF inv])
  fix d assume d: "l_data l = Some d" "length d = unat (l_capacity l)" "unat (l_index l) \<le> length d"
    "l_items l = take (unat (l_index l)) d" "0 \<notin> set (l_items l)" "length (l_items l) = unat (l_index l)"
  show ?thesis
  proof (cases "l_items l = []")
    case True
    then have "l_index l = 0" using d(6) by (simp add: unat_eq_zero)
    then show ?thesis using True d(1) by (simp add: mn_list_ptr_pop_back_def)
  next
    case False
    let ?n = "unat (l_index l)"
    have n: "0 < ?n" using False d(6) by (metis length_greater_0_conv)
    then have nz: "l_index l \<noteq> 0" by auto
  then have u: "unat (l_index l - 1) = ?n - 1" by (simp add: unat_minus_one)
    have la: "last (l_items l) = d ! (?n - 1)" using d False by (subst last_conv_nth) auto
    let ?l = "l\<lparr>l_index := l_index l - 1\<rparr>"
    have it: "l_items ?l = butlast (l_items l)" using d u by (simp add: l_items_def butlast_take)
    moreover have "list_inv ?l"
      using d u n it by (auto simp: list_inv_def word_le_nat_alt dest: in_set_butlastD)
    moreover have "mn_list_ptr_pop_back l = Some (?l, Some (last (l_items l)), MN_SUCCESS)"
      using d n u nz la by (simp add: mn_list_ptr_pop_back_def l_load_def)
    ultimately show ?thesis using False by auto
  qed
qed

text \<open>
  (C40) The list holds what was pushed and not popped or removed: pushing appends until the
  capacity is reached, popping takes the newest item, and removing an item keeps all the others, but not their order.
\<close>

theorem list_ptr_contents:
  assumes "list_inv l"
  shows "(item \<noteq> 0 \<and> length (l_items l) < unat (l_capacity l) \<longrightarrow>
       (\<exists>l'. mn_list_ptr_push_back l item = Some (l', MN_SUCCESS) \<and> list_inv l' \<and> l_items l' = l_items l @ [item]
          \<and> (\<exists>l''. mn_list_ptr_pop_back l' = Some (l'', Some item, MN_SUCCESS) \<and> l_items l'' = l_items l)))
    \<and> (unat i < length (l_items l) \<longrightarrow>
       (\<exists>l'. mn_list_ptr_remove l i = Some (l', MN_SUCCESS) \<and> list_inv l'
          \<and> mset (l_items l) = add_mset (l_items l ! unat i) (mset (l_items l'))))"
proof (intro conjI impI)
  assume "item \<noteq> 0 \<and> length (l_items l) < unat (l_capacity l)"
  then obtain l' where p: "mn_list_ptr_push_back l item = Some (l', MN_SUCCESS)" "list_inv l'" "l_items l' = l_items l @ [item]"
    using list_push [OF assms, of item] by (auto split: if_splits)
  then show "\<exists>l'. mn_list_ptr_push_back l item = Some (l', MN_SUCCESS) \<and> list_inv l' \<and> l_items l' = l_items l @ [item]
      \<and> (\<exists>l''. mn_list_ptr_pop_back l' = Some (l'', Some item, MN_SUCCESS) \<and> l_items l'' = l_items l)"
    using list_pop [OF p(2)] by auto
next
  assume i: "unat i < length (l_items l)"
  let ?xs = "(l_items l)[unat i := last (l_items l)]"
  obtain l' where r: "mn_list_ptr_remove l i = Some (l', MN_SUCCESS)" "list_inv l'" "l_items l' = butlast ?xs"
    using list_remove [OF assms i] by blast
  have ne: "l_items l \<noteq> []" using i by auto
  then have "?xs = butlast ?xs @ [last ?xs]" by simp
  moreover have "last ?xs = last (l_items l)" using ne i by (simp add: last_list_update)
  ultimately have "mset ?xs = add_mset (last (l_items l)) (mset (butlast ?xs))"
    by (metis add_mset_add_single mset_append mset.simps)
  moreover have "mset ?xs = add_mset (last (l_items l)) (mset (l_items l) - {#l_items l ! unat i#})"
    using i by (simp add: mset_update)
  ultimately have "mset (butlast ?xs) = mset (l_items l) - {#l_items l ! unat i#}" by simp
  moreover have "l_items l ! unat i \<in># mset (l_items l)" using i by simp
  ultimately show "\<exists>l'. mn_list_ptr_remove l i = Some (l', MN_SUCCESS) \<and> list_inv l'
      \<and> mset (l_items l) = add_mset (l_items l ! unat i) (mset (l_items l'))"
    using r by (auto simp: insert_DiffM)
qed

definition demo_list :: mn_list_ptr where
  "demo_list = \<lparr>l_data = Some [5, 6, 7, 0], l_capacity = 4, l_index = 3\<rparr>"

theorem list_ptr_contents_witness:
  "(\<exists>l'. mn_list_ptr_push_back demo_list 9 = Some (l', MN_SUCCESS) \<and> l_items l' = [5, 6, 7, 9])
   \<and> (\<exists>l'. mn_list_ptr_remove demo_list 0 = Some (l', MN_SUCCESS) \<and> mset [5, 6, 7] = add_mset 5 (mset (l_items l')))"
proof -
  have "list_inv demo_list" by (simp add: list_inv_def demo_list_def l_items_def)
  moreover have "l_items demo_list = [5, 6, 7]" "l_capacity demo_list = 4" by (simp_all add: demo_list_def l_items_def)
  ultimately show ?thesis using list_ptr_contents [of demo_list 9 0] by auto
qed

end
