(* ===== verification/Spec2Isabelle.thy ===== *)
theory Spec2Isabelle
  imports RingBufferSpsc Endpoint AudioPS5 StunMsg Srtcp Base64 CallMedia BufferPool MnList
begin

text \<open>
  This library verifies rawr, a voice call client in C (\<^verbatim>\<open>src/src\<close>, \<^verbatim>\<open>src/include/rawr\<close>), together with
  the parts of the libraries it ships with (\<^verbatim>\<open>src/deps/re\<close>, \<^verbatim>\<open>src/deps/mn\<close>, \<^verbatim>\<open>src/deps/aws-c-common\<close>) that carry
  a call.

  \<^bold>\<open>The program.\<close> A call registers with a SIP server, agrees on keys and addresses in a session
  description, and then runs two flows. Outwards, the device callback puts captured samples in a ring
  buffer; the sending thread of the call reads frames from it, encodes them with Opus, puts an RTP
  header in front, protects the packet with SRTP and sends it. Inwards, the handler of the RTP socket
  decodes the header, checks and decrypts the packet, decodes the frame and queues the samples in
  the other ring buffer, which the callback plays. The ring buffers are shared by two threads without a lock. Clients
  start, stop and await a call through a state that the signalling thread publishes. A STUN client
  finds the public address. The library mn offers the program queues, buffers and pools.

  \<^bold>\<open>How C is modelled.\<close> Integers have their width (\<open>Prelude\<close>); where the code compares sizes that cannot
  overflow they are natural numbers. An object in memory is the list of its bytes, and in the theories on mn a
  store from addresses to bytes; a structure is a record with the fields of the C type. A result \<open>None\<close> is
  undefined behaviour or a failed assertion, so a theorem that ends in \<open>Some\<close> also excludes these. Error codes are
  integers as in the code, and every early return is a branch. The results of code outside the repository
  (malloc, sockets, threads, clocks, OpenSSL, PortAudio, Opus, the console's audio system) are arguments of the
  definitions; what a theorem needs of them is a hypothesis, shown to be satisfiable by its witness.

  \<^bold>\<open>The theories\<close>, in the order of their dependencies.

  \<^item> \<open>Prelude\<close>: types, byte memory, words as numbers, powers of two. \<open>Bytes\<close>: byte order and C strings.
  \<^item> \<open>Fifo\<close>: the contract of a bounded queue (locale \<open>bounded_fifo\<close>) and what any client may conclude from it.
  \<^item> \<open>Util\<close> (\<^verbatim>\<open>src/Util.c\<close>): rounding up to a power of two; the result is the least one, and zero is returned outside
    of the range.
  \<^item> \<open>RingBuffer\<close> (\<^verbatim>\<open>src/RingBuffer.c\<close>): every operation on 64-bit indices that run to twice the size; the invariant, and
    that the buffer is a bounded queue of elements. \<open>RingBufferSpsc\<close>: a writer and a reader interleaved as an
    inductive step relation; order is kept and the copies never leave the memory or meet.
  \<^item> \<open>Codec\<close> (\<^verbatim>\<open>src/Codec.c\<close>): frame sizes, set-up with all its error paths, encoding and decoding.
  \<^item> \<open>AudioApi\<close>: the contract of \<^verbatim>\<open>rawr/Audio.h\<close> (locale \<open>audio_stream_api\<close>). \<open>AudioStream\<close> (\<^verbatim>\<open>src/AudioPA.c\<close>) and \<open>AudioPS5\<close>
    (\<^verbatim>\<open>src/AudioPS5.c\<close>) implement it over the ring buffers: devices, set-up, callback or audio thread, reads and
    writes; samples pass in order, in whole frames between the call and the rings, and what the device records fills the room there is. The
    levels are computed in real numbers where the code has doubles.
  \<^item> \<open>Endpoint\<close> (\<^verbatim>\<open>src/Endpoint.c\<close>): addresses as the bytes of a union; accessors, comparison, text and hash.
  \<^item> \<open>Stun\<close> (\<^verbatim>\<open>src/Stun.c\<close>): the binding request and its results. \<open>Crc32\<close> (\<^verbatim>\<open>deps/re/src/crc32\<close>): the table-driven loop is the division by
    the polynomial. \<open>StunAttr\<close>, \<open>StunMsg\<close> (\<^verbatim>\<open>deps/re/src/stun\<close>: \<^verbatim>\<open>addr.c\<close>, \<^verbatim>\<open>attr.c\<close>, \<^verbatim>\<open>hdr.c\<close>, \<^verbatim>\<open>msg.c\<close>): attributes and messages with message integrity and
    fingerprint; their round trip, and that decoding ends and reads nothing outside of the packet, whatever arrives.
  \<^item> \<open>Mbuf\<close> (\<^verbatim>\<open>deps/re/src/mbuf\<close>): growing buffers. \<open>Rtp\<close> (\<^verbatim>\<open>deps/re/src/rtp/rtp.c\<close>): headers, their round trip,
    and that decoding never reads outside of the packet.
  \<^item> \<open>Replay\<close> (\<^verbatim>\<open>deps/re/src/srtp/replay.c\<close>): the window equals the rule on the set of accepted
    packets (locale \<open>replay_filter\<close>), and a receiver that asks it accepts nothing twice (locale \<open>guarded_receiver\<close>). \<open>Srtp\<close>, \<open>SrtpSession\<close> (\<^verbatim>\<open>deps/re/src/srtp\<close>): streams, key derivation,
    protection; a receiver recovers what a sender protected, also across losses, and accepts nothing twice.
    \<open>Srtcp\<close> (\<^verbatim>\<open>deps/re/src/srtp/srtcp.c\<close>): the same for control packets, and that replays pass in the GCM suites.
  \<^item> \<open>Base64\<close> (\<^verbatim>\<open>deps/re/src/base64\<close>, \<^verbatim>\<open>src/playground/srtp/util.c\<close>): encoders, two decoders, round trips.
  \<^item> \<open>Sdp\<close> (\<^verbatim>\<open>deps/re/src/sdp/attr.c\<close>, \<^verbatim>\<open>fmt/str.c\<close>): strings and attribute lists.
  \<^item> \<open>Call\<close> (\<^verbatim>\<open>src/Call.c\<close>): the state, all handlers, the sending and the signalling thread, the interface.
    \<open>CallLife\<close>: what no handler changes, the arrays of the call, how a call ends and what it leaves behind. \<open>CallMedia\<close>: two calls with each other, from the
    key in the session description to the samples at the other end.
  \<^item> \<open>QueueSpsc\<close> (\<^verbatim>\<open>deps/mn/src/queue_spsc.c\<close>): the pointer queue with counters that wrap around, alone as a
    provider of \<open>bounded_fifo\<close> and between two threads as a step relation.
  \<^item> \<open>ByteBuf\<close> (\<^verbatim>\<open>deps/aws-c-common/source/byte_buf.c\<close>): buffers and cursors, and the branch-free mask.
    \<open>MnBuffer\<close> (\<^verbatim>\<open>deps/mn/src/buffer.c\<close>): buffers as queues of bytes and of integers. \<open>BufferPool\<close>
    (\<^verbatim>\<open>deps/mn/src/buffer_pool.c\<close>): blocks are handed out exclusively (locale \<open>object_pool\<close>). \<open>MnList\<close>
    (\<^verbatim>\<open>deps/mn/src/list_ptr.c\<close>): the array list.

  \<^bold>\<open>Loops and bounds.\<close> Loops over data are structural recursion. The loops that wait for another
  thread (for samples, for room, for the end of a call) take the list of what they observe, one entry for each turn; a list that
  ends before the loop does stands for a loop that is still waiting, and \<open>BlockOnCall_returns\<close> says for which lists the loop ends.
  The rounds of the sending thread and of the audio thread are lists as well. The two loops of STUN that may run on, the padding of an
  attribute and the loop over the attributes of a packet, are partial functions; the first does not end when memory is
  exhausted (\<open>pad_hangs\<close>), the second always ends. No fuel is used.

  \<^bold>\<open>Threads.\<close> The steps of \<open>RingBufferSpsc\<close> and \<open>QueueSpsc\<close> are sequentially consistent; the memory barriers and
  atomic accesses of the code are what makes this adequate, and weaker orders are not modelled.

  The main loop of re runs one handler for each entry of its list of events, and an event that cancels it ends the list; the handlers
  that the code would still run in the same poll are not modelled.

  \<^bold>\<open>Not modelled.\<close> The SIP, DNS, TLS, ICE and HTTP code of re, its STUN transactions, and the sockets and threads below: a call
  sees their callbacks and results. Cryptography: OpenSSL implements it outside of the repository. PortAudio,
  Opus, libsrtp and the rest of aws-c-common: third-party code the client only calls. Logging, clocks, memory
  and thread wrappers of mn: operating system calls. \<^verbatim>\<open>deps/mn/src/map.c\<close>: its set-up never succeeds. The signaller and
  the playground programs: C++ and trial programs with console input and output.
\<close>

end
